(* ===== verification/Prelude.thy ===== *)
theory Prelude
  imports Main "HOL-Library.Word"
begin

text \<open>
  Shared vocabulary of the development: Rust's \<open>Result\<close> as a sum type (the error on the left, as
  \<open>error + 'a\<close>), the \<open>?\<close> operator on results and on stateful computations, the collections of
  facts that carry the component proofs, and the list facts several components share.

  A stateful computation \<open>('s, 'e, 'a) io\<close> takes the state it may change and returns the outcome
  with the new state. An error does not roll the state back: what was changed before the error
  stays changed, as in the Rust code, where an early return keeps every mutation made so far.
\<close>

named_theorems io_simps \<open>unfolding the sequencing combinators\<close>
named_theorems text_simps \<open>evaluation of the string operations of the standard library\<close>
named_theorems flow_simps \<open>fields of a login flow after each lifecycle operation\<close>
named_theorems inv_intros \<open>preservation of component invariants\<close>

subsection \<open>Results\<close>

definition try_res :: "'e + 'a \<Rightarrow> ('a \<Rightarrow> 'e + 'b) \<Rightarrow> 'e + 'b" where
  "try_res r f = (case r of Inl e \<Rightarrow> Inl e | Inr x \<Rightarrow> f x)"

definition ok_or :: "'a option \<Rightarrow> 'e \<Rightarrow> 'e + 'a" where
  "ok_or x e = (case x of None \<Rightarrow> Inl e | Some v \<Rightarrow> Inr v)"

definition map_err :: "('e \<Rightarrow> 'f) \<Rightarrow> 'e + 'a \<Rightarrow> 'f + 'a" where
  "map_err f r = (case r of Inl e \<Rightarrow> Inl (f e) | Inr x \<Rightarrow> Inr x)"

definition is_ok :: "'e + 'a \<Rightarrow> bool" where
  "is_ok r = (case r of Inl _ \<Rightarrow> False | Inr _ \<Rightarrow> True)"

lemma is_ok_simps [simp]: "is_ok (Inr x)" "\<not> is_ok (Inl e)"
  by (simp_all add: is_ok_def)

lemma is_ok_iff: "is_ok r \<longleftrightarrow> (\<exists>x. r = Inr x)"
  by (cases r) simp_all

lemma try_res_simps [simp]:
  "try_res (Inl e) f = Inl e"
  "try_res (Inr x) f = f x"
  by (simp_all add: try_res_def)

lemma try_res_eq_Inr [simp]:
  "try_res r f = Inr y \<longleftrightarrow> (\<exists>x. r = Inr x \<and> f x = Inr y)"
  by (cases r) simp_all

lemma try_res_eq_Inl:
  "try_res r f = Inl e \<longleftrightarrow> r = Inl e \<or> (\<exists>x. r = Inr x \<and> f x = Inl e)"
  by (cases r) simp_all

lemma ok_or_simps [simp]:
  "ok_or None e = Inl e"
  "ok_or (Some x) e = Inr x"
  by (simp_all add: ok_or_def)

lemma ok_or_eq_Inr [simp]: "ok_or x e = Inr v \<longleftrightarrow> x = Some v"
  by (cases x) simp_all

lemma ok_or_eq_Inl [simp]: "ok_or x e = Inl e' \<longleftrightarrow> x = None \<and> e' = e"
  by (cases x) auto

text \<open>Collecting an iterator of results stops at the first error.\<close>

fun collect_res :: "('e + 'a) list \<Rightarrow> 'e + 'a list" where
  "collect_res [] = Inr []"
| "collect_res (r # rs) =
     (case r of Inl e \<Rightarrow> Inl e
      | Inr x \<Rightarrow> (case collect_res rs of Inl e \<Rightarrow> Inl e | Inr xs \<Rightarrow> Inr (x # xs)))"

fun collect_opt :: "'a option list \<Rightarrow> 'a list option" where
  "collect_opt [] = Some []"
| "collect_opt (x # xs) =
     (case x of None \<Rightarrow> None
      | Some y \<Rightarrow> (case collect_opt xs of None \<Rightarrow> None | Some ys \<Rightarrow> Some (y # ys)))"

lemma collect_res_all_ok:
  "(\<forall>x \<in> set xs. \<exists>y. f x = Inr y \<and> g y = h x) \<Longrightarrow>
   \<exists>ys. collect_res (map f xs) = Inr ys \<and> map g ys = map h xs"
  by (induction xs) force+

lemma collect_opt_length: "collect_opt xs = Some ys \<Longrightarrow> length ys = length xs"
  by (induction xs arbitrary: ys) (auto split: option.splits)

lemma collect_opt_nth:
  "collect_opt xs = Some ys \<Longrightarrow> i < length xs \<Longrightarrow> xs ! i = Some (ys ! i)"
  by (induction xs arbitrary: ys i) (auto split: option.splits simp: nth_Cons split: nat.splits)

subsection \<open>Stateful computations\<close>

type_synonym ('s, 'e, 'a) io = "'s \<Rightarrow> ('e + 'a) \<times> 's"

definition ret :: "'a \<Rightarrow> ('s, 'e, 'a) io" where
  "ret x s = (Inr x, s)"

definition throw :: "'e \<Rightarrow> ('s, 'e, 'a) io" where
  "throw e s = (Inl e, s)"

definition lift :: "'e + 'a \<Rightarrow> ('s, 'e, 'a) io" where
  "lift r s = (r, s)"

text \<open>The \<open>?\<close> operator: go on with the value, or return the error with the state reached.\<close>

definition try_io :: "('s, 'e, 'a) io \<Rightarrow> ('a \<Rightarrow> ('s, 'e, 'b) io) \<Rightarrow> ('s, 'e, 'b) io" where
  "try_io m f s =
     (case m s of (Inl e, s') \<Rightarrow> (Inl e, s') | (Inr x, s') \<Rightarrow> f x s')"

definition get_state :: "('s \<Rightarrow> 'a) \<Rightarrow> ('s, 'e, 'a) io" where
  "get_state f s = (Inr (f s), s)"

definition modify_state :: "('s \<Rightarrow> 's) \<Rightarrow> ('s, 'e, unit) io" where
  "modify_state f s = (Inr (), f s)"

text \<open>An operation of the outside that may fail, \<open>.map_err(|_| e)?\<close>.\<close>

definition attempt :: "('s \<Rightarrow> 'a option \<times> 's) \<Rightarrow> 'e \<Rightarrow> ('s, 'e, 'a) io" where
  "attempt f e s = (ok_or (fst (f s)) e, snd (f s))"

lemma attempt_eq [simp]:
  "attempt f e s = (Inr x, t) \<longleftrightarrow> f s = (Some x, t)"
  "attempt f e s = (Inl e', t) \<longleftrightarrow> f s = (None, t) \<and> e' = e"
  by (cases "f s"; auto simp: attempt_def)+

lemma io_basic [io_simps, simp]:
  "ret x s = (Inr x, s)"
  "throw e s = (Inl e, s)"
  "lift r s = (r, s)"
  "get_state f s = (Inr (f s), s)"
  "modify_state g s = (Inr (), g s)"
  by (simp_all add: ret_def throw_def lift_def get_state_def modify_state_def)

lemma try_io_step [io_simps]:
  "m s = (Inl e, s') \<Longrightarrow> try_io m f s = (Inl e, s')"
  "m s = (Inr x, s') \<Longrightarrow> try_io m f s = f x s'"
  by (simp_all add: try_io_def)

lemma try_io_eq_Inr:
  "try_io m f s = (Inr y, t) \<longleftrightarrow> (\<exists>x s'. m s = (Inr x, s') \<and> f x s' = (Inr y, t))"
  by (auto simp: try_io_def split: prod.splits sum.splits)

lemma try_io_eq_Inl:
  "try_io m f s = (Inl e, t) \<longleftrightarrow>
     m s = (Inl e, t) \<or> (\<exists>x s'. m s = (Inr x, s') \<and> f x s' = (Inl e, t))"
  by (auto simp: try_io_def split: prod.splits sum.splits)

lemma try_io_cases:
  assumes "try_io m f s = (r, t)"
  obtains (error) e where "m s = (Inl e, t)" "r = Inl e"
    | (go) x s' where "m s = (Inr x, s')" "f x s' = (r, t)"
  using assms by (auto simp: try_io_def split: prod.splits sum.splits)

text \<open>
  A relation between the state before and the state after that every step keeps is kept by
  sequencing, whatever the outcome: the rule for frame conditions and for monotone facts.
\<close>

definition keeps :: "('s \<Rightarrow> 's \<Rightarrow> bool) \<Rightarrow> ('s, 'e, 'a) io \<Rightarrow> bool" where
  "keeps R m \<longleftrightarrow> (\<forall>s. R s (snd (m s)))"

lemma keepsI: "(\<And>s. R s (snd (m s))) \<Longrightarrow> keeps R m"
  by (simp add: keeps_def)

lemma keepsD: "keeps R m \<Longrightarrow> m s = (r, t) \<Longrightarrow> R s t"
  by (metis keeps_def snd_conv)

lemma keeps_pure [intro]:
  "reflp R \<Longrightarrow> keeps R (ret x)"
  "reflp R \<Longrightarrow> keeps R (throw e)"
  "reflp R \<Longrightarrow> keeps R (lift r)"
  "reflp R \<Longrightarrow> keeps R (get_state f)"
  by (simp_all add: keeps_def reflp_def)

lemma keeps_try_io [intro]:
  assumes "transp R" "keeps R m" "\<And>x. keeps R (f x)"
  shows "keeps R (try_io m f)"
proof (rule keepsI)
  fix s
  obtain r t where rt: "try_io m f s = (r, t)" by (cases "try_io m f s")
  then show "R s (snd (try_io m f s))"
  proof (cases rule: try_io_cases)
    case (error e)
    with assms(2) rt show ?thesis by (auto dest: keepsD)
  next
    case (go x s')
    with assms rt show ?thesis by (metis keepsD snd_conv transpD)
  qed
qed

subsection \<open>Lists\<close>

text \<open>\<open>Vec::swap_remove\<close>: the element at \<open>i\<close> is replaced by the last one.\<close>

definition swap_remove :: "nat \<Rightarrow> 'a list \<Rightarrow> 'a list" where
  "swap_remove i xs = (if Suc i = length xs then butlast xs else butlast (xs[i := last xs]))"

text \<open>\<open>Iterator::position\<close> and \<open>rposition\<close>.\<close>

fun position :: "('a \<Rightarrow> bool) \<Rightarrow> 'a list \<Rightarrow> nat option" where
  "position p [] = None"
| "position p (x # xs) = (if p x then Some 0 else map_option Suc (position p xs))"

definition rposition :: "('a \<Rightarrow> bool) \<Rightarrow> 'a list \<Rightarrow> nat option" where
  "rposition p xs = map_option (\<lambda>i. length xs - Suc i) (position p (rev xs))"

lemma position_Some_iff:
  "position p xs = Some i \<longleftrightarrow> i < length xs \<and> p (xs ! i) \<and> (\<forall>j < i. \<not> p (xs ! j))"
proof (induction xs arbitrary: i)
  case Nil
  then show ?case by simp
next
  case (Cons x xs)
  show ?case
  proof (cases i)
    case 0
    then show ?thesis by auto
  next
    case (Suc k)
    then show ?thesis using Cons.IH [of k]
      by (auto simp: less_Suc_eq_0_disj nth_Cons split: nat.splits)
  qed
qed

lemma position_None_iff: "position p xs = None \<longleftrightarrow> (\<forall>x \<in> set xs. \<not> p x)"
  by (induction xs) auto

lemma rposition_Some_iff:
  "rposition p xs = Some i \<longleftrightarrow>
     i < length xs \<and> p (xs ! i) \<and> (\<forall>j. i < j \<longrightarrow> j < length xs \<longrightarrow> \<not> p (xs ! j))"
proof
  assume "rposition p xs = Some i"
  then obtain k where k: "position p (rev xs) = Some k" and i: "i = length xs - Suc k"
    by (auto simp: rposition_def)
  from k have kl: "k < length xs" and pk: "p (xs ! (length xs - Suc k))"
    and less: "\<And>j. j < k \<Longrightarrow> \<not> p (xs ! (length xs - Suc j))"
    by (auto simp: position_Some_iff rev_nth)
  have "\<not> p (xs ! j)" if "i < j" "j < length xs" for j
    using less [of "length xs - Suc j"] that i kl by simp
  then show "i < length xs \<and> p (xs ! i) \<and> (\<forall>j. i < j \<longrightarrow> j < length xs \<longrightarrow> \<not> p (xs ! j))"
    using i kl pk by auto
next
  assume a: "i < length xs \<and> p (xs ! i) \<and> (\<forall>j. i < j \<longrightarrow> j < length xs \<longrightarrow> \<not> p (xs ! j))"
  then have "position p (rev xs) = Some (length xs - Suc i)"
    by (auto simp: position_Some_iff rev_nth)
  then show "rposition p xs = Some i" using a by (simp add: rposition_def)
qed

lemma rposition_None_iff: "rposition p xs = None \<longleftrightarrow> (\<forall>x \<in> set xs. \<not> p x)"
  by (simp add: rposition_def position_None_iff)

lemma swap_remove_snoc:
  "swap_remove (length ys) (ys @ [y]) = ys"
  "i < length ys \<Longrightarrow> swap_remove i (ys @ [y]) = ys[i := y]"
  by (simp_all add: swap_remove_def list_update_append)

lemma set_swap_remove:
  assumes "i < length xs" "distinct xs"
  shows "set (swap_remove i xs) = set xs - {xs ! i}"
proof (cases xs rule: rev_cases)
  case Nil
  with assms show ?thesis by simp
next
  case (snoc ys y)
  show ?thesis
  proof (cases "i < length ys")
    case True
    then have "set (ys[i := y]) = insert y (set ys - {ys ! i})"
      using assms snoc by (simp add: set_update_distinct)
    moreover have "ys ! i \<noteq> y" using assms snoc True by (auto dest: nth_mem)
    ultimately show ?thesis using snoc True by (auto simp: swap_remove_snoc nth_append)
  next
    case False
    with assms snoc have "i = length ys" by simp
    with assms snoc show ?thesis by (auto simp: swap_remove_snoc)
  qed
qed

lemma distinct_swap_remove:
  assumes "i < length xs" "distinct xs"
  shows "distinct (swap_remove i xs)"
proof (cases xs rule: rev_cases)
  case Nil
  with assms show ?thesis by simp
next
  case (snoc ys y)
  with assms show ?thesis
    by (cases "i < length ys") (auto simp: swap_remove_snoc distinct_list_update less_Suc_eq)
qed

lemma map_swap_remove: "i < length xs \<Longrightarrow> map f (swap_remove i xs) = swap_remove i (map f xs)"
  by (cases xs rule: rev_cases)
    (auto simp: swap_remove_snoc swap_remove_def map_butlast map_update list_update_append)

lemma mset_swap_remove_length:
  "i < length xs \<Longrightarrow> length (swap_remove i xs) = length xs - 1"
  by (simp add: swap_remove_def)

text \<open>The check both scanners use for a name that occurred earlier in a list.\<close>

definition no_repeat :: "'a list \<Rightarrow> bool" where
  "no_repeat xs \<longleftrightarrow> list_all (\<lambda>i. xs ! i \<notin> set (take i xs)) [0..<length xs]"

lemma distinct_iff_take: "distinct xs \<longleftrightarrow> (\<forall>i < length xs. xs ! i \<notin> set (take i xs))"
proof
  assume "distinct xs"
  then show "\<forall>i < length xs. xs ! i \<notin> set (take i xs)"
    by (auto simp: in_set_conv_nth nth_eq_iff_index_eq)
next
  assume a: "\<forall>i < length xs. xs ! i \<notin> set (take i xs)"
  have "xs ! i \<noteq> xs ! j" if "i < j" "j < length xs" for i j
  proof -
    from that have "xs ! i \<in> set (take j xs)" by (auto simp: in_set_conv_nth intro: exI [of _ i])
    with a that show ?thesis by auto
  qed
  then show "distinct xs" by (metis distinct_conv_nth nat_neq_iff)
qed

lemma no_repeat_iff [simp]: "no_repeat xs \<longleftrightarrow> distinct xs"
  by (auto simp: no_repeat_def distinct_iff_take list_all_iff)

end
