(* ===== verification/Utf8.thy ===== *)
theory Utf8
  imports Rust_Std
begin

text \<open>
  UTF-8 as \<open>core::str\<close> reads it, and the text operations that work on code points. A code point
  is a \<open>nat\<close>; \<open>utf8_head\<close> reads the first one of a byte string or says how many bytes the
  maximal malformed piece has, which is what \<open>from_utf8_lossy\<close> replaces by U+FFFD.
\<close>

datatype utf8_step = Scalar nat nat | Malformed nat

definition is_cont :: "char \<Rightarrow> bool" where
  "is_cont b \<longleftrightarrow> 0x80 \<le> code b \<and> code b \<le> 0xBF"

definition second_of_three :: "nat \<Rightarrow> char \<Rightarrow> bool" where
  "second_of_three c b \<longleftrightarrow>
     (if c = 0xE0 then 0xA0 \<le> code b \<and> code b \<le> 0xBF
      else if c = 0xED then 0x80 \<le> code b \<and> code b \<le> 0x9F
      else is_cont b)"

definition second_of_four :: "nat \<Rightarrow> char \<Rightarrow> bool" where
  "second_of_four c b \<longleftrightarrow>
     (if c = 0xF0 then 0x90 \<le> code b \<and> code b \<le> 0xBF
      else if c = 0xF4 then 0x80 \<le> code b \<and> code b \<le> 0x8F
      else is_cont b)"

definition utf8_head :: "char \<Rightarrow> string \<Rightarrow> utf8_step" where
  "utf8_head b bs =
     (let c = code b in
      if c < 0x80 then Scalar c 1
      else if 0xC2 \<le> c \<and> c \<le> 0xDF then
        (case bs of
           [] \<Rightarrow> Malformed 1
         | b1 # _ \<Rightarrow>
             if is_cont b1 then Scalar ((c - 0xC0) * 64 + (code b1 - 0x80)) 2 else Malformed 1)
      else if 0xE0 \<le> c \<and> c \<le> 0xEF then
        (case bs of
           [] \<Rightarrow> Malformed 1
         | b1 # r1 \<Rightarrow>
             if \<not> second_of_three c b1 then Malformed 1
             else (case r1 of
                     [] \<Rightarrow> Malformed 2
                   | b2 # _ \<Rightarrow>
                       if is_cont b2
                       then Scalar ((c - 0xE0) * 4096 + (code b1 - 0x80) * 64 + (code b2 - 0x80)) 3
                       else Malformed 2))
      else if 0xF0 \<le> c \<and> c \<le> 0xF4 then
        (case bs of
           [] \<Rightarrow> Malformed 1
         | b1 # r1 \<Rightarrow>
             if \<not> second_of_four c b1 then Malformed 1
             else (case r1 of
                     [] \<Rightarrow> Malformed 2
                   | b2 # r2 \<Rightarrow>
                       if \<not> is_cont b2 then Malformed 2
                       else (case r2 of
                               [] \<Rightarrow> Malformed 3
                             | b3 # _ \<Rightarrow>
                                 if is_cont b3
                                 then Scalar ((c - 0xF0) * 262144 + (code b1 - 0x80) * 4096 +
                                        (code b2 - 0x80) * 64 + (code b3 - 0x80)) 4
                                 else Malformed 3)))
      else Malformed 1)"

fun chars_of :: "string \<Rightarrow> nat list option" where
  "chars_of [] = Some []"
| "chars_of (b # bs) =
     (case utf8_head b bs of
        Scalar cp n \<Rightarrow> map_option ((#) cp) (chars_of (drop (n - 1) bs))
      | Malformed n \<Rightarrow> None)"

fun chars_lossy :: "string \<Rightarrow> nat list" where
  "chars_lossy [] = []"
| "chars_lossy (b # bs) =
     (case utf8_head b bs of
        Scalar cp n \<Rightarrow> cp # chars_lossy (drop (n - 1) bs)
      | Malformed n \<Rightarrow> 0xFFFD # chars_lossy (drop (n - 1) bs))"

definition encode_utf8 :: "nat \<Rightarrow> string" where
  "encode_utf8 cp =
     (if cp < 0x80 then [char_of cp]
      else if cp < 0x800 then [char_of (0xC0 + cp div 64), char_of (0x80 + cp mod 64)]
      else if cp < 0x10000 then
        [char_of (0xE0 + cp div 4096), char_of (0x80 + cp div 64 mod 64),
         char_of (0x80 + cp mod 64)]
      else
        [char_of (0xF0 + cp div 262144), char_of (0x80 + cp div 4096 mod 64),
         char_of (0x80 + cp div 64 mod 64), char_of (0x80 + cp mod 64)])"

definition string_of :: "nat list \<Rightarrow> string" where
  "string_of cps = concat (map encode_utf8 cps)"

text \<open>\<open>char::from_u32\<close>: the Unicode scalar values.\<close>

definition is_scalar :: "nat \<Rightarrow> bool" where
  "is_scalar cp \<longleftrightarrow> cp < 0xD800 \<or> 0xE000 \<le> cp \<and> cp \<le> 0x10FFFF"

definition valid_utf8 :: "string \<Rightarrow> bool" where
  "valid_utf8 s \<longleftrightarrow> chars_of s \<noteq> None"

definition from_utf8 :: "string \<Rightarrow> string option" where
  "from_utf8 s = (if valid_utf8 s then Some s else None)"

definition from_utf8_lossy :: "string \<Rightarrow> string" where
  "from_utf8_lossy s = string_of (chars_lossy s)"

subsection \<open>Reading back what was written\<close>

lemma code_char_of [simp]: "n < 256 \<Longrightarrow> code (char_of n) = n"
  by simp

lemma div_steps:
  fixes n :: nat
  shows "n div 4096 = n div 64 div 64" "n div 262144 = n div 64 div 64 div 64"
    "n div 4096 mod 64 = n div 64 div 64 mod 64"
  by (simp_all add: div_mult2_eq [symmetric])

lemma split_bits3:
  fixes n :: nat
  shows "n div 4096 * 4096 + n div 64 mod 64 * 64 + n mod 64 = n"
proof -
  have "n = n div 64 * 64 + n mod 64" "n div 64 = n div 64 div 64 * 64 + n div 64 mod 64" by simp_all
  then show ?thesis unfolding div_steps by linarith
qed

lemma split_bits4:
  fixes n :: nat
  shows "n div 262144 * 262144 + n div 4096 mod 64 * 4096 + n div 64 mod 64 * 64 + n mod 64 = n"
proof -
  have "n = n div 64 * 64 + n mod 64" "n div 64 = n div 64 div 64 * 64 + n div 64 mod 64"
    "n div 64 div 64 = n div 64 div 64 div 64 * 64 + n div 64 div 64 mod 64" by simp_all
  then show ?thesis unfolding div_steps by linarith
qed

lemma utf8_head_encode:
  assumes "is_scalar cp"
  obtains b bs where "encode_utf8 cp = b # bs"
    "\<And>rest. utf8_head b (bs @ rest) = Scalar cp (Suc (length bs))"
proof -
  consider "cp < 0x80" | "0x80 \<le> cp" "cp < 0x800" | "0x800 \<le> cp" "cp < 0x10000"
    | "0x10000 \<le> cp" "cp \<le> 0x10FFFF"
    using assms by (auto simp: is_scalar_def) linarith+
  then show thesis
  proof cases
    case 1
    then show thesis
      by (intro that [of "char_of cp" "[]"]) (simp_all add: encode_utf8_def utf8_head_def)
  next
    case 2
    define a x where "a = cp div 64" and "x = cp mod 64"
    have cp: "cp = a * 64 + x" by (simp add: a_def x_def)
    have bounds: "x < 64" "2 \<le> a" "a < 32" using 2 by (auto simp: a_def x_def)
    have "encode_utf8 cp = [char_of (0xC0 + a), char_of (0x80 + x)]"
      using 2 by (simp add: encode_utf8_def a_def x_def)
    then show thesis
      using bounds cp
      by (intro that [of "char_of (0xC0 + a)" "[char_of (0x80 + x)]"])
        (simp_all add: utf8_head_def Let_def is_cont_def)
  next
    case 3
    define a x y where "a = cp div 4096" and "x = cp div 64 mod 64" and "y = cp mod 64"
    have cp: "cp = a * 4096 + x * 64 + y" by (simp add: a_def x_def y_def split_bits3)
    have xy: "x < 64" "y < 64" by (simp_all add: x_def y_def)
    have bounds: "a < 16" "a = 0 \<Longrightarrow> 32 \<le> x" "a = 13 \<Longrightarrow> x < 32"
      using 3 xy cp assms by (auto simp: is_scalar_def)
    have "encode_utf8 cp = [char_of (0xE0 + a), char_of (0x80 + x), char_of (0x80 + y)]"
      using 3 by (simp add: encode_utf8_def a_def x_def y_def)
    moreover have "second_of_three (0xE0 + a) (char_of (0x80 + x))"
      using bounds xy by (auto simp: second_of_three_def is_cont_def)
    ultimately show thesis
      using bounds xy cp
      by (intro that [of "char_of (0xE0 + a)" "[char_of (0x80 + x), char_of (0x80 + y)]"])
        (simp_all add: utf8_head_def Let_def is_cont_def)
  next
    case 4
    define a x y z where "a = cp div 262144" and "x = cp div 4096 mod 64"
      and "y = cp div 64 mod 64" and "z = cp mod 64"
    have cp: "cp = a * 262144 + x * 4096 + y * 64 + z"
      by (simp only: a_def x_def y_def z_def split_bits4)
    have xyz: "x < 64" "y < 64" "z < 64" by (simp_all add: x_def y_def z_def)
    have bounds: "a < 5" "a = 0 \<Longrightarrow> 16 \<le> x" "a = 4 \<Longrightarrow> x < 16" using 4 xyz cp by auto
    have "encode_utf8 cp =
        [char_of (0xF0 + a), char_of (0x80 + x), char_of (0x80 + y), char_of (0x80 + z)]"
      using 4 by (simp add: encode_utf8_def a_def x_def y_def z_def)
    moreover have "second_of_four (0xF0 + a) (char_of (0x80 + x))"
      using bounds xyz by (auto simp: second_of_four_def is_cont_def)
    ultimately show thesis
      using bounds xyz cp
      by (intro that [of "char_of (0xF0 + a)"
            "[char_of (0x80 + x), char_of (0x80 + y), char_of (0x80 + z)]"])
        (simp_all add: utf8_head_def Let_def is_cont_def)
  qed
qed

lemma chars_of_encode:
  "is_scalar cp \<Longrightarrow> chars_of (encode_utf8 cp @ s) = map_option ((#) cp) (chars_of s)"
  by (erule utf8_head_encode) simp

lemma chars_of_string_of:
  "list_all is_scalar cps \<Longrightarrow> chars_of (string_of cps) = Some cps"
  by (induction cps) (simp_all add: string_of_def chars_of_encode)

lemma valid_string_of: "list_all is_scalar cps \<Longrightarrow> valid_utf8 (string_of cps)"
  by (simp add: valid_utf8_def chars_of_string_of)

lemma char_of_eq_iff: "n < 256 \<Longrightarrow> char_of n = b \<longleftrightarrow> code b = n"
  by (metis code_char_of char_of_char)

lemma join_bits2:
  fixes a x :: nat
  assumes "x < 64"
  shows "(a * 64 + x) div 64 = a" "(a * 64 + x) mod 64 = x"
  using assms by simp_all

lemma join_bits3:
  fixes a x y :: nat
  assumes "x < 64" "y < 64"
  shows "(a * 4096 + x * 64 + y) div 4096 = a" "(a * 4096 + x * 64 + y) div 64 mod 64 = x"
    "(a * 4096 + x * 64 + y) mod 64 = y"
proof -
  have "a * 4096 + x * 64 + y = (a * 64 + x) * 64 + y" by simp
  then show "(a * 4096 + x * 64 + y) div 4096 = a" "(a * 4096 + x * 64 + y) div 64 mod 64 = x"
    "(a * 4096 + x * 64 + y) mod 64 = y"
    using assms by (simp_all only: div_steps join_bits2)
qed

lemma join_bits4:
  fixes a x y z :: nat
  assumes "x < 64" "y < 64" "z < 64"
  shows "(a * 262144 + x * 4096 + y * 64 + z) div 262144 = a"
    "(a * 262144 + x * 4096 + y * 64 + z) div 4096 mod 64 = x"
    "(a * 262144 + x * 4096 + y * 64 + z) div 64 mod 64 = y"
    "(a * 262144 + x * 4096 + y * 64 + z) mod 64 = z"
proof -
  have "a * 262144 + x * 4096 + y * 64 + z = ((a * 64 + x) * 64 + y) * 64 + z" by simp
  then show "(a * 262144 + x * 4096 + y * 64 + z) div 262144 = a"
    "(a * 262144 + x * 4096 + y * 64 + z) div 4096 mod 64 = x"
    "(a * 262144 + x * 4096 + y * 64 + z) div 64 mod 64 = y"
    "(a * 262144 + x * 4096 + y * 64 + z) mod 64 = z"
    using assms by (simp_all only: div_steps join_bits2)
qed

lemma utf8_head_Scalar_cases:
  assumes "utf8_head b bs = Scalar cp n"
  obtains (one) "code b < 0x80" "cp = code b" "n = 1"
  | (two) b1 r where "bs = b1 # r" "n = 2" "0xC2 \<le> code b" "code b \<le> 0xDF" "is_cont b1"
      "cp = (code b - 0xC0) * 64 + (code b1 - 0x80)"
  | (three) b1 b2 r where "bs = b1 # b2 # r" "n = 3" "0xE0 \<le> code b" "code b \<le> 0xEF"
      "second_of_three (code b) b1" "is_cont b2"
      "cp = (code b - 0xE0) * 4096 + (code b1 - 0x80) * 64 + (code b2 - 0x80)"
  | (four) b1 b2 b3 r where "bs = b1 # b2 # b3 # r" "n = 4" "0xF0 \<le> code b" "code b \<le> 0xF4"
      "second_of_four (code b) b1" "is_cont b2" "is_cont b3"
      "cp = (code b - 0xF0) * 262144 + (code b1 - 0x80) * 4096 + (code b2 - 0x80) * 64 +
         (code b3 - 0x80)"
  using assms by (auto simp: utf8_head_def Let_def split: if_splits list.splits)

lemma utf8_head_Scalar_scalar:
  assumes "utf8_head b bs = Scalar cp n"
  shows "is_scalar cp \<and> 0 < n \<and> n \<le> Suc (length bs)"
  using assms
proof (cases rule: utf8_head_Scalar_cases)
  case one
  then show ?thesis by (simp add: is_scalar_def)
next
  case (two b1 r)
  then show ?thesis by (auto simp: is_scalar_def is_cont_def)
next
  case (three b1 b2 r)
  then show ?thesis
    by (cases "code b = 0xED") (auto simp: is_scalar_def is_cont_def second_of_three_def split: if_splits)
next
  case (four b1 b2 b3 r)
  then have "code b1 - 0x80 < 64" "code b2 - 0x80 < 64" "code b3 - 0x80 < 64"
    "code b - 0xF0 \<le> 4" "code b - 0xF0 = 4 \<Longrightarrow> code b1 - 0x80 < 16"
    "code b - 0xF0 = 0 \<Longrightarrow> 16 \<le> code b1 - 0x80"
    by (auto simp: is_cont_def second_of_four_def split: if_splits)
  then have "0x10000 \<le> cp" "cp \<le> 0x10FFFF"
    unfolding four(8) by linarith+
  with four show ?thesis by (simp add: is_scalar_def)
qed

lemma utf8_head_Scalar:
  assumes "utf8_head b bs = Scalar cp n"
  shows "encode_utf8 cp = take n (b # bs)"
  using assms
proof (cases rule: utf8_head_Scalar_cases)
  case one
  then show ?thesis by (simp add: encode_utf8_def)
next
  case (two b1 r)
  define a x where "a = code b - 0xC0" and "x = code b1 - 0x80"
  have bounds: "x < 64" "2 \<le> a" "a < 32" and b: "code b = 0xC0 + a" "code b1 = 0x80 + x"
    using two by (auto simp: a_def x_def is_cont_def)
  have "encode_utf8 (a * 64 + x) = [b, b1]"
    using bounds b by (simp add: encode_utf8_def join_bits2 char_of_eq_iff)
  with two show ?thesis by (simp add: a_def x_def)
next
  case (three b1 b2 r)
  define a x y where "a = code b - 0xE0" and "x = code b1 - 0x80" and "y = code b2 - 0x80"
  have bounds: "x < 64" "y < 64" "a < 16" "a = 0 \<Longrightarrow> 32 \<le> x"
    and b: "code b = 0xE0 + a" "code b1 = 0x80 + x" "code b2 = 0x80 + y"
    using three by (auto simp: a_def x_def y_def is_cont_def second_of_three_def split: if_splits)
  have "\<not> a * 4096 + x * 64 + y < 0x800" using bounds by (cases "a = 0") auto
  moreover have "a * 4096 + x * 64 + y < 0x10000" using bounds by linarith
  ultimately have "encode_utf8 (a * 4096 + x * 64 + y) = [b, b1, b2]"
    using bounds b by (simp add: encode_utf8_def join_bits3 char_of_eq_iff)
  with three show ?thesis by (simp add: a_def x_def y_def)
next
  case (four b1 b2 b3 r)
  define a x y z where "a = code b - 0xF0" and "x = code b1 - 0x80" and "y = code b2 - 0x80"
    and "z = code b3 - 0x80"
  have bounds: "x < 64" "y < 64" "z < 64" "a < 5" "a = 0 \<Longrightarrow> 16 \<le> x"
    and b: "code b = 0xF0 + a" "code b1 = 0x80 + x" "code b2 = 0x80 + y" "code b3 = 0x80 + z"
    using four
    by (auto simp: a_def x_def y_def z_def is_cont_def second_of_four_def split: if_splits)
  have "\<not> a * 262144 + x * 4096 + y * 64 + z < 0x10000" using bounds by (cases "a = 0") auto
  then have "encode_utf8 (a * 262144 + x * 4096 + y * 64 + z) = [b, b1, b2, b3]"
    using bounds b by (simp add: encode_utf8_def join_bits4 char_of_eq_iff)
  with four show ?thesis by (simp add: a_def x_def y_def z_def)
qed

lemma chars_of_Some:
  "chars_of s = Some cps \<Longrightarrow> list_all is_scalar cps \<and> string_of cps = s"
proof (induction s arbitrary: cps rule: chars_of.induct)
  case 1
  then show ?case by (simp add: string_of_def)
next
  case (2 b bs)
  then obtain cp n cps' where h: "utf8_head b bs = Scalar cp n"
    and t: "chars_of (drop (n - 1) bs) = Some cps'" and cps: "cps = cp # cps'"
    by (auto split: utf8_step.splits)
  from 2 h t have IH: "list_all is_scalar cps'" "string_of cps' = drop (n - 1) bs" by auto
  from h have "is_scalar cp" "0 < n" using utf8_head_Scalar_scalar by blast+
  moreover from \<open>0 < n\<close> have "take n (b # bs) @ drop (n - 1) bs = b # bs"
    by (cases n) simp_all
  ultimately show ?case using cps IH utf8_head_Scalar [OF h] by (simp add: string_of_def)
qed

lemma valid_utf8_iff: "valid_utf8 s \<longleftrightarrow> (\<exists>cps. list_all is_scalar cps \<and> s = string_of cps)"
  using chars_of_Some chars_of_string_of by (fastforce simp: valid_utf8_def)

lemma string_of_append [simp]: "string_of (a @ b) = string_of a @ string_of b"
  by (simp add: string_of_def)

lemma valid_utf8_append: "valid_utf8 a \<Longrightarrow> valid_utf8 b \<Longrightarrow> valid_utf8 (a @ b)"
  unfolding valid_utf8_iff by (metis list_all_append string_of_append)

lemma chars_of_ascii: "list_all (\<lambda>c. code c < 0x80) s \<Longrightarrow> chars_of s = Some (map of_char s)"
  by (induction s) (simp_all add: utf8_head_def)

lemma valid_utf8_ascii: "list_all (\<lambda>c. code c < 0x80) s \<Longrightarrow> valid_utf8 s"
  by (simp add: valid_utf8_def chars_of_ascii)

lemma chars_lossy_scalar: "list_all is_scalar (chars_lossy s)"
proof (induction s rule: chars_lossy.induct)
  case 1
  then show ?case by simp
next
  case (2 b bs)
  then show ?case
    by (auto simp: is_scalar_def [of 65533] utf8_head_Scalar_scalar split: utf8_step.splits)
qed

lemma from_utf8_lossy_valid: "valid_utf8 (from_utf8_lossy s)"
  by (simp add: from_utf8_lossy_def valid_string_of chars_lossy_scalar)

lemma chars_lossy_of_valid: "chars_of s = Some cps \<Longrightarrow> chars_lossy s = cps"
  by (induction s arbitrary: cps rule: chars_of.induct) (auto split: utf8_step.splits)

lemma from_utf8_lossy_id: "valid_utf8 s \<Longrightarrow> from_utf8_lossy s = s"
  by (auto simp: from_utf8_lossy_def valid_utf8_def chars_lossy_of_valid dest: chars_of_Some)

lemma from_utf8_Some [simp]: "from_utf8 s = Some t \<longleftrightarrow> valid_utf8 s \<and> t = s"
  by (auto simp: from_utf8_def)

subsection \<open>Text operations on code points\<close>

text \<open>The bytes of a \<open>str\<close> always decode; \<open>chars\<close> is \<open>str::chars\<close>.\<close>

definition chars :: "string \<Rightarrow> nat list" where
  "chars s = (case chars_of s of None \<Rightarrow> [] | Some cps \<Rightarrow> cps)"

text \<open>\<open>char::is_control\<close> is the general category Cc; \<open>char::is_whitespace\<close> is White_Space.\<close>

definition is_control :: "nat \<Rightarrow> bool" where
  "is_control cp \<longleftrightarrow> cp < 0x20 \<or> 0x7F \<le> cp \<and> cp \<le> 0x9F"

definition is_whitespace :: "nat \<Rightarrow> bool" where
  "is_whitespace cp \<longleftrightarrow>
     0x09 \<le> cp \<and> cp \<le> 0x0D \<or> cp \<in> {0x20, 0x85, 0xA0, 0x1680} \<or>
     0x2000 \<le> cp \<and> cp \<le> 0x200A \<or> cp \<in> {0x2028, 0x2029, 0x202F, 0x205F, 0x3000}"

definition trim :: "string \<Rightarrow> string" where
  "trim s = string_of (rev (dropWhile is_whitespace (rev (dropWhile is_whitespace (chars s)))))"

definition split_whitespace :: "nat list \<Rightarrow> nat list list" where
  "split_whitespace cps = filter (\<lambda>w. w \<noteq> []) (split_by is_whitespace cps)"

lemma chars_scalar: "list_all is_scalar (chars s)"
  by (auto simp: chars_def split: option.splits dest: chars_of_Some)

lemma chars_string_of [simp]: "list_all is_scalar cps \<Longrightarrow> chars (string_of cps) = cps"
  by (simp add: chars_def chars_of_string_of)

lemma string_of_chars [simp]: "valid_utf8 s \<Longrightarrow> string_of (chars s) = s"
  by (auto simp: chars_def valid_utf8_def dest: chars_of_Some)

lemma trim_valid: "valid_utf8 (trim s)"
proof -
  have "set (rev (dropWhile is_whitespace (rev (dropWhile is_whitespace (chars s))))) \<subseteq> set (chars s)"
    by (auto intro: set_dropWhileD dest!: set_dropWhileD)
  then have "list_all is_scalar (rev (dropWhile is_whitespace (rev (dropWhile is_whitespace (chars s)))))"
    using chars_scalar [of s] by (auto simp: list_all_iff)
  then show ?thesis by (simp add: trim_def valid_string_of)
qed

lemma split_by_parts: "w \<in> set (split_by p xs) \<Longrightarrow> x \<in> set w \<Longrightarrow> \<not> p x \<and> x \<in> set xs"
proof (induction xs arbitrary: w)
  case Nil
  then show ?case by simp
next
  case (Cons y ys)
  then show ?case
    by (cases "split_by p ys") (force split: if_splits)+
qed

end
