(* ===== verification/Errors.thy ===== *)
theory Errors
  imports Rust_Std
begin

text \<open>
  \<open>src/error.rs\<close>: the library's one error type and its \<open>Display\<close>. An HTTP status is a \<open>nat\<close>
  (the \<open>u32\<close> libcurl reports). \<open>'a res\<close> is the source's \<open>Result<T>\<close>.
\<close>

datatype error =
    InvalidConfiguration string
  | Transport string
  | TlsBackend
  | HttpStatus nat
  | AuthenticationRejected
  | Protocol string
  | TokenValidation string
  | Crypto
  | UnsupportedFactor
  | Cancelled
  | Expired
  | NotImplemented

type_synonym 'a res = "error + 'a"

type_synonym ('s, 'a) act = "('s, error, 'a) io"

fun display_error :: "error \<Rightarrow> string" where
  "display_error (InvalidConfiguration reason) = ''invalid configuration: '' @ reason"
| "display_error (Transport reason) = ''transport error: '' @ reason"
| "display_error TlsBackend = ''libcurl is not using wolfSSL''"
| "display_error (HttpStatus status) = ''unexpected HTTP status '' @ show_nat status"
| "display_error AuthenticationRejected = ''authentication rejected''"
| "display_error (Protocol reason) = ''OIDC protocol error: '' @ reason"
| "display_error (TokenValidation reason) = ''token validation failed: '' @ reason"
| "display_error Crypto = ''wolfCrypt operation failed''"
| "display_error UnsupportedFactor = ''authentication factor not supported''"
| "display_error Cancelled = ''login cancelled''"
| "display_error Expired = ''login expired''"
| "display_error NotImplemented = ''not implemented''"

end
