(* ===== verification/Json.thy ===== *)
theory Json
  imports Utf8
begin

text \<open>
  \<open>src/sensitive_json.rs\<close>: the JSON parser that keeps identity data in buffers it wipes, and the
  wiping itself. \<open>serde_json\<close> is a library the source calls: its \<open>Value\<close> is the type
  \<open>json\<close>, its \<open>Number\<close> is seen only through \<open>as_u64\<close> and its text, and its number
  parser (\<open>serde_json::from_slice::<Number>\<close>) is the parameter \<open>num\<close> of the parser here. An
  object is an association list in insertion order; the source looks names up and never iterates.

  The Rust parser keeps the input and an offset; here the state is the input from that offset on,
  so \<open>input.get(offset)\<close> is the head of the list and \<open>offset += 1\<close> drops it. \<open>value\<close>,
  \<open>object\<close> and \<open>array\<close> are mutually recursive with loops that end because the input gets
  shorter; they take fuel, and \<open>Starved\<close> is running out of it, which \<open>parse\<close> never does.
\<close>

record number =
  as_u64 :: "nat option"
  number_text :: string

datatype json =
    JNull
  | JBool bool
  | JNumber number
  | JString string
  | JArray "json list"
  | JObject "(string \<times> json) list"

subsection \<open>Reading a value\<close>

fun jget :: "json \<Rightarrow> string \<Rightarrow> json option" where
  "jget (JObject m) k = map_of m k"
| "jget _ k = None"

fun as_str :: "json \<Rightarrow> string option" where
  "as_str (JString s) = Some s"
| "as_str _ = None"

fun as_array :: "json \<Rightarrow> json list option" where
  "as_array (JArray xs) = Some xs"
| "as_array _ = None"

fun json_u64 :: "json \<Rightarrow> nat option" where
  "json_u64 (JNumber n) = as_u64 n"
| "json_u64 _ = None"

text \<open>\<open>value.get(name).and_then(Value::as_str)\<close>, the reading the source uses throughout.\<close>

definition str_field :: "json \<Rightarrow> string \<Rightarrow> string option" where
  "str_field v k = Option.bind (jget v k) as_str"

definition u64_field :: "json \<Rightarrow> string \<Rightarrow> nat option" where
  "u64_field v k = Option.bind (jget v k) json_u64"

definition array_field :: "json \<Rightarrow> string \<Rightarrow> json list option" where
  "array_field v k = Option.bind (jget v k) as_array"

subsection \<open>Wiping\<close>

text \<open>
  \<open>clear_claims\<close>: text becomes empty, an array keeps its cleared items, an object is emptied
  (\<open>std::mem::take\<close>), its names and items being wiped before they are freed.
\<close>

fun clear_claims :: "json \<Rightarrow> json" where
  "clear_claims (JString s) = JString []"
| "clear_claims (JArray xs) = JArray (map clear_claims xs)"
| "clear_claims (JObject m) = JObject []"
| "clear_claims v = v"

text \<open>What the value still holds: every text in it, names of objects included.\<close>

fun texts :: "json \<Rightarrow> string list" where
  "texts (JString s) = [s]"
| "texts (JArray xs) = concat (map texts xs)"
| "texts (JObject m) = concat (map (\<lambda>(k, v). k # texts v) m)"
| "texts _ = []"

text \<open>
  The values freed while wiping, in the order the loop frees them, after they were wiped: nothing
  taken out of an object reaches the allocator with text in it.
\<close>

fun freed_by_clear :: "json \<Rightarrow> json list" where
  "freed_by_clear (JArray xs) = concat (map freed_by_clear xs)"
| "freed_by_clear (JObject m) =
     concat (map (\<lambda>(k, v). freed_by_clear v @ [JString [], clear_claims v]) m)"
| "freed_by_clear _ = []"

subsection \<open>The scanner\<close>

definition is_json_ws :: "char \<Rightarrow> bool" where
  "is_json_ws c \<longleftrightarrow> c = CHR '' '' \<or> c = NL \<or> c = CR \<or> c = TAB"

definition whitespace :: "string \<Rightarrow> string" where
  "whitespace inp = dropWhile is_json_ws inp"

fun consume :: "char \<Rightarrow> string \<Rightarrow> string option" where
  "consume b [] = None"
| "consume b (c # cs) = (if c = b then Some cs else None)"

definition literal :: "string \<Rightarrow> json \<Rightarrow> string \<Rightarrow> (json \<times> string) option" where
  "literal lit v inp =
     (case strip_prefix lit inp of None \<Rightarrow> None | Some rest \<Rightarrow> Some (v, rest))"

definition is_number_char :: "char \<Rightarrow> bool" where
  "is_number_char c \<longleftrightarrow>
     c \<in> {CHR ''-'', CHR ''+'', CHR ''.'', CHR ''e'', CHR ''E''} \<or> is_digit c"

definition number_value ::
  "(string \<Rightarrow> number option) \<Rightarrow> string \<Rightarrow> (json \<times> string) option" where
  "number_value num inp =
     (case num (takeWhile is_number_char inp) of
        None \<Rightarrow> None
      | Some n \<Rightarrow> Some (JNumber n, dropWhile is_number_char inp))"

definition hex_digit :: "char \<Rightarrow> nat option" where
  "hex_digit c =
     (if is_digit c then Some (code c - 0x30)
      else if 0x61 \<le> code c \<and> code c \<le> 0x66 then Some (code c - 0x61 + 10)
      else if 0x41 \<le> code c \<and> code c \<le> 0x46 then Some (code c - 0x41 + 10)
      else None)"

text \<open>Four hexadecimal digits; \<open>(value << 4) | digit\<close> on a \<open>u16\<close>.\<close>

definition hex4 :: "string \<Rightarrow> (nat \<times> string) option" where
  "hex4 raw =
     (if length raw < 4 then None
      else (case collect_opt (map hex_digit (take 4 raw)) of
              None \<Rightarrow> None
            | Some ds \<Rightarrow> Some (foldl (\<lambda>v d. v * 16 + d) 0 ds, drop 4 raw)))"

text \<open>
  The span of a string after its opening quote: up to the first unescaped quote. A backslash
  skips the byte after it, whatever it is.
\<close>

fun raw_span :: "string \<Rightarrow> (string \<times> string) option" where
  "raw_span [] = None"
| "raw_span (c # cs) =
     (if c = DQUOTE then Some ([], cs)
      else if c = BACKSLASH then
        (case cs of
           [] \<Rightarrow> None
         | d # ds \<Rightarrow> map_option (\<lambda>(raw, rest). (c # d # raw, rest)) (raw_span ds))
      else map_option (\<lambda>(raw, rest). (c # raw, rest)) (raw_span cs))"

definition simple_escape :: "char \<Rightarrow> char option" where
  "simple_escape e =
     (if e = DQUOTE \<or> e = BACKSLASH \<or> e = CHR ''/'' then Some e
      else if e = CHR ''b'' then Some (CHR 0x08)
      else if e = CHR ''f'' then Some (CHR 0x0C)
      else if e = CHR ''n'' then Some NL
      else if e = CHR ''r'' then Some CR
      else if e = CHR ''t'' then Some TAB
      else None)"

text \<open>\<open>\u\<close> and what follows it: a scalar value, or a surrogate pair of two escapes.\<close>

definition unicode_escape :: "string \<Rightarrow> (string \<times> string) option" where
  "unicode_escape raw =
     (case hex4 raw of
        None \<Rightarrow> None
      | Some (cp, rest) \<Rightarrow>
          if 0xD800 \<le> cp \<and> cp \<le> 0xDBFF then
            (case strip_prefix [BACKSLASH, CHR ''u''] rest of
               None \<Rightarrow> None
             | Some rest' \<Rightarrow>
                 (case hex4 rest' of
                    None \<Rightarrow> None
                  | Some (low, rest'') \<Rightarrow>
                      if 0xDC00 \<le> low \<and> low \<le> 0xDFFF
                      then Some (encode_utf8 (0x10000 + (cp - 0xD800) * 1024 + low - 0xDC00), rest'')
                      else None))
          else if is_scalar cp then Some (encode_utf8 cp, rest)
          else None)"

lemma hex4_rest: "hex4 raw = Some (v, rest) \<Longrightarrow> length rest < length raw"
  by (auto simp: hex4_def split: if_splits option.splits)

lemma unicode_escape_rest: "unicode_escape raw = Some (b, rest) \<Longrightarrow> length rest < length raw"
  by (force simp: unicode_escape_def split: option.splits prod.splits if_splits dest!: hex4_rest)

function decode_raw :: "string \<Rightarrow> string option" where
  "decode_raw [] = Some []"
| "decode_raw (c # cs) =
     (if code c < 0x20 then None
      else if c \<noteq> BACKSLASH then map_option ((#) c) (decode_raw cs)
      else (case cs of
              [] \<Rightarrow> None
            | e # es \<Rightarrow>
                if e = CHR ''u'' then
                  (case unicode_escape es of
                     None \<Rightarrow> None
                   | Some (bytes, rest) \<Rightarrow> map_option ((@) bytes) (decode_raw rest))
                else (case simple_escape e of
                        None \<Rightarrow> None
                      | Some b \<Rightarrow> map_option ((#) b) (decode_raw es))))"
  by pat_completeness auto
termination
  by (relation "measure length") (auto dest!: unicode_escape_rest)

definition string_value :: "string \<Rightarrow> (string \<times> string) option" where
  "string_value inp =
     (case consume DQUOTE inp of
        None \<Rightarrow> None
      | Some body \<Rightarrow>
          (case raw_span body of
             None \<Rightarrow> None
           | Some (raw, rest) \<Rightarrow>
               (case decode_raw raw of
                  None \<Rightarrow> None
                | Some decoded \<Rightarrow>
                    (case from_utf8 decoded of None \<Rightarrow> None | Some s \<Rightarrow> Some (s, rest)))))"

subsection \<open>The recursive part\<close>

datatype 'a outcome = Starved | Refused | Parsed 'a string

fun of_option :: "('a \<times> string) option \<Rightarrow> 'a outcome" where
  "of_option None = Refused"
| "of_option (Some (v, rest)) = Parsed v rest"

definition max_depth :: nat where "max_depth = 128"

fun value_at :: "(string \<Rightarrow> number option) \<Rightarrow> nat \<Rightarrow> nat \<Rightarrow> string \<Rightarrow> json outcome"
  and object_loop ::
    "(string \<Rightarrow> number option) \<Rightarrow> nat \<Rightarrow> nat \<Rightarrow> (string \<times> json) list \<Rightarrow> string \<Rightarrow> json outcome"
  and array_loop ::
    "(string \<Rightarrow> number option) \<Rightarrow> nat \<Rightarrow> nat \<Rightarrow> json list \<Rightarrow> string \<Rightarrow> json outcome"
where
  "value_at num 0 depth inp = Starved"
| "value_at num (Suc fuel) depth inp =
     (if max_depth < depth then Refused
      else (case whitespace inp of
              [] \<Rightarrow> Refused
            | c # cs \<Rightarrow>
                if c = CHR ''{'' then
                  (case consume (CHR ''}'') (whitespace cs) of
                     Some rest \<Rightarrow> Parsed (JObject []) rest
                   | None \<Rightarrow> object_loop num fuel depth [] (whitespace cs))
                else if c = CHR ''['' then
                  (case consume (CHR '']'') (whitespace cs) of
                     Some rest \<Rightarrow> Parsed (JArray []) rest
                   | None \<Rightarrow> array_loop num fuel depth [] (whitespace cs))
                else if c = DQUOTE then
                  of_option (map_option (\<lambda>(s, rest). (JString s, rest)) (string_value (c # cs)))
                else if c = CHR ''t'' then of_option (literal ''true'' (JBool True) (c # cs))
                else if c = CHR ''f'' then of_option (literal ''false'' (JBool False) (c # cs))
                else if c = CHR ''n'' then of_option (literal ''null'' JNull (c # cs))
                else if c = CHR ''-'' \<or> is_digit c then of_option (number_value num (c # cs))
                else Refused))"
| "object_loop num 0 depth entries inp = Starved"
| "object_loop num (Suc fuel) depth entries inp =
     (case string_value inp of
        None \<Rightarrow> Refused
      | Some (key, rest) \<Rightarrow>
          (case consume (CHR '':'') (whitespace rest) of
             None \<Rightarrow> Refused
           | Some rest1 \<Rightarrow>
               if key \<in> fst ` set entries then Refused
               else (case value_at num fuel (depth + 1) rest1 of
                       Starved \<Rightarrow> Starved
                     | Refused \<Rightarrow> Refused
                     | Parsed v rest2 \<Rightarrow>
                         (case consume (CHR ''}'') (whitespace rest2) of
                            Some rest3 \<Rightarrow> Parsed (JObject (entries @ [(key, v)])) rest3
                          | None \<Rightarrow>
                              (case consume (CHR '','') (whitespace rest2) of
                                 None \<Rightarrow> Refused
                               | Some rest3 \<Rightarrow>
                                   object_loop num fuel depth (entries @ [(key, v)])
                                     (whitespace rest3))))))"
| "array_loop num 0 depth items inp = Starved"
| "array_loop num (Suc fuel) depth items inp =
     (case value_at num fuel (depth + 1) inp of
        Starved \<Rightarrow> Starved
      | Refused \<Rightarrow> Refused
      | Parsed v rest \<Rightarrow>
          (case consume (CHR '']'') (whitespace rest) of
             Some rest1 \<Rightarrow> Parsed (JArray (items @ [v])) rest1
           | None \<Rightarrow>
               (case consume (CHR '','') (whitespace rest) of
                  None \<Rightarrow> Refused
                | Some rest1 \<Rightarrow> array_loop num fuel depth (items @ [v]) rest1)))"

text \<open>The fuel \<open>parse\<close> starts with; \<open>2 * length + 1\<close> is always enough.\<close>

definition parse_outcome :: "(string \<Rightarrow> number option) \<Rightarrow> string \<Rightarrow> json outcome" where
  "parse_outcome num input = value_at num (2 * length input + 1) 0 input"

definition parse :: "(string \<Rightarrow> number option) \<Rightarrow> string \<Rightarrow> json option" where
  "parse num input =
     (case parse_outcome num input of
        Parsed v rest \<Rightarrow> if whitespace rest = [] then Some v else None
      | _ \<Rightarrow> None)"


subsection \<open>Every part consumes input\<close>

lemma whitespace_length: "length (whitespace s) \<le> length s"
  by (simp add: whitespace_def length_dropWhile_le)

lemma consume_Some [simp]: "consume b s = Some r \<longleftrightarrow> s = b # r"
  by (cases s) auto

lemma consume_rest: "consume b (whitespace s) = Some r \<Longrightarrow> length r < length s"
  using whitespace_length [of s] by simp

lemma raw_span_rest: "raw_span s = Some (raw, rest) \<Longrightarrow> length rest < length s"
proof (induction s arbitrary: raw rest rule: raw_span.induct)
  case 1
  then show ?case by simp
next
  case (2 c cs)
  then show ?case by (fastforce split: if_splits list.splits)
qed

lemma string_value_rest: "string_value s = Some (v, rest) \<Longrightarrow> Suc (length rest) < length s"
  by (auto simp: string_value_def split: option.splits dest!: raw_span_rest)

lemma literal_rest: "literal (x # xs) v s = Some (w, rest) \<Longrightarrow> length rest < length s"
  by (auto simp: literal_def split: option.splits)

lemma number_value_rest:
  "number_value num (c # cs) = Some (v, rest) \<Longrightarrow> c = CHR ''-'' \<or> is_digit c \<Longrightarrow>
   length rest < Suc (length cs)"
  by (auto simp: number_value_def is_number_char_def less_Suc_eq_le length_dropWhile_le
      split: option.splits)

lemma of_option_Parsed [simp]: "of_option x = Parsed v rest \<longleftrightarrow> x = Some (v, rest)"
  by (cases x rule: of_option.cases) auto

lemma of_option_not_Starved [simp]: "of_option x \<noteq> Starved"
  by (cases x rule: of_option.cases) auto

text \<open>Reading one value, an object or an array leaves a strictly shorter input.\<close>

lemma parsed_shorter:
  "value_at num fuel depth inp = Parsed v rest \<Longrightarrow> length rest < length inp"
  "object_loop num fuel depth entries inp = Parsed v rest \<Longrightarrow> length rest < length inp"
  "array_loop num fuel depth items inp = Parsed v rest \<Longrightarrow> length rest < length inp"
proof (induction num fuel depth inp and num fuel depth entries inp and num fuel depth items inp
    arbitrary: v rest and v rest and v rest
    rule: value_at_object_loop_array_loop.induct)
  case (2 num fuel depth inp)
  then obtain c cs where ws: "whitespace inp = c # cs" and d: "\<not> max_depth < depth"
    by (auto split: if_splits list.splits)
  have inp: "Suc (length cs) \<le> length inp" using whitespace_length [of inp] ws by simp
  have cs: "length (whitespace cs) \<le> length cs" by (rule whitespace_length)
  consider "c = CHR ''{''" | "c = CHR ''[''" | "c = DQUOTE" | "c \<noteq> CHR ''{''" "c \<noteq> CHR ''[''" "c \<noteq> DQUOTE"
    by blast
  then show ?case
  proof cases
    case 1
    show ?thesis
    proof (cases "consume (CHR ''}'') (whitespace cs)")
      case None
      from "2.prems" ws d 1 None have "object_loop num fuel depth [] (whitespace cs) = Parsed v rest"
        by simp
      with "2.IH"(1) [OF d ws 1 None] have "length rest < length (whitespace cs)" by blast
      with inp cs show ?thesis by simp
    next
      case (Some r)
      with "2.prems" ws d 1 consume_rest [OF Some] inp show ?thesis by simp
    qed
  next
    case 2
    then have c: "\<not> c = CHR ''{''" by simp
    show ?thesis
    proof (cases "consume (CHR '']'') (whitespace cs)")
      case None
      from "2.prems" ws d 2 None have "array_loop num fuel depth [] (whitespace cs) = Parsed v rest"
        by simp
      with "2.IH"(2) [OF d ws c 2 None] have "length rest < length (whitespace cs)" by blast
      with inp cs show ?thesis by simp
    next
      case (Some r)
      with "2.prems" ws d 2 consume_rest [OF Some] inp show ?thesis by simp
    qed
  next
    case 3
    with "2.prems" ws d inp show ?thesis
      by (auto simp: text_simps dest!: string_value_rest split: if_splits)
  next
    case 4
    with "2.prems" ws d have "(\<exists>x xs u. literal (x # xs) u (c # cs) = Some (v, rest)) \<or>
        number_value num (c # cs) = Some (v, rest) \<and> (c = CHR ''-'' \<or> is_digit c)"
      by (simp split: if_splits) blast+
    with inp show ?thesis by (auto dest: literal_rest number_value_rest)
  qed
next
  case (4 num fuel depth entries inp)
  from "4.prems" obtain key r0 r1 w r2 where
    a: "string_value inp = Some (key, r0)" "consume (CHR '':'') (whitespace r0) = Some r1"
      "key \<notin> fst ` set entries" "value_at num fuel (depth + 1) r1 = Parsed w r2"
    and b: "(case consume (CHR ''}'') (whitespace r2) of
        Some r3 \<Rightarrow> Parsed (JObject (entries @ [(key, w)])) r3
      | None \<Rightarrow> (case consume (CHR '','') (whitespace r2) of None \<Rightarrow> Refused
          | Some r3 \<Rightarrow> object_loop num fuel depth (entries @ [(key, w)]) (whitespace r3))) = Parsed v rest"
    by (auto simp del: consume_Some split: option.splits outcome.splits if_splits)
  from a "4.IH"(1) have "length r2 < length r1" by (auto simp del: consume_Some)
  moreover have "length r1 < length inp"
    using consume_rest [OF a(2)] string_value_rest [OF a(1)] by simp
  moreover have "length rest \<le> length r2"
  proof (cases "consume (CHR ''}'') (whitespace r2)")
    case (Some r3)
    with b consume_rest [OF Some] show ?thesis by simp
  next
    case None
    with b obtain r3 where c: "consume (CHR '','') (whitespace r2) = Some r3"
      "object_loop num fuel depth (entries @ [(key, w)]) (whitespace r3) = Parsed v rest"
      by (auto simp del: consume_Some split: option.splits)
    from "4.IH"(2) a None c have "length rest < length (whitespace r3)"
      by (auto simp del: consume_Some)
    with consume_rest [OF c(1)] whitespace_length [of r3] show ?thesis by simp
  qed
  ultimately show ?case by simp
next
  case (6 num fuel depth items inp)
  from "6.prems" obtain w r1 where a: "value_at num fuel (depth + 1) inp = Parsed w r1"
    and b: "(case consume (CHR '']'') (whitespace r1) of
        Some r2 \<Rightarrow> Parsed (JArray (items @ [w])) r2
      | None \<Rightarrow> (case consume (CHR '','') (whitespace r1) of None \<Rightarrow> Refused
          | Some r2 \<Rightarrow> array_loop num fuel depth (items @ [w]) r2)) = Parsed v rest"
    by (auto simp del: consume_Some split: option.splits outcome.splits)
  from a "6.IH"(1) have "length r1 < length inp" by simp
  moreover have "length rest \<le> length r1"
  proof (cases "consume (CHR '']'') (whitespace r1)")
    case (Some r2)
    with b consume_rest [OF Some] show ?thesis by simp
  next
    case None
    with b obtain r2 where c: "consume (CHR '','') (whitespace r1) = Some r2"
      "array_loop num fuel depth (items @ [w]) r2 = Parsed v rest"
      by (auto simp del: consume_Some split: option.splits)
    from "6.IH"(2) a None c have "length rest < length r2"
      by (auto simp del: consume_Some)
    with consume_rest [OF c(1)] show ?thesis by simp
  qed
  ultimately show ?case by simp
qed auto

text \<open>Fuel proportional to the input is never exhausted.\<close>

lemma fuel_enough:
  "2 * length inp < fuel \<Longrightarrow> value_at num fuel depth inp \<noteq> Starved"
  "2 * length inp + 1 < fuel \<Longrightarrow> object_loop num fuel depth entries inp \<noteq> Starved"
  "2 * length inp + 1 < fuel \<Longrightarrow> array_loop num fuel depth items inp \<noteq> Starved"
proof (induction num fuel depth inp and num fuel depth entries inp and num fuel depth items inp
    rule: value_at_object_loop_array_loop.induct)
  case (2 num fuel depth inp)
  show ?case
  proof (cases "whitespace inp")
    case Nil
    then show ?thesis by simp
  next
    case (Cons c cs)
    have "Suc (length (whitespace cs)) \<le> length inp"
      using whitespace_length [of inp] whitespace_length [of cs] Cons by simp
    with "2.prems" have "2 * length (whitespace cs) + 1 < fuel" by simp
    with "2.IH" Cons show ?thesis
      by (simp del: consume_Some of_option.simps split: option.split)
  qed
next
  case (4 num fuel depth entries inp)
  show ?case
  proof (cases "string_value inp")
    case None
    then show ?thesis by simp
  next
    case (Some kr)
    obtain key r0 where kr: "kr = (key, r0)" by (cases kr)
    note sv = Some [unfolded kr]
    show ?thesis
    proof (cases "consume (CHR '':'') (whitespace r0) = None \<or> key \<in> fst ` set entries")
      case True
      then show ?thesis using sv by (auto simp del: consume_Some split: option.splits)
    next
      case False
      then obtain r1 where c: "consume (CHR '':'') (whitespace r0) = Some r1" by auto
      have r1: "Suc (length r1) < length inp"
        using consume_rest [OF c] string_value_rest [OF sv] by simp
      with "4.prems" have "2 * length r1 < fuel" by simp
      with "4.IH"(1) sv c False have v: "value_at num fuel (depth + 1) r1 \<noteq> Starved"
        by (auto simp del: consume_Some)
      show ?thesis
      proof (cases "value_at num fuel (depth + 1) r1")
        case (Parsed w r2)
        have "2 * length (whitespace r3) + 1 < fuel"
          if "consume (CHR '','') (whitespace r2) = Some r3" for r3
          using consume_rest [OF that] whitespace_length [of r3] parsed_shorter(1) [OF Parsed] r1
            "4.prems" by simp
        with "4.IH"(2) sv c False Parsed show ?thesis
          by (auto simp del: consume_Some split: option.split)
      qed (use v sv c False in \<open>auto simp del: consume_Some\<close>)
    qed
  qed
next
  case (6 num fuel depth items inp)
  then have v: "value_at num fuel (depth + 1) inp \<noteq> Starved" by simp
  show ?case
  proof (cases "value_at num fuel (depth + 1) inp")
    case (Parsed w r1)
    have "2 * length r2 + 1 < fuel" if "consume (CHR '','') (whitespace r1) = Some r2" for r2
      using consume_rest [OF that] parsed_shorter(1) [OF Parsed] "6.prems" by simp
    with "6.IH"(2) Parsed show ?thesis
      by (auto simp del: consume_Some split: option.split)
  qed (use v in auto)
qed auto

subsection \<open>What a parsed value satisfies\<close>

text \<open>Valid UTF-8 everywhere, and no object names a member twice.\<close>

fun wf_json :: "json \<Rightarrow> bool" where
  "wf_json (JString s) \<longleftrightarrow> valid_utf8 s"
| "wf_json (JArray xs) \<longleftrightarrow> (\<forall>x \<in> set xs. wf_json x)"
| "wf_json (JObject m) \<longleftrightarrow>
     distinct (map fst m) \<and> (\<forall>(k, v) \<in> set m. valid_utf8 k \<and> wf_json v)"
| "wf_json _ \<longleftrightarrow> True"

text \<open>How deeply the value nests: an element sits one level below its container.\<close>

fun json_depth :: "json \<Rightarrow> nat" where
  "json_depth (JArray xs) = foldr (\<lambda>x n. max (Suc (json_depth x)) n) xs 0"
| "json_depth (JObject m) = foldr (\<lambda>(k, v) n. max (Suc (json_depth v)) n) m 0"
| "json_depth _ = 0"

lemma foldr_max_le:
  "foldr (\<lambda>x n. max (f x) n) xs 0 \<le> (b::nat) \<longleftrightarrow> (\<forall>x \<in> set xs. f x \<le> b)"
  by (induction xs) auto

lemma json_depth_array:
  "json_depth (JArray xs) \<le> b \<longleftrightarrow> (\<forall>x \<in> set xs. Suc (json_depth x) \<le> b)"
  using foldr_max_le [of "\<lambda>x. Suc (json_depth x)" xs b] by simp

lemma json_depth_object:
  "json_depth (JObject m) \<le> b \<longleftrightarrow> (\<forall>(k, v) \<in> set m. Suc (json_depth v) \<le> b)"
  using foldr_max_le [of "\<lambda>(k, v). Suc (json_depth v)" m b] by (simp add: case_prod_unfold)

declare json_depth.simps(1,2) [simp del]

lemma string_value_valid: "string_value s = Some (v, rest) \<Longrightarrow> valid_utf8 v"
  by (auto simp: string_value_def split: option.splits)

text \<open>
  A value read at some depth is well formed and stays within the limit; an object or array being
  read keeps that of what it holds already.
\<close>

definition fits :: "nat \<Rightarrow> json \<Rightarrow> bool" where
  "fits depth v \<longleftrightarrow> wf_json v \<and> depth + json_depth v \<le> max_depth"

lemma fits_scalar:
  "depth \<le> max_depth \<Longrightarrow> fits depth JNull" "depth \<le> max_depth \<Longrightarrow> fits depth (JBool b)"
  "depth \<le> max_depth \<Longrightarrow> fits depth (JNumber n)"
  "depth \<le> max_depth \<Longrightarrow> valid_utf8 s \<Longrightarrow> fits depth (JString s)"
  by (simp_all add: fits_def)

lemma fits_array:
  "depth \<le> max_depth \<Longrightarrow> (\<forall>x \<in> set xs. fits (depth + 1) x) \<Longrightarrow> fits depth (JArray xs)"
  using json_depth_array [of xs "max_depth - depth"] by (auto simp: fits_def)

lemma fits_object:
  "depth \<le> max_depth \<Longrightarrow> distinct (map fst m) \<Longrightarrow>
   (\<forall>(k, v) \<in> set m. valid_utf8 k \<and> fits (depth + 1) v) \<Longrightarrow> fits depth (JObject m)"
  using json_depth_object [of m "max_depth - depth"] by (fastforce simp: fits_def)

lemma parsed_fits:
  "value_at num fuel depth inp = Parsed v rest \<Longrightarrow> fits depth v"
  "object_loop num fuel depth entries inp = Parsed v rest \<Longrightarrow> depth \<le> max_depth \<Longrightarrow>
   distinct (map fst entries) \<Longrightarrow> (\<forall>(k, w) \<in> set entries. valid_utf8 k \<and> fits (depth + 1) w) \<Longrightarrow>
   fits depth v"
  "array_loop num fuel depth items inp = Parsed v rest \<Longrightarrow> depth \<le> max_depth \<Longrightarrow>
   (\<forall>w \<in> set items. fits (depth + 1) w) \<Longrightarrow> fits depth v"
proof (induction num fuel depth inp and num fuel depth entries inp and num fuel depth items inp
    arbitrary: v rest and v rest and v rest
    rule: value_at_object_loop_array_loop.induct)
  case (2 num fuel depth inp)
  then obtain c cs where ws: "whitespace inp = c # cs" and d: "\<not> max_depth < depth"
    by (auto split: if_splits list.splits)
  then have le: "depth \<le> max_depth" by simp
  consider "c = CHR ''{''" | "c = CHR ''[''" | "c = DQUOTE" "c \<noteq> CHR ''{''" "c \<noteq> CHR ''[''"
    | "c \<noteq> CHR ''{''" "c \<noteq> CHR ''[''" "c \<noteq> DQUOTE" by blast
  then show ?case
  proof cases
    case 1
    show ?thesis
    proof (cases "consume (CHR ''}'') (whitespace cs)")
      case None
      from "2.prems" ws d 1 None have "object_loop num fuel depth [] (whitespace cs) = Parsed v rest"
        by simp
      with "2.IH"(1) [OF d ws 1 None] le show ?thesis by simp
    next
      case (Some r)
      from "2.prems" ws d 1 Some have "v = JObject []" by simp
      with le show ?thesis by (simp add: fits_object)
    qed
  next
    case 2
    then have c: "\<not> c = CHR ''{''" by simp
    show ?thesis
    proof (cases "consume (CHR '']'') (whitespace cs)")
      case None
      from "2.prems" ws d 2 None have "array_loop num fuel depth [] (whitespace cs) = Parsed v rest"
        by simp
      with "2.IH"(2) [OF d ws c 2 None] le show ?thesis by simp
    next
      case (Some r)
      from "2.prems" ws d 2 Some have "v = JArray []" by simp
      with le show ?thesis by (simp add: fits_array)
    qed
  next
    case 3
    with "2.prems" ws d obtain s where "v = JString s" "string_value (c # cs) = Some (s, rest)"
      by auto
    with le show ?thesis by (auto dest: string_value_valid intro: fits_scalar)
  next
    case 4
    with "2.prems" ws d have "(\<exists>l u. literal l u (c # cs) = Some (v, rest) \<and>
        u \<in> {JBool True, JBool False, JNull}) \<or> number_value num (c # cs) = Some (v, rest)"
      by (simp split: if_splits) blast+
    with le show ?thesis
      by (auto simp: literal_def number_value_def intro: fits_scalar split: option.splits)
  qed
next
  case (4 num fuel depth entries inp)
  from "4.prems"(1) obtain key r0 r1 w r2 where
    a: "string_value inp = Some (key, r0)" "consume (CHR '':'') (whitespace r0) = Some r1"
      "key \<notin> fst ` set entries" "value_at num fuel (depth + 1) r1 = Parsed w r2"
    and b: "(case consume (CHR ''}'') (whitespace r2) of
        Some r3 \<Rightarrow> Parsed (JObject (entries @ [(key, w)])) r3
      | None \<Rightarrow> (case consume (CHR '','') (whitespace r2) of None \<Rightarrow> Refused
          | Some r3 \<Rightarrow> object_loop num fuel depth (entries @ [(key, w)]) (whitespace r3))) = Parsed v rest"
    by (auto simp del: consume_Some split: option.splits outcome.splits if_splits)
  from a "4.IH"(1) have "fits (depth + 1) w" by (auto simp del: consume_Some)
  with a "4.prems" string_value_valid [OF a(1)]
  have inv: "distinct (map fst (entries @ [(key, w)]))"
    "\<forall>(k, u) \<in> set (entries @ [(key, w)]). valid_utf8 k \<and> fits (depth + 1) u" by auto
  show ?case
  proof (cases "consume (CHR ''}'') (whitespace r2)")
    case (Some r3)
    with b have "v = JObject (entries @ [(key, w)])" by simp
    with fits_object [OF "4.prems"(2) inv] show ?thesis by simp
  next
    case None
    with b obtain r3 where c: "consume (CHR '','') (whitespace r2) = Some r3"
      "object_loop num fuel depth (entries @ [(key, w)]) (whitespace r3) = Parsed v rest"
      by (auto simp del: consume_Some split: option.splits)
    from "4.IH"(2) a None c inv "4.prems"(2) show ?thesis by (auto simp del: consume_Some)
  qed
next
  case (6 num fuel depth items inp)
  from "6.prems"(1) obtain w r1 where a: "value_at num fuel (depth + 1) inp = Parsed w r1"
    and b: "(case consume (CHR '']'') (whitespace r1) of
        Some r2 \<Rightarrow> Parsed (JArray (items @ [w])) r2
      | None \<Rightarrow> (case consume (CHR '','') (whitespace r1) of None \<Rightarrow> Refused
          | Some r2 \<Rightarrow> array_loop num fuel depth (items @ [w]) r2)) = Parsed v rest"
    by (auto simp del: consume_Some split: option.splits outcome.splits)
  from a "6.IH"(1) "6.prems"(3) have inv: "\<forall>u \<in> set (items @ [w]). fits (depth + 1) u" by auto
  show ?case
  proof (cases "consume (CHR '']'') (whitespace r1)")
    case (Some r2)
    with b have "v = JArray (items @ [w])" by simp
    with fits_array [OF "6.prems"(2) inv] show ?thesis by simp
  next
    case None
    with b obtain r2 where c: "consume (CHR '','') (whitespace r1) = Some r2"
      "array_loop num fuel depth (items @ [w]) r2 = Parsed v rest"
      by (auto simp del: consume_Some split: option.splits)
    from "6.IH"(2) a None c inv "6.prems"(2) show ?thesis by (auto simp del: consume_Some)
  qed
qed auto

subsection \<open>Printing a value and reading it back\<close>

text \<open>
  A compact printer, as a reference for what the parser accepts: quotes, backslashes and control
  characters are escaped, everything else is written as it is.
\<close>

definition hex_char :: "nat \<Rightarrow> char" where
  "hex_char d = (if d < 10 then char_of (0x30 + d) else char_of (0x61 + d - 10))"

definition escape_char :: "char \<Rightarrow> string" where
  "escape_char c =
     (if c = DQUOTE \<or> c = BACKSLASH then [BACKSLASH, c]
      else if code c < 0x20
        then [BACKSLASH, CHR ''u'', CHR ''0'', CHR ''0'', hex_char (code c div 16), hex_char (code c mod 16)]
      else [c])"

definition show_string :: "string \<Rightarrow> string" where
  "show_string s = DQUOTE # concat (map escape_char s) @ [DQUOTE]"

fun show_json :: "json \<Rightarrow> string" where
  "show_json JNull = ''null''"
| "show_json (JBool b) = (if b then ''true'' else ''false'')"
| "show_json (JNumber n) = number_text n"
| "show_json (JString s) = show_string s"
| "show_json (JArray xs) = ''['' @ join_with '','' (map show_json xs) @ '']''"
| "show_json (JObject m) =
     ''{'' @ join_with '','' (map (\<lambda>(k, v). show_string k @ '':'' @ show_json v) m) @ ''}''"

text \<open>Numbers the number parser reads back from their own text.\<close>

definition number_ok :: "(string \<Rightarrow> number option) \<Rightarrow> number \<Rightarrow> bool" where
  "number_ok num n \<longleftrightarrow>
     number_text n \<noteq> [] \<and> list_all is_number_char (number_text n) \<and>
     (hd (number_text n) = CHR ''-'' \<or> is_digit (hd (number_text n))) \<and>
     num (number_text n) = Some n"

fun numbers_ok :: "(string \<Rightarrow> number option) \<Rightarrow> json \<Rightarrow> bool" where
  "numbers_ok num (JNumber n) \<longleftrightarrow> number_ok num n"
| "numbers_ok num (JArray xs) \<longleftrightarrow> (\<forall>x \<in> set xs. numbers_ok num x)"
| "numbers_ok num (JObject m) \<longleftrightarrow> (\<forall>(k, v) \<in> set m. numbers_ok num v)"
| "numbers_ok num _ \<longleftrightarrow> True"

lemma hex_digit_char: "d < 16 \<Longrightarrow> hex_digit (hex_char d) = Some d"
  by (auto simp: hex_char_def hex_digit_def is_digit_def)

lemma hex_char_plain: "d < 16 \<Longrightarrow> hex_char d \<noteq> DQUOTE \<and> hex_char d \<noteq> BACKSLASH"
  by (auto simp: hex_char_def text_simps char_of_eq_iff)

lemma unicode_escape_control:
  assumes "code c < 0x20"
  shows "unicode_escape (CHR ''0'' # CHR ''0'' # hex_char (code c div 16) # hex_char (code c mod 16) # r)
    = Some ([c], r)"
proof -
  have "code c div 16 < 16" "code c mod 16 < 16" using assms by simp_all
  then have "hex4 (CHR ''0'' # CHR ''0'' # hex_char (code c div 16) # hex_char (code c mod 16) # r)
      = Some (code c, r)"
    by (simp add: hex4_def hex_digit_char) (simp add: hex_digit_def is_digit_def)
  then show ?thesis using assms by (simp add: unicode_escape_def is_scalar_def encode_utf8_def)
qed

lemma raw_span_escaped: "raw_span (concat (map escape_char s) @ DQUOTE # r) = Some (concat (map escape_char s), r)"
proof (induction s)
  case Nil
  then show ?case by simp
next
  case (Cons c s)
  then show ?case
    using hex_char_plain [of "code c div 16"] hex_char_plain [of "code c mod 16"]
    by (auto simp: escape_char_def) (auto simp: text_simps)
qed

lemma decode_escaped: "decode_raw (concat (map escape_char s)) = Some s"
proof (induction s)
  case Nil
  then show ?case by simp
next
  case (Cons c s)
  consider "c = DQUOTE \<or> c = BACKSLASH" | "c \<noteq> DQUOTE" "c \<noteq> BACKSLASH" "code c < 0x20"
    | "c \<noteq> DQUOTE" "c \<noteq> BACKSLASH" "\<not> code c < 0x20" by blast
  then show ?case
  proof cases
    case 1
    then show ?thesis using Cons by (auto simp: escape_char_def simple_escape_def text_simps)
  next
    case 2
    then show ?thesis using Cons
      by (simp add: escape_char_def unicode_escape_control) (simp add: text_simps)
  next
    case 3
    then show ?thesis using Cons by (simp add: escape_char_def)
  qed
qed

lemma string_value_show: "valid_utf8 s \<Longrightarrow> string_value (show_string s @ r) = Some (s, r)"
  by (simp add: string_value_def show_string_def raw_span_escaped decode_escaped from_utf8_def)

lemma whitespace_id: "\<not> is_json_ws c \<Longrightarrow> whitespace (c # cs) = c # cs"
  by (simp add: whitespace_def)

lemma punctuation_not_ws [simp]:
  "\<not> is_json_ws (CHR ''{'')" "\<not> is_json_ws (CHR ''}'')" "\<not> is_json_ws (CHR ''['')"
  "\<not> is_json_ws (CHR '']'')" "\<not> is_json_ws (CHR '','')" "\<not> is_json_ws (CHR '':'')"
  "\<not> is_json_ws DQUOTE" "\<not> is_json_ws (CHR ''t'')" "\<not> is_json_ws (CHR ''f'')"
  "\<not> is_json_ws (CHR ''n'')" "\<not> is_json_ws (CHR ''-'')"
  by (simp_all add: is_json_ws_def text_simps)

lemma digit_not_ws: "is_digit c \<Longrightarrow> \<not> is_json_ws c"
  by (auto simp: is_json_ws_def is_digit_def text_simps)

text \<open>What follows a printed value inside a document: a delimiter, or the end.\<close>

definition delimited :: "string \<Rightarrow> bool" where
  "delimited rest \<longleftrightarrow> rest = [] \<or> \<not> is_number_char (hd rest)"

lemma delimited_simps [simp]:
  "delimited []" "delimited (CHR '','' # r)" "delimited (CHR '']'' # r)" "delimited (CHR ''}'' # r)"
  by (simp_all add: delimited_def is_number_char_def is_digit_def)

text \<open>A printed value starts with a byte that is neither white space nor a closing bracket.\<close>

lemma show_json_head:
  assumes "numbers_ok num v"
  obtains c cs where "show_json v = c # cs" "\<not> is_json_ws c" "c \<noteq> CHR '']''"
proof (cases v)
  case (JNumber n)
  with assms obtain c cs where "number_text n = c # cs" "c = CHR ''-'' \<or> is_digit c"
    by (auto simp: number_ok_def neq_Nil_conv)
  with JNumber that show thesis by (force simp: digit_not_ws is_digit_def)
next
  case (JBool b)
  with that show thesis by (cases b) simp_all
next
  case (JString s)
  with that [of DQUOTE] show thesis by (simp add: show_string_def) (simp add: text_simps)
qed (use that in simp_all)

lemma number_value_show:
  assumes "number_ok num n" "delimited rest"
  shows "number_value num (number_text n @ rest) = Some (JNumber n, rest)"
proof -
  have "takeWhile is_number_char rest = []" "dropWhile is_number_char rest = rest"
    using assms(2) by (cases rest; simp add: delimited_def)+
  with assms(1) show ?thesis
    by (simp add: number_value_def number_ok_def list_all_iff)
qed


lemma array_loop_show:
  assumes "xs \<noteq> []"
    and "\<And>x f r. x \<in> set xs \<Longrightarrow> delimited r \<Longrightarrow> 2 * length (show_json x @ r) < f \<Longrightarrow>
      value_at num f (depth + 1) (show_json x @ r) = Parsed x r"
    and "2 * length (join_with '','' (map show_json xs) @ '']'' @ rest) + 1 < fuel"
  shows "array_loop num fuel depth items (join_with '','' (map show_json xs) @ '']'' @ rest)
    = Parsed (JArray (items @ xs)) rest"
  using assms
proof (induction xs arbitrary: items fuel)
  case Nil
  then show ?case by simp
next
  case (Cons x xs)
  then obtain f where f: "fuel = Suc f" by (cases fuel) auto
  show ?case
  proof (cases xs)
    case Nil
    have "value_at num f (depth + 1) (show_json x @ CHR '']'' # rest) = Parsed x (CHR '']'' # rest)"
      using Cons.prems(3) Nil f by (intro Cons.prems(2)) simp_all
    with f Nil show ?thesis by (simp add: whitespace_id)
  next
    case (Cons y ys)
    let ?r = "join_with '','' (map show_json xs) @ CHR '']'' # rest"
    have inp: "join_with '','' (map show_json (x # xs)) @ '']'' @ rest = show_json x @ CHR '','' # ?r"
      using Cons by simp
    have v: "value_at num f (depth + 1) (show_json x @ CHR '','' # ?r) = Parsed x (CHR '','' # ?r)"
      using Cons.prems(3) f unfolding inp by (intro Cons.prems(2)) simp_all
    have "array_loop num f depth (items @ [x]) (join_with '','' (map show_json xs) @ '']'' @ rest)
        = Parsed (JArray ((items @ [x]) @ xs)) rest"
    proof (rule Cons.IH)
      show "xs \<noteq> []" using Cons by simp
      show "2 * length (join_with '','' (map show_json xs) @ '']'' @ rest) + 1 < f"
        using Cons.prems(3) f unfolding inp by simp
    qed (use Cons.prems(2) in auto)
    with f v show ?thesis unfolding inp by (simp add: whitespace_id)
  qed
qed

lemma object_loop_show:
  assumes "m \<noteq> []"
    and "\<And>k x f r. (k, x) \<in> set m \<Longrightarrow> delimited r \<Longrightarrow> 2 * length (show_json x @ r) < f \<Longrightarrow>
      value_at num f (depth + 1) (show_json x @ r) = Parsed x r"
    and "\<forall>p \<in> set m. valid_utf8 (fst p)"
    and "distinct (map fst (entries @ m))"
    and "2 * length (join_with '','' (map (\<lambda>(k, v). show_string k @ '':'' @ show_json v) m) @ ''}'' @ rest)
      + 1 < fuel"
  shows "object_loop num fuel depth entries
      (join_with '','' (map (\<lambda>(k, v). show_string k @ '':'' @ show_json v) m) @ ''}'' @ rest)
    = Parsed (JObject (entries @ m)) rest"
  using assms
proof (induction m arbitrary: entries fuel)
  case Nil
  then show ?case by simp
next
  case (Cons kx m)
  obtain k x where kx: "kx = (k, x)" by (cases kx)
  from Cons.prems(5) obtain f where f: "fuel = Suc f" by (cases fuel) auto
  have k: "valid_utf8 k" using Cons.prems(3) kx by simp
  have fresh: "k \<notin> fst ` set entries" using Cons.prems(4) kx by auto
  show ?case
  proof (cases m)
    case Nil
    have "value_at num f (depth + 1) (show_json x @ CHR ''}'' # rest) = Parsed x (CHR ''}'' # rest)"
      using Cons.prems(5) Nil f kx by (intro Cons.prems(2) [of k]) simp_all
    with f Nil kx k fresh show ?thesis
      by (simp add: whitespace_id string_value_show)
  next
    case (Cons y ys)
    let ?show = "map (\<lambda>(k, v). show_string k @ '':'' @ show_json v)"
    let ?r = "join_with '','' (?show m) @ CHR ''}'' # rest"
    have inp: "join_with '','' (?show (kx # m)) @ ''}'' @ rest
        = show_string k @ CHR '':'' # show_json x @ CHR '','' # ?r"
      using Cons kx by (cases y) simp
    have v: "value_at num f (depth + 1) (show_json x @ CHR '','' # ?r) = Parsed x (CHR '','' # ?r)"
      using Cons.prems(5) f kx unfolding inp by (intro Cons.prems(2) [of k]) simp_all
    have ws: "whitespace ?r = ?r"
      using Cons by (cases y; cases ys) (simp_all add: show_string_def whitespace_id)
    have "object_loop num f depth (entries @ [(k, x)]) (join_with '','' (?show m) @ ''}'' @ rest)
        = Parsed (JObject ((entries @ [(k, x)]) @ m)) rest"
    proof (rule Cons.IH)
      show "m \<noteq> []" using Cons by simp
      show "distinct (map fst ((entries @ [(k, x)]) @ m))" using Cons.prems(4) kx by simp
      show "2 * length (join_with '','' (?show m) @ ''}'' @ rest) + 1 < f"
        using Cons.prems(5) f unfolding inp by simp
    qed (use Cons.prems(2,3) in auto)
    with f v ws k fresh kx show ?thesis
      unfolding inp by (simp add: whitespace_id string_value_show)
  qed
qed

lemma value_at_show:
  assumes "wf_json v" "numbers_ok num v" "depth + json_depth v \<le> max_depth" "delimited rest"
    "2 * length (show_json v @ rest) < fuel"
  shows "value_at num fuel depth (show_json v @ rest) = Parsed v rest"
  using assms
proof (induction v arbitrary: fuel depth rest)
  case (JNumber n)
  then obtain c cs where t: "number_text n = c # cs" "c = CHR ''-'' \<or> is_digit c"
    by (auto simp: number_ok_def neq_Nil_conv)
  from t(2) have c: "\<not> is_json_ws c" "c \<noteq> CHR ''{''" "c \<noteq> CHR ''[''" "c \<noteq> DQUOTE" "c \<noteq> CHR ''t''"
    "c \<noteq> CHR ''f''" "c \<noteq> CHR ''n''"
    by (auto simp: digit_not_ws is_digit_def text_simps)
  have "number_value num (c # cs @ rest) = Some (JNumber n, rest)"
    using number_value_show [of num n rest] JNumber.prems t(1) by simp
  with JNumber.prems t c show ?case
    by (cases fuel) (auto simp: whitespace_id)
next
  case (JString s)
  from JString.prems have "string_value (show_string s @ rest) = Some (s, rest)"
    by (simp add: string_value_show)
  then show ?case
    using JString.prems
    by (cases fuel) (auto simp: show_string_def whitespace_id, simp_all add: text_simps)
next
  case (JArray xs)
  have le: "depth \<le> max_depth" using JArray.prems by simp
  have sub: "\<forall>x \<in> set xs. depth + 1 + json_depth x \<le> max_depth"
    using JArray.prems(3) json_depth_array [of xs "max_depth - depth"] by auto
  obtain f where f: "fuel = Suc f" using JArray.prems by (cases fuel) auto
  show ?case
  proof (cases xs)
    case Nil
    then show ?thesis using f le by (simp add: whitespace_id)
  next
    case (Cons y ys)
    let ?in = "join_with '','' (map show_json xs) @ '']'' @ rest"
    have loop: "array_loop num f depth [] ?in = Parsed (JArray ([] @ xs)) rest"
    proof (rule array_loop_show)
      fix x g r
      assume "x \<in> set xs" "delimited r" "2 * length (show_json x @ r) < g"
      with JArray sub show "value_at num g (depth + 1) (show_json x @ r) = Parsed x r" by auto
    qed (use JArray.prems f Cons in auto)
    obtain c cs where h: "show_json y = c # cs" "\<not> is_json_ws c" "c \<noteq> CHR '']''"
      using show_json_head [of num y] JArray.prems(2) Cons by auto
    obtain tl where "?in = c # tl" using h Cons by (cases ys) auto
    with loop h le f show ?thesis by (auto simp: whitespace_id)
  qed
next
  case (JObject m)
  have le: "depth \<le> max_depth" using JObject.prems by simp
  have sub: "\<forall>(k, x) \<in> set m. depth + 1 + json_depth x \<le> max_depth"
    using JObject.prems(3) json_depth_object [of m "max_depth - depth"] by auto
  obtain f where f: "fuel = Suc f" using JObject.prems by (cases fuel) auto
  show ?case
  proof (cases m)
    case Nil
    then show ?thesis using f le by (simp add: whitespace_id)
  next
    case (Cons y ys)
    let ?in = "join_with '','' (map (\<lambda>(k, v). show_string k @ '':'' @ show_json v) m) @ ''}'' @ rest"
    have loop: "object_loop num f depth [] ?in = Parsed (JObject ([] @ m)) rest"
    proof (rule object_loop_show)
      fix k x g r
      assume "(k, x) \<in> set m" "delimited r" "2 * length (show_json x @ r) < g"
      with JObject sub show "value_at num g (depth + 1) (show_json x @ r) = Parsed x r" by fastforce
    qed (use JObject.prems f Cons in auto)
    obtain tl where "?in = DQUOTE # tl"
      using Cons by (cases y; cases ys) (simp_all add: show_string_def)
    moreover have "DQUOTE \<noteq> CHR ''}''" by (simp add: text_simps)
    ultimately show ?thesis using loop le f by (auto simp: whitespace_id)
  qed
next
  case JNull
  have "literal ''null'' JNull (''null'' @ rest) = Some (JNull, rest)" by (simp add: literal_def strip_prefix_def starts_with_def)
  with JNull.prems show ?case by (cases fuel) (auto simp: whitespace_id text_simps)
next
  case (JBool b)
  have "literal ''true'' (JBool True) (''true'' @ rest) = Some (JBool True, rest)"
    "literal ''false'' (JBool False) (''false'' @ rest) = Some (JBool False, rest)"
    by (simp_all add: literal_def strip_prefix_def starts_with_def)
  with JBool.prems show ?case by (cases fuel; cases b) (auto simp: whitespace_id text_simps)
qed

subsection \<open>Properties\<close>

text \<open>
  Totality of the parser: reading any input ends with an answer. The fuel of \<open>parse_outcome\<close>
  stands for the number of calls of \<open>value\<close>, \<open>object\<close> and \<open>array\<close>; it is never used up, so the
  \<open>None\<close> of \<open>parse\<close> is always a refusal of the input.
\<close>

theorem parse_never_starves: "parse_outcome num input \<noteq> Starved"
  unfolding parse_outcome_def by (rule fuel_enough) simp

lemma parse_show:
  assumes "wf_json v" "json_depth v \<le> max_depth" "numbers_ok num v"
  shows "parse num (show_json v) = Some v"
proof -
  have "value_at num (2 * length (show_json v) + 1) 0 (show_json v @ []) = Parsed v []"
    by (rule value_at_show) (use assms in simp_all)
  then show ?thesis by (simp add: parse_def parse_outcome_def whitespace_def)
qed

text \<open>
  C28. Round trip: a well-formed value (valid UTF-8, no repeated member name) that nests no deeper
  than the limit, printed compactly, is parsed back to itself, escapes and all. Numbers are those
  the number parser of \<open>serde_json\<close> reads back from their own text.
\<close>

theorem parse_show_json:
  assumes "wf_json v" "json_depth v \<le> max_depth" "numbers_ok num v"
  shows "parse num (show_json v) = Some v"
  by (rule parse_show [OF assms])

definition small_number :: "string \<Rightarrow> number option" where
  "small_number s = map_option (\<lambda>n. \<lparr>as_u64 = Some n, number_text = s\<rparr>) (parse_u64 s)"

theorem parse_show_json_witness:
  "parse small_number (show_json (JObject [(''sub'', JString (''A'' @ [DQUOTE, NL])),
      (''aud'', JArray [JString ''c'', JNull, JNumber \<lparr>as_u64 = Some 7, number_text = ''7''\<rparr>])])) =
   Some (JObject [(''sub'', JString (''A'' @ [DQUOTE, NL])),
      (''aud'', JArray [JString ''c'', JNull, JNumber \<lparr>as_u64 = Some 7, number_text = ''7''\<rparr>])])"
  by (rule parse_show_json)
    (auto simp: json_depth.simps max_depth_def number_ok_def small_number_def parse_u64_def
      strip_prefix_def starts_with_def is_digit_def digits_value_def is_number_char_def
      intro!: valid_utf8_ascii simp: text_simps)

text \<open>
  C39. What every accepted document satisfies: all its text is valid UTF-8, no object at any level
  has two members of one name (so a token cannot carry a claim twice), and it nests at most 128
  levels deep.
\<close>

theorem parse_wf:
  assumes "parse num input = Some v"
  shows "wf_json v \<and> json_depth v \<le> max_depth"
proof -
  from assms obtain rest where "value_at num (2 * length input + 1) 0 input = Parsed v rest"
    by (auto simp: parse_def parse_outcome_def split: outcome.splits if_splits)
  then show ?thesis using parsed_fits(1) by (fastforce simp: fits_def)
qed

theorem parse_wf_witness:
  "wf_json (JArray [JBool True, JNull]) \<and> json_depth (JArray [JBool True, JNull]) \<le> max_depth"
proof (rule parse_wf)
  show "parse (\<lambda>_. None) '' [true , null]'' = Some (JArray [JBool True, JNull])"
    by code_simp
qed

text \<open>
  Wiping: after \<open>clear_claims\<close> the value holds no text of the claims any more, and neither
  does anything freed on the way, the member names and items taken out of objects.
\<close>

lemma texts_cleared: "t \<in> set (texts (clear_claims v)) \<Longrightarrow> t = []"
  by (induction v) auto

lemma texts_freed: "w \<in> set (freed_by_clear v) \<Longrightarrow> t \<in> set (texts w) \<Longrightarrow> t = []"
proof (induction v arbitrary: w)
  case (JArray xs)
  then show ?case by auto
next
  case (JObject m)
  then show ?case by (fastforce dest: texts_cleared)
qed auto

theorem clear_claims_wipes:
  "set (texts (clear_claims v)) \<union> (\<Union>w \<in> set (freed_by_clear v). set (texts w)) \<subseteq> {[]}"
  using texts_cleared texts_freed by fastforce

end
