(* ===== verification/Deps.thy ===== *)
theory Deps
  imports Errors Json
begin

text \<open>
  What the program gets from outside \<open>src/\<close>: the types its libraries hand over, and the record
  \<open>'w deps\<close> of the library and operating-system operations it calls. Every definition that needs
  one of them takes the record as an argument, so nothing here says what they compute; what the
  code relies on is stated as a hypothesis where a property needs it. \<open>'w\<close> is the outside world,
  threaded through the operations that may change it or observe it: the network, the clocks, the
  random number generator.

  A \<open>url::Url\<close> is the record of what its getters return; operations that make a new URL
  (\<open>parse\<close>, \<open>join\<close>, appending query pairs or path segments) are fields of \<open>deps\<close>.
\<close>

subsection \<open>URLs\<close>

text \<open>\<open>url::Origin\<close>: scheme, host and port, or opaque (a fresh one equals no other).\<close>

datatype origin = Tuple_Origin string string nat | Opaque_Origin nat

datatype url_host = Domain string | Ipv4 nat | Ipv6 nat

record url =
  url_scheme :: string
  url_username :: string
  url_password :: "string option"
  url_host :: "url_host option"
  url_host_str :: "string option"
  url_port :: "nat option"          \<comment> \<open>\<open>port_or_known_default\<close>\<close>
  url_path :: string
  url_query :: "string option"
  url_fragment :: "string option"
  url_pairs :: "(string \<times> string) list"   \<comment> \<open>\<open>query_pairs\<close>, decoded\<close>
  url_origin :: origin
  url_text :: string                \<comment> \<open>\<open>as_str\<close>\<close>

subsection \<open>HTTP requests and responses\<close>

text \<open>\<open>Method\<close>, \<open>Request\<close> and \<open>Response\<close> of \<open>src/transport.rs\<close>.\<close>

datatype http_method = Get | Post

record request =
  req_method :: http_method
  req_url :: url
  req_headers :: "string list"
  req_body :: string
  req_cookies :: "string list"

record response =
  resp_status :: nat
  resp_headers :: "(string \<times> string) list"
  resp_body :: string
  resp_cookies :: "string list"

subsection \<open>Documents the deserializers produce\<close>

text \<open>\<open>RawMetadata\<close> of \<open>src/token.rs\<close> and \<open>GroupMember\<close> of \<open>src/admin.rs\<close>.\<close>

record raw_metadata =
  raw_issuer :: string
  raw_authorization_endpoint :: string
  raw_token_endpoint :: string
  raw_jwks_uri :: string
  raw_userinfo_endpoint :: string
  raw_revocation_endpoint :: string

record group_member =
  member_id :: string
  member_username :: string
  member_enabled :: bool

subsection \<open>HTML tokens\<close>

text \<open>The tokens of \<open>html5gum\<close> the scanner tells apart; names and values are bytes.\<close>

record start_tag =
  tag_name :: string
  self_closing :: bool
  attributes :: "(string \<times> string) list"

datatype html_token = StartTag start_tag | EndTag string | Text string | OtherToken

subsection \<open>The operations\<close>

record 'w deps =
  \<comment> \<open>\<open>url\<close>\<close>
  url_parse :: "string \<Rightarrow> url option"
  url_join :: "url \<Rightarrow> string \<Rightarrow> url option"
  url_append_pairs :: "url \<Rightarrow> (string \<times> string) list \<Rightarrow> url"
  url_push_segments :: "url \<Rightarrow> string list \<Rightarrow> url option"
  form_encode :: "(string \<times> string) list \<Rightarrow> string"
  origin_text :: "origin \<Rightarrow> string"
  \<comment> \<open>\<open>serde_json\<close>\<close>
  parse_number :: "string \<Rightarrow> number option"
  parse_value :: "string \<Rightarrow> json option"
  parse_metadata :: "string \<Rightarrow> raw_metadata option"
  parse_members :: "string \<Rightarrow> group_member list option"
  \<comment> \<open>\<open>base64\<close>, URL-safe without padding\<close>
  b64_encode :: "string \<Rightarrow> string"
  b64_decode :: "string \<Rightarrow> string option"
  \<comment> \<open>\<open>html5gum\<close>, with \<open>naively_switch_states\<close>\<close>
  tokenize :: "string \<Rightarrow> html_token list"
  \<comment> \<open>\<open>wolfssl_wolfcrypt\<close>\<close>
  wolf_init :: bool
  wolf_sha256 :: "string \<Rightarrow> string option"
  wolf_rng_new :: "'w \<Rightarrow> bool \<times> 'w"
  wolf_random :: "nat \<Rightarrow> 'w \<Rightarrow> string option \<times> 'w"
  rsa_key_ok :: "nat \<Rightarrow> string \<Rightarrow> string \<Rightarrow> bool"
  rsa_signature_ok :: "nat \<Rightarrow> string \<Rightarrow> bool"
  rsa_verify :: "nat \<Rightarrow> string \<Rightarrow> string \<Rightarrow> string \<Rightarrow> string \<Rightarrow> bool"
  p256_signature_ok :: "string \<Rightarrow> bool"
  p256_verify :: "string \<Rightarrow> string \<Rightarrow> string \<Rightarrow> bool"
  \<comment> \<open>the operating system: sending a request, \<open>Instant::now\<close> in nanoseconds, and
     \<open>SystemTime::now\<close> in seconds since the epoch (\<open>None\<close> before it)\<close>
  http_send :: "request \<Rightarrow> 'w \<Rightarrow> (error + response) \<times> 'w"
  instant_now :: "'w \<Rightarrow> nat \<times> 'w"
  system_now :: "'w \<Rightarrow> nat option \<times> 'w"

text \<open>An observation of the world as a computation that cannot fail.\<close>

definition observe :: "('w \<Rightarrow> 'a \<times> 'w) \<Rightarrow> ('w, 'a) act" where
  "observe f w = (case f w of (x, w') \<Rightarrow> (Inr x, w'))"

lemma observe_simp [io_simps, simp]: "observe f w = (Inr (fst (f w)), snd (f w))"
  by (simp add: observe_def split: prod.split)

text \<open>Library operations that refuse or echo, for evaluating the definitions on examples.\<close>

definition no_deps :: "'w deps" where
  "no_deps = \<lparr>url_parse = (\<lambda>_. None), url_join = (\<lambda>_ _. None), url_append_pairs = (\<lambda>u _. u),
     url_push_segments = (\<lambda>_ _. None), form_encode = (\<lambda>_. []), origin_text = (\<lambda>_. []),
     parse_number = (\<lambda>_. None), parse_value = (\<lambda>_. None), parse_metadata = (\<lambda>_. None),
     parse_members = (\<lambda>_. None), b64_encode = (\<lambda>s. s), b64_decode = Some,
     tokenize = (\<lambda>_. []), wolf_init = True, wolf_sha256 = Some, wolf_rng_new = (\<lambda>w. (True, w)),
     wolf_random = (\<lambda>n w. (Some (replicate n (CHR ''r'')), w)), rsa_key_ok = (\<lambda>_ _ _. True),
     rsa_signature_ok = (\<lambda>_ _. True), rsa_verify = (\<lambda>_ _ _ _ _. True),
     p256_signature_ok = (\<lambda>_. True), p256_verify = (\<lambda>_ _ _. True),
     http_send = (\<lambda>_ w. (Inl NotImplemented, w)), instant_now = (\<lambda>w. (0, w)),
     system_now = (\<lambda>w. (Some 0, w))\<rparr>"

definition answering :: "response \<Rightarrow> unit deps" where
  "answering response = no_deps\<lparr>http_send := (\<lambda>_ w. (Inr response, w))\<rparr>"

end
