(* ===== verification/Client_Config.thy ===== *)
theory Client_Config
  imports Deps
begin

text \<open>
  \<open>src/config.rs\<close>: the client's settings, their validation, and the issuer URL. A timeout is a
  number of nanoseconds, a file path a string.
\<close>

record config =
  server_url :: url
  realm :: string
  client_id :: string
  redirect_uri :: url
  ca_bundle :: "string option"
  timeout :: nat

definition millisecond :: nat where "millisecond = 1000000"
definition second :: nat where "second = 1000000000"

definition validate :: "config \<Rightarrow> unit res" where
  "validate c =
     (if url_scheme (server_url c) \<noteq> ''https'' then
        Inl (InvalidConfiguration ''Keycloak issuer requires HTTPS'')
      else if url_query (server_url c) \<noteq> None \<or> url_fragment (server_url c) \<noteq> None \<or>
              url_username (server_url c) \<noteq> [] \<or> url_password (server_url c) \<noteq> None then
        Inl (InvalidConfiguration ''server URL must not have credentials, query, or fragment'')
      else if url_query (redirect_uri c) \<noteq> None \<or> url_fragment (redirect_uri c) \<noteq> None then
        Inl (InvalidConfiguration ''redirect URI must not have a query or fragment'')
      else if realm c = [] \<or> CHR ''/'' \<in> set (realm c) \<or> realm c \<in> {''.'', ''..''} \<or>
              client_id c = [] then
        Inl (InvalidConfiguration ''realm or client ID'')
      else if timeout c < millisecond then
        Inl (InvalidConfiguration ''timeout must be at least one millisecond'')
      else Inr ())"

text \<open>
  \<open>Config::new\<close>. The redirect URI is a constant the \<open>url\<close> crate parses; where it did not
  parse, the Rust code panics, so the model returns \<open>None\<close> there.
\<close>

definition default_redirect :: string where
  "default_redirect = ''http://127.0.0.1:8845/himmelcloak/callback''"

definition new_config :: "'w deps \<Rightarrow> string \<Rightarrow> string \<Rightarrow> string \<Rightarrow> config res option" where
  "new_config D server realm_name client =
     (case url_parse D server of
        None \<Rightarrow> Some (Inl (InvalidConfiguration ''server URL''))
      | Some server' \<Rightarrow>
          (case url_parse D default_redirect of
             None \<Rightarrow> None
           | Some redirect \<Rightarrow>
               (let c = \<lparr>server_url = server', realm = realm_name, client_id = client,
                         redirect_uri = redirect, ca_bundle = None, timeout = 15 * second\<rparr>
                in Some (try_res (validate c) (\<lambda>_. Inr c)))))"

definition issuer_url :: "'w deps \<Rightarrow> config \<Rightarrow> url res" where
  "issuer_url D c =
     ok_or (url_push_segments D (server_url c) [''realms'', realm c])
       (InvalidConfiguration ''server URL cannot be a base'')"

text \<open>What a configuration that passed the checks looks like.\<close>

definition valid_config :: "config \<Rightarrow> bool" where
  "valid_config c \<longleftrightarrow>
     url_scheme (server_url c) = ''https'' \<and> url_query (server_url c) = None \<and>
     url_fragment (server_url c) = None \<and> url_username (server_url c) = [] \<and>
     url_password (server_url c) = None \<and> url_query (redirect_uri c) = None \<and>
     url_fragment (redirect_uri c) = None \<and> realm c \<noteq> [] \<and> CHR ''/'' \<notin> set (realm c) \<and>
     realm c \<noteq> ''.'' \<and> realm c \<noteq> ''..'' \<and> client_id c \<noteq> [] \<and> millisecond \<le> timeout c"

lemma validate_iff: "validate c = Inr () \<longleftrightarrow> valid_config c"
  by (auto simp: validate_def valid_config_def)

lemma validate_error: "validate c = Inl e \<Longrightarrow> \<exists>reason. e = InvalidConfiguration reason"
  by (auto simp: validate_def split: if_splits)

text \<open>
  Configuration checks: a configuration \<open>Config::new\<close> returns carries the caller's realm and
  client, talks HTTPS, and has no credentials, query or fragment in its server URL, no path
  traversal in its realm, a redirect URI that can be compared exactly, and a timeout libcurl can
  represent; \<open>validate\<close> accepts exactly such configurations and otherwise reports an invalid
  configuration.
\<close>

theorem validate_exact:
  "(validate c = Inr () \<longleftrightarrow> valid_config c) \<and>
   (validate c = Inr () \<or> (\<exists>reason. validate c = Inl (InvalidConfiguration reason))) \<and>
   (case new_config D s r k of
      Some (Inr c') \<Rightarrow> valid_config c' \<and> realm c' = r \<and> client_id c' = k \<and>
        url_parse D s = Some (server_url c')
    | _ \<Rightarrow> True)"
proof -
  have "validate c = Inr () \<or> (\<exists>reason. validate c = Inl (InvalidConfiguration reason))"
    by (cases "validate c") (auto dest: validate_error)
  moreover have "case new_config D s r k of
      Some (Inr c') \<Rightarrow> valid_config c' \<and> realm c' = r \<and> client_id c' = k \<and>
        url_parse D s = Some (server_url c')
    | _ \<Rightarrow> True"
    by (auto simp: new_config_def Let_def validate_iff split: option.splits sum.splits)
  ultimately show ?thesis by (simp add: validate_iff)
qed

end
