(* ===== verification/Transport.thy ===== *)
theory Transport
  imports Deps
begin

text \<open>
  \<open>src/transport.rs\<close>: building requests, the header list whose copies are wiped, one blocking
  libcurl transfer with its three callbacks, and the pool of at most 32 blocking transfers that
  \<open>CurlTransport::send\<close> shares.

  libcurl itself is outside: \<open>'w curl\<close> says which option calls it refuses, which callbacks a
  transfer makes and how it ends. The option calls are recorded as data, in the order the code
  makes them, so a property can say which options every transfer has.
\<close>

definition MAX_RESPONSE :: nat where "MAX_RESPONSE = 1024 * 1024"
definition MAX_HEADERS :: nat where "MAX_HEADERS = 64 * 1024"
definition MAX_FORM :: nat where "MAX_FORM = 1024 * 1024"
definition MAX_BLOCKING_REQUESTS :: nat where "MAX_BLOCKING_REQUESTS = 32"

subsection \<open>Requests and responses\<close>

definition request_get :: "url \<Rightarrow> request" where
  "request_get u =
     \<lparr>req_method = Get, req_url = u, req_headers = [], req_body = [], req_cookies = []\<rparr>"

text \<open>
  The capacity of a form body: three bytes for each byte of every name and value and two
  separators, every step checked for overflow of \<open>usize\<close>.
\<close>

fun form_capacity_from :: "nat \<Rightarrow> (string \<times> string) list \<Rightarrow> nat option" where
  "form_capacity_from acc [] = Some acc"
| "form_capacity_from acc ((name, field_value) # rest) =
     (case checked (length name + length field_value) of
        None \<Rightarrow> None
      | Some a \<Rightarrow>
          (case checked (a * 3) of
             None \<Rightarrow> None
           | Some b \<Rightarrow>
               (case checked (b + 2) of
                  None \<Rightarrow> None
                | Some c \<Rightarrow>
                    (case checked (c + acc) of
                       None \<Rightarrow> None
                     | Some d \<Rightarrow> form_capacity_from d rest))))"

definition form_capacity :: "(string \<times> string) list \<Rightarrow> nat option" where
  "form_capacity fs =
     (case form_capacity_from 0 fs of
        None \<Rightarrow> None
      | Some acc \<Rightarrow> if acc \<le> MAX_FORM then Some acc else None)"

definition request_form :: "'w deps \<Rightarrow> url \<Rightarrow> (string \<times> string) list \<Rightarrow> request res" where
  "request_form D u fs =
     (case form_capacity fs of
        None \<Rightarrow> Inl (Protocol ''form request too large'')
      | Some _ \<Rightarrow>
          Inr \<lparr>req_method = Post, req_url = u,
               req_headers = [''Content-Type: application/x-www-form-urlencoded''],
               req_body = form_encode D fs, req_cookies = []\<rparr>)"

text \<open>\<open>Response::header\<close>: the last header of that name, ignoring ASCII case.\<close>

definition header :: "response \<Rightarrow> string \<Rightarrow> string option" where
  "header r name =
     map_option snd (List.find (\<lambda>(key, _). eq_ignore_ascii_case key name) (rev (resp_headers r)))"

text \<open>\<open>scrub_url\<close>: the URL is replaced by a blank one and the bytes it had are overwritten.\<close>

definition scrub_url :: "'w deps \<Rightarrow> url \<Rightarrow> url" where
  "scrub_url D u = (case url_parse D ''data:,'' of None \<Rightarrow> u | Some blank \<Rightarrow> blank)"

text \<open>What a dropped request and a dropped response leave in memory.\<close>

definition request_dropped :: "'w deps \<Rightarrow> request \<Rightarrow> request" where
  "request_dropped D r = r\<lparr>req_url := scrub_url D (req_url r), req_body := [], req_headers := [],
     req_cookies := []\<rparr>"

definition response_dropped :: "response \<Rightarrow> response" where
  "response_dropped r = r\<lparr>resp_body := [],
     resp_headers := map (\<lambda>_. ([], [])) (resp_headers r), resp_cookies := []\<rparr>"

fun form_size :: "(string \<times> string) list \<Rightarrow> nat" where
  "form_size [] = 0"
| "form_size ((name, field_value) # rest) =
     3 * (length name + length field_value) + 2 + form_size rest"

lemma checked_simps [simp]:
  "checked n = Some m \<longleftrightarrow> m = n \<and> n \<le> u64_max"
  "checked n = None \<longleftrightarrow> u64_max < n"
  by (auto simp: checked_def)

lemma form_capacity_from_Some:
  "form_capacity_from acc fs = Some c \<longleftrightarrow> c = acc + form_size fs \<and>
     (fs = [] \<or> acc + form_size fs \<le> u64_max)"
proof (induction acc fs rule: form_capacity_from.induct)
  case (1 acc)
  then show ?case by auto
next
  case (2 acc name v rest)
  have step: "form_capacity_from acc ((name, v) # rest) = Some c \<longleftrightarrow>
      (length name + length v) * 3 + 2 + acc \<le> u64_max \<and>
      form_capacity_from ((length name + length v) * 3 + 2 + acc) rest = Some c"
    by (auto simp: checked_def)
  show ?case
    unfolding step
    using "2.IH" [of "length name + length v" "(length name + length v) * 3"
        "(length name + length v) * 3 + 2" "(length name + length v) * 3 + 2 + acc"]
    by (auto simp: checked_def)
qed

lemma form_capacity_Some:
  "form_capacity fs = Some c \<longleftrightarrow> c = form_size fs \<and> form_size fs \<le> MAX_FORM"
proof (cases "form_capacity_from 0 fs")
  case None
  then have "\<not> form_capacity_from 0 fs = Some (form_size fs)" by simp
  then have "u64_max < form_size fs" by (simp add: form_capacity_from_Some not_le)
  with None show ?thesis by (simp add: form_capacity_def MAX_FORM_def)
next
  case (Some d)
  then have "d = form_size fs" by (simp add: form_capacity_from_Some)
  with Some show ?thesis by (auto simp: form_capacity_def)
qed

lemma form_capacity_eq:
  "form_capacity fs = (if form_size fs \<le> MAX_FORM then Some (form_size fs) else None)"
  using form_capacity_Some [of fs] by (cases "form_capacity fs") auto

lemma request_form_ok:
  "request_form D u fs = Inr r \<longleftrightarrow> form_size fs \<le> MAX_FORM \<and>
     r = \<lparr>req_method = Post, req_url = u,
          req_headers = [''Content-Type: application/x-www-form-urlencoded''],
          req_body = form_encode D fs, req_cookies = []\<rparr>"
  by (auto simp: request_form_def form_capacity_eq)

lemma request_form_error:
  "request_form D u fs = Inl e \<longleftrightarrow> MAX_FORM < form_size fs \<and> e = Protocol ''form request too large''"
  by (auto simp: request_form_def form_capacity_eq)

subsection \<open>The header list\<close>

text \<open>
  \<open>SecretHeaderList\<close>: libcurl's list of header copies and the byte lengths recorded beside it.
  A node holds the bytes of the copy with its NUL terminator. \<open>alloc_ok\<close> and \<open>curl_ok\<close> say
  whether the reservation and \<open>curl_slist_append\<close> succeed.
\<close>

record header_list =
  hl_nodes :: "string list"
  hl_lengths :: "nat list"

definition NUL :: char where "NUL = CHR 0x00"

definition header_list_new :: header_list where
  "header_list_new = \<lparr>hl_nodes = [], hl_lengths = []\<rparr>"

definition header_list_append ::
  "bool \<Rightarrow> bool \<Rightarrow> string \<Rightarrow> (header_list, unit) act" where
  "header_list_append alloc_ok curl_ok h hl =
     (if list_ex (\<lambda>b. b = NUL \<or> b = CR \<or> b = NL) h then (Inl (Protocol ''invalid HTTP header''), hl)
      else if \<not> alloc_ok then (Inl (Transport ''HTTP header allocation failed''), hl)
      else (case checked (length h + 1) of
              None \<Rightarrow> (Inl (Protocol ''invalid HTTP header''), hl)
            | Some _ \<Rightarrow>
                if \<not> curl_ok then (Inl (Transport ''HTTP header allocation failed''), hl)
                else (Inr (), hl\<lparr>hl_nodes := hl_nodes hl @ [h @ [NUL]],
                                 hl_lengths := hl_lengths hl @ [length h]\<rparr>)))"

text \<open>\<open>install\<close>: \<open>status\<close> is what \<open>curl_easy_setopt\<close> returns, zero for success.\<close>

definition header_list_install :: "nat \<Rightarrow> header_list \<Rightarrow> string list res" where
  "header_list_install status hl =
     (if status = 0 then Inr (hl_nodes hl)
      else Inl (Transport (''HTTP header setup failed: '' @ show_nat status)))"

text \<open>\<open>scrub\<close> overwrites the recorded number of bytes of each node, walking both lists.\<close>

fun scrub_nodes :: "string list \<Rightarrow> nat list \<Rightarrow> string list" where
  "scrub_nodes [] lens = []"
| "scrub_nodes nodes [] = nodes"
| "scrub_nodes (n # nodes) (l # lens) = (replicate l NUL @ drop l n) # scrub_nodes nodes lens"

definition header_list_scrub :: "header_list \<Rightarrow> header_list" where
  "header_list_scrub hl = hl\<lparr>hl_nodes := scrub_nodes (hl_nodes hl) (hl_lengths hl)\<rparr>"

fun append_headers :: "(string \<times> bool \<times> bool) list \<Rightarrow> (header_list, unit) act" where
  "append_headers [] = ret ()"
| "append_headers ((h, a, c) # hs) = try_io (header_list_append a c h) (\<lambda>_. append_headers hs)"

text \<open>One node: the recorded length, one NUL at the end and no byte that could end a header line.\<close>

definition header_node :: "string \<Rightarrow> nat \<Rightarrow> bool" where
  "header_node n l \<longleftrightarrow> length n = Suc l \<and> last n = NUL \<and> CR \<notin> set n \<and> NL \<notin> set n \<and>
     NUL \<notin> set (butlast n)"

definition header_list_inv :: "header_list \<Rightarrow> bool" where
  "header_list_inv hl \<longleftrightarrow> list_all2 header_node (hl_nodes hl) (hl_lengths hl)"

lemma header_node_copy:
  "\<not> list_ex (\<lambda>b. b = NUL \<or> b = CR \<or> b = NL) h \<Longrightarrow> header_node (h @ [NUL]) (length h)"
  by (auto simp: header_node_def list_ex_iff text_simps NUL_def)

lemma header_list_inv_new [inv_intros]: "header_list_inv header_list_new"
  by (simp add: header_list_inv_def header_list_new_def)

lemma header_list_inv_append [inv_intros]:
  "header_list_inv hl \<Longrightarrow> header_list_inv (snd (header_list_append a c h hl))"
  using header_node_copy [of h]
  by (auto simp: header_list_inv_def header_list_append_def list_all2_appendI split: option.split)

lemma header_list_inv_appends:
  "header_list_inv hl \<Longrightarrow> header_list_inv (snd (append_headers hs hl))"
proof (induction hs arbitrary: hl)
  case Nil
  then show ?case by simp
next
  case (Cons x hs)
  obtain h a c where x: "x = (h, a, c)" by (cases x)
  obtain r hl' where s: "header_list_append a c h hl = (r, hl')"
    by (cases "header_list_append a c h hl")
  with Cons.prems have "header_list_inv hl'" using header_list_inv_append [of hl a c h] by simp
  with Cons.IH x s show ?case by (cases r) (simp_all add: try_io_step)
qed

lemma scrub_nodes_zero:
  "list_all2 header_node nodes lens \<Longrightarrow> n \<in> set (scrub_nodes nodes lens) \<Longrightarrow> set n \<subseteq> {NUL}"
proof (induction nodes lens rule: scrub_nodes.induct)
  case (3 m nodes l lens)
  then have "drop l m = [NUL]"
    by (cases m rule: rev_cases) (auto simp: header_node_def)
  with 3 show ?case by auto
qed auto

text \<open>
  Secret headers: whatever headers are appended, and wherever that stops, no copy handed to
  libcurl contains a carriage return, a line feed or an embedded NUL, so a token cannot add a
  header of its own; and after \<open>scrub\<close> every byte of every copy is zero.
\<close>

theorem header_list_safe:
  "list_all (\<lambda>n. CR \<notin> set n \<and> NL \<notin> set n \<and> NUL \<notin> set (butlast n))
     (hl_nodes (snd (append_headers hs header_list_new))) \<and>
   list_all (\<lambda>n. set n \<subseteq> {NUL})
     (hl_nodes (header_list_scrub (snd (append_headers hs header_list_new))))"
proof -
  let ?hl = "snd (append_headers hs header_list_new)"
  have inv: "header_list_inv ?hl" by (intro header_list_inv_appends header_list_inv_new)
  then have "\<forall>n \<in> set (hl_nodes ?hl). CR \<notin> set n \<and> NL \<notin> set n \<and> NUL \<notin> set (butlast n)"
    unfolding header_list_inv_def by (auto simp: list_all2_conv_all_nth in_set_conv_nth header_node_def)
  moreover have "\<forall>n \<in> set (hl_nodes (header_list_scrub ?hl)). set n \<subseteq> {NUL}"
    using inv scrub_nodes_zero by (auto simp: header_list_scrub_def header_list_inv_def)
  ultimately show ?thesis unfolding list_all_iff by blast
qed

subsection \<open>One transfer\<close>

datatype curl_option =
    Opt_Url string
  | Opt_Proxy string
  | Opt_Timeout nat
  | Opt_Connect_Timeout nat
  | Opt_Follow_Location bool
  | Opt_Ssl_Verify_Peer bool
  | Opt_Ssl_Verify_Host bool
  | Opt_Useragent string
  | Opt_Cainfo string
  | Opt_Cookie_File string
  | Opt_Cookie_List string
  | Opt_Http_Header "string list"
  | Opt_Post bool
  | Opt_Post_Field_Size nat
  | Opt_Read_Function
  | Opt_Write_Function
  | Opt_Header_Function

text \<open>The callbacks libcurl makes: a buffer to fill, received body bytes, one header line.\<close>

datatype curl_event = Read_Callback nat | Write_Callback string | Header_Callback string

text \<open>
  libcurl: the options it refuses (with its message), the outcomes of appending a header copy
  (reservation and list) and of installing the list, the callbacks of a transfer with its
  outcome (\<open>Some\<close> message for a failed one), and the status and cookie list afterwards.
\<close>

record 'w curl =
  curl_refuses :: "curl_option \<Rightarrow> string option"
  curl_append_ok :: "string \<Rightarrow> bool \<times> bool"
  curl_install_status :: "string list \<Rightarrow> nat"
  curl_perform :: "curl_option list \<Rightarrow> 'w \<Rightarrow> (curl_event list \<times> string option) \<times> 'w"
  curl_response_code :: "'w \<Rightarrow> string + nat"
  curl_cookies :: "'w \<Rightarrow> string + string list"

fun set_options :: "'w curl \<Rightarrow> curl_option list \<Rightarrow> (curl_option list, unit) act" where
  "set_options C [] = ret ()"
| "set_options C (opt # opts) =
     (\<lambda>os.
        case curl_refuses C opt of
          Some message \<Rightarrow> (Inl (Transport message), os)
        | None \<Rightarrow> set_options C opts (os @ [opt]))"

definition first_options :: "request \<Rightarrow> string option \<Rightarrow> nat \<Rightarrow> curl_option list" where
  "first_options request ca_file limit =
     [Opt_Url (url_text (req_url request))] @
     (if url_scheme (req_url request) = ''http'' then [Opt_Proxy []] else []) @
     [Opt_Timeout limit, Opt_Connect_Timeout limit, Opt_Follow_Location False,
      Opt_Ssl_Verify_Peer True, Opt_Ssl_Verify_Host True, Opt_Useragent ''himmelcloak/0.0.0''] @
     (case ca_file of None \<Rightarrow> [] | Some path \<Rightarrow> [Opt_Cainfo path]) @
     [Opt_Cookie_File []] @ map Opt_Cookie_List (req_cookies request)"

definition last_options :: "request \<Rightarrow> curl_option list" where
  "last_options request =
     (if req_method request = Post
      then [Opt_Post True, Opt_Post_Field_Size (length (req_body request))] else []) @
     [Opt_Read_Function, Opt_Write_Function, Opt_Header_Function]"

text \<open>The header list of the request: empty lists are not installed.\<close>

definition header_options :: "'w curl \<Rightarrow> request \<Rightarrow> curl_option list res" where
  "header_options C request =
     (if req_headers request = [] then Inr []
      else (case append_headers (map (\<lambda>h. (h, curl_append_ok C h)) (req_headers request))
                   header_list_new of
              (Inl e, _) \<Rightarrow> Inl e
            | (Inr _, hl) \<Rightarrow>
                try_res (header_list_install (curl_install_status C (hl_nodes hl)) hl)
                  (\<lambda>nodes. Inr [Opt_Http_Header nodes])))"

text \<open>The options of a transfer, or the error of the first call that fails.\<close>

definition transfer_options ::
  "'w curl \<Rightarrow> request \<Rightarrow> string option \<Rightarrow> nat \<Rightarrow> curl_option list res" where
  "transfer_options C request ca_file limit =
     (case set_options C (first_options request ca_file limit) [] of
        (Inl e, _) \<Rightarrow> Inl e
      | (Inr _, opts) \<Rightarrow>
          try_res (header_options C request) (\<lambda>hopts.
            (case set_options C (last_options request) (opts @ hopts) of
               (Inl e, _) \<Rightarrow> Inl e
             | (Inr _, opts') \<Rightarrow> Inr opts')))"

record xfer =
  x_sent :: nat
  x_uploaded :: string
  x_body :: string
  x_headers :: "(string \<times> string) list"
  x_header_bytes :: nat
  x_oversized :: bool

definition xfer_new :: xfer where
  "xfer_new = \<lparr>x_sent = 0, x_uploaded = [], x_body = [], x_headers = [], x_header_bytes = 0,
     x_oversized = False\<rparr>"

definition header_line :: "string \<Rightarrow> (string \<times> string) list" where
  "header_line line =
     (case from_utf8 line of
        None \<Rightarrow> []
      | Some text \<Rightarrow>
          (case split_once (CHR '':'') text of
             None \<Rightarrow> []
           | Some (name, content) \<Rightarrow> [(trim name, trim content)]))"

fun callback :: "string \<Rightarrow> curl_event \<Rightarrow> xfer \<Rightarrow> xfer" where
  "callback body (Read_Callback buffer) x =
     (let remaining = drop (x_sent x) body;
          count = min (length remaining) buffer
      in x\<lparr>x_sent := x_sent x + count, x_uploaded := x_uploaded x @ take count remaining\<rparr>)"
| "callback body (Write_Callback bytes) x =
     (if MAX_RESPONSE < saturating_add (length (x_body x)) (length bytes)
      then x\<lparr>x_oversized := True\<rparr>
      else x\<lparr>x_body := x_body x @ bytes\<rparr>)"
| "callback body (Header_Callback line) x =
     (let total_bytes = saturating_add (x_header_bytes x) (length line) in
      if MAX_HEADERS < total_bytes
      then x\<lparr>x_header_bytes := total_bytes, x_oversized := True\<rparr>
      else x\<lparr>x_header_bytes := total_bytes, x_headers := x_headers x @ header_line line\<rparr>)"

text \<open>A callback that refuses its data ends the transfer, so no later one is made.\<close>

fun run_callbacks :: "string \<Rightarrow> curl_event list \<Rightarrow> xfer \<Rightarrow> xfer" where
  "run_callbacks body [] x = x"
| "run_callbacks body (e # es) x =
     (if x_oversized x then x else run_callbacks body es (callback body e x))"

definition send_blocking ::
  "'w curl \<Rightarrow> request \<Rightarrow> string option \<Rightarrow> nat \<Rightarrow> ('w, response) act" where
  "send_blocking C request ca_file limit w =
     (case transfer_options C request ca_file limit of
        Inl e \<Rightarrow> (Inl e, w)
      | Inr opts \<Rightarrow>
          (case curl_perform C opts w of
             ((events, outcome), w') \<Rightarrow>
               (let x = run_callbacks (req_body request) events xfer_new in
                if x_oversized x then (Inl (Protocol ''HTTP response too large''), w')
                else (case outcome of
                        Some message \<Rightarrow> (Inl (Transport message), w')
                      | None \<Rightarrow>
                          (case curl_response_code C w' of
                             Inl message \<Rightarrow> (Inl (Transport message), w')
                           | Inr status \<Rightarrow>
                               (case curl_cookies C w' of
                                  Inl message \<Rightarrow> (Inl (Transport message), w')
                                | Inr cookies \<Rightarrow>
                                    (case collect_opt (map from_utf8 cookies) of
                                       None \<Rightarrow> (Inl (Protocol ''invalid cookie encoding''), w')
                                     | Some lines \<Rightarrow>
                                         (Inr \<lparr>resp_status = status, resp_headers = x_headers x,
                                               resp_body = x_body x, resp_cookies = lines\<rparr>,
                                          w'))))))))"

subsection \<open>What a transfer guarantees\<close>

definition xfer_inv :: "string \<Rightarrow> xfer \<Rightarrow> bool" where
  "xfer_inv body x \<longleftrightarrow>
     x_sent x \<le> length body \<and> x_uploaded x = take (x_sent x) body \<and>
     length (x_body x) \<le> MAX_RESPONSE \<and>
     (\<not> x_oversized x \<longrightarrow> x_header_bytes x \<le> MAX_HEADERS) \<and>
     (\<forall>(n, v) \<in> set (x_headers x). valid_utf8 n \<and> valid_utf8 v)"

lemma xfer_inv_new: "xfer_inv body xfer_new"
  by (simp add: xfer_inv_def xfer_new_def)

lemma header_line_valid: "(n, v) \<in> set (header_line line) \<Longrightarrow> valid_utf8 n \<and> valid_utf8 v"
  by (auto simp: header_line_def trim_valid split: option.splits)

lemma callback_inv: "xfer_inv body x \<Longrightarrow> \<not> x_oversized x \<Longrightarrow> xfer_inv body (callback body e x)"
proof (cases e)
  case (Read_Callback n)
  assume "xfer_inv body x"
  moreover have "take (x_sent x) body @ take k (drop (x_sent x) body) = take (x_sent x + k) body"
    if "x_sent x \<le> length body" for k using that by (simp add: take_add)
  ultimately show ?thesis using Read_Callback by (auto simp: xfer_inv_def Let_def)
qed (auto simp: xfer_inv_def Let_def saturating_add_def MAX_RESPONSE_def header_line_valid)

lemma run_callbacks_inv: "xfer_inv body x \<Longrightarrow> xfer_inv body (run_callbacks body es x)"
  by (induction es arbitrary: x) (auto intro: callback_inv)

lemma set_options_ok:
  "set_options C opts os = (Inr u, os') \<Longrightarrow> os' = os @ opts"
proof (induction opts arbitrary: os)
  case (Cons a opts)
  then have "set_options C opts (os @ [a]) = (Inr u, os')" by (simp split: option.splits)
  from Cons.IH [OF this] show ?case by simp
qed simp

lemma transfer_options_ok:
  assumes "transfer_options C request ca_file limit = Inr opts"
  obtains hopts where "opts = first_options request ca_file limit @ hopts @ last_options request"
    "header_options C request = Inr hopts"
proof (cases "set_options C (first_options request ca_file limit) []")
  case first: (Pair r os)
  show thesis
  proof (cases r)
    case (Inl e)
    with assms first show thesis by (simp add: transfer_options_def)
  next
    case (Inr u)
    with first have os: "os = first_options request ca_file limit"
      by (auto dest: set_options_ok)
    from assms first Inr obtain hopts where h: "header_options C request = Inr hopts"
      by (cases "header_options C request") (simp_all add: transfer_options_def)
    with assms first Inr obtain u' where
      "set_options C (last_options request) (os @ hopts) = (Inr u', opts)"
      by (cases "set_options C (last_options request) (os @ hopts)")
        (auto simp: transfer_options_def split: sum.splits)
    then have "opts = os @ hopts @ last_options request" by (auto dest: set_options_ok)
    with os h that show thesis by simp
  qed
qed

lemma header_options_only: "header_options C request = Inr hopts \<Longrightarrow> set hopts \<subseteq> range Opt_Http_Header"
  by (auto simp: header_options_def split: if_splits prod.splits sum.splits)

text \<open>
  TLS and redirect policy: every transfer libcurl is asked to perform verifies the peer and
  the host name, never follows a redirect by itself, has both timeouts set to the given limit and
  the whole request body's length announced when it posts, starts from an empty cookie store
  holding only the request's cookies, and uses no proxy over plain HTTP.
\<close>

theorem transfer_policy:
  assumes "transfer_options C request ca_file limit = Inr opts"
  shows "{Opt_Ssl_Verify_Peer True, Opt_Ssl_Verify_Host True, Opt_Follow_Location False,
      Opt_Timeout limit, Opt_Connect_Timeout limit} \<subseteq> set opts \<and>
    Opt_Ssl_Verify_Peer False \<notin> set opts \<and> Opt_Ssl_Verify_Host False \<notin> set opts \<and>
    Opt_Follow_Location True \<notin> set opts \<and>
    filter (\<lambda>opt. \<exists>c. opt = Opt_Cookie_List c) opts = map Opt_Cookie_List (req_cookies request) \<and>
    (req_method request = Post \<longrightarrow> Opt_Post_Field_Size (length (req_body request)) \<in> set opts) \<and>
    (url_scheme (req_url request) = ''http'' \<longrightarrow> Opt_Proxy [] \<in> set opts)"
proof -
  obtain hopts where opts: "opts = first_options request ca_file limit @ hopts @ last_options request"
    and h: "header_options C request = Inr hopts"
    by (rule transfer_options_ok [OF assms])
  have "set hopts \<subseteq> range Opt_Http_Header" by (rule header_options_only [OF h])
  then have "filter (\<lambda>opt. \<exists>c. opt = Opt_Cookie_List c) hopts = []"
    "\<And>b. Opt_Ssl_Verify_Peer b \<notin> set hopts" "\<And>b. Opt_Ssl_Verify_Host b \<notin> set hopts"
    "\<And>b. Opt_Follow_Location b \<notin> set hopts"
    by (auto simp: filter_empty_conv)
  moreover have "filter (\<lambda>opt. \<exists>c. opt = Opt_Cookie_List c) (map Opt_Cookie_List cs) =
      map Opt_Cookie_List cs" for cs by (induction cs) auto
  ultimately show ?thesis
    by (auto simp: opts first_options_def last_options_def split: option.splits)
qed

definition quiet_curl :: "unit curl" where
  "quiet_curl = \<lparr>curl_refuses = (\<lambda>_. None), curl_append_ok = (\<lambda>_. (True, True)),
     curl_install_status = (\<lambda>_. 0), curl_perform = (\<lambda>_ w. (([], None), w)),
     curl_response_code = (\<lambda>_. Inr 200), curl_cookies = (\<lambda>_. Inr [])\<rparr>"

definition example_url :: url where
  "example_url = \<lparr>url_scheme = ''https'', url_username = [], url_password = None,
     url_host = Some (Domain ''kc.test''), url_host_str = Some ''kc.test'', url_port = Some 443,
     url_path = ''/realms/test'', url_query = None, url_fragment = None, url_pairs = [],
     url_origin = Tuple_Origin ''https'' ''kc.test'' 443, url_text = ''https://kc.test/realms/test''\<rparr>"

theorem transfer_policy_witness:
  "\<exists>opts. transfer_options quiet_curl (request_get example_url) None 5 = Inr opts \<and>
     Opt_Ssl_Verify_Peer True \<in> set opts"
proof -
  obtain opts where o: "transfer_options quiet_curl (request_get example_url) None 5 = Inr opts"
    by (simp add: transfer_options_def first_options_def last_options_def header_options_def
        quiet_curl_def request_get_def example_url_def)
  then show ?thesis using transfer_policy [OF o] by auto
qed

text \<open>
  Bounds of a response: a response \<open>send_blocking\<close> returns has a body of at most 1 MiB,
  and its header names, header values and cookies are valid UTF-8; and at any point of any
  transfer the bytes uploaded are exactly the first bytes of the request body, none skipped or
  sent twice.
\<close>

theorem send_blocking_bounds:
  "(case send_blocking C request ca_file limit w of
      (Inr r, _) \<Rightarrow> length (resp_body r) \<le> MAX_RESPONSE \<and>
        list_all (\<lambda>(n, v). valid_utf8 n \<and> valid_utf8 v) (resp_headers r) \<and>
        list_all valid_utf8 (resp_cookies r)
    | (Inl _, _) \<Rightarrow> True) \<and>
   x_uploaded (run_callbacks body es xfer_new) =
     take (x_sent (run_callbacks body es xfer_new)) body"
proof -
  have inv: "xfer_inv b (run_callbacks b es xfer_new)" for b es
    by (intro run_callbacks_inv xfer_inv_new)
  have cookies: "valid_utf8 c" if "collect_opt (map from_utf8 cs) = Some lines" "c \<in> set lines"
    for cs lines c
  proof -
    from that(2) obtain i where "i < length lines" "c = lines ! i" by (auto simp: in_set_conv_nth)
    with that(1) collect_opt_length [OF that(1)] collect_opt_nth [OF that(1), of i]
    show ?thesis by (simp split: if_splits)
  qed
  have "case send_blocking C request ca_file limit w of
      (Inr r, _) \<Rightarrow> length (resp_body r) \<le> MAX_RESPONSE \<and>
        list_all (\<lambda>(n, v). valid_utf8 n \<and> valid_utf8 v) (resp_headers r) \<and>
        list_all valid_utf8 (resp_cookies r)
    | (Inl _, _) \<Rightarrow> True"
    using inv [of "req_body request"] cookies
    by (force simp: send_blocking_def Let_def xfer_inv_def list_all_iff
        split: sum.splits prod.splits option.splits if_splits)
  with inv [of body es] show ?thesis by (simp add: xfer_inv_def)
qed

subsection \<open>The transport and its backend check\<close>

text \<open>Only the active entry of the version string counts; inactive ones are in parentheses.\<close>

definition active_wolfssl :: "string \<Rightarrow> bool" where
  "active_wolfssl version =
     (case find (\<lambda>backend. \<not> starts_with ''('' backend) (split_ascii_whitespace version) of
        None \<Rightarrow> False
      | Some backend \<Rightarrow>
          (case split_once (CHR ''/'') backend of
             None \<Rightarrow> False
           | Some (name, release) \<Rightarrow>
               eq_ignore_ascii_case name ''wolfssl'' \<and> release \<noteq> []))"

record curl_transport =
  ct_ca_bundle :: "string option"
  ct_timeout :: nat

definition transport_new :: "string option \<Rightarrow> string option \<Rightarrow> nat \<Rightarrow> curl_transport res" where
  "transport_new backend ca_bundle timeout =
     (if active_wolfssl (case backend of None \<Rightarrow> [] | Some version \<Rightarrow> version)
      then Inr \<lparr>ct_ca_bundle = ca_bundle, ct_timeout = timeout\<rparr>
      else Inl TlsBackend)"

text \<open>Durations are in nanoseconds; libcurl counts milliseconds and reads zero as no limit.\<close>

definition curl_timeout :: "nat \<Rightarrow> nat option" where
  "curl_timeout remaining = (if remaining = 0 then None else Some (max remaining 1000000))"

text \<open>\<open>Instant::checked_add\<close>: seconds are 64-bit signed.\<close>

definition instant_add :: "nat \<Rightarrow> nat \<Rightarrow> nat option" where
  "instant_add now d = (if now + d < 2 ^ 63 * 1000000000 then Some (now + d) else None)"

lemma curl_timeout_finite: "curl_timeout remaining = Some t \<Longrightarrow> 1000000 \<le> t \<and> remaining \<le> t"
  by (auto simp: curl_timeout_def split: if_splits)

text \<open>The checks of \<open>send\<close> before it waits for a slot: the deadline, or the error.\<close>

definition send_deadline :: "bool \<Rightarrow> bool \<Rightarrow> curl_transport \<Rightarrow> nat \<Rightarrow> nat res" where
  "send_deadline runtime timer T now =
     (if \<not> runtime then Inl (Transport ''Tokio runtime required'')
      else if \<not> timer then Inl (Transport ''Tokio time driver required'')
      else ok_or (instant_add now (ct_timeout T)) (InvalidConfiguration ''timeout too large''))"

subsection \<open>The pool of blocking transfers\<close>

text \<open>
  Every call of \<open>send\<close> is one entry of the pool: the caller's side (the future), the worker's
  side (the blocking closure) and the \<open>PendingJob\<close> both can take from. An aborted closure may
  stay in the runtime's queue and start later.
\<close>

datatype caller = Acquiring | Awaiting | Returned "response res" | Dropped

datatype worker = Unspawned | Spawned | Transferring request nat | Exited "response res"

record pending =
  p_deadline :: nat
  p_caller :: caller
  p_worker :: worker
  p_permit :: bool
  p_request :: "request option"

record pool =
  slots_free :: nat
  sends :: "pending list"
  transfers :: "(nat \<times> request \<times> nat) list"

definition pool_new :: pool where
  "pool_new = \<lparr>slots_free = MAX_BLOCKING_REQUESTS, sends = [], transfers = []\<rparr>"

datatype pool_event =
    Send request nat
  | Acquire nat
  | Acquire_Timeout nat
  | Worker_Start nat nat
  | Worker_Exit nat "response res"
  | Caller_Join nat
  | Caller_Timeout nat
  | Caller_Drop nat

text \<open>\<open>PendingTransfer::drop\<close>: the job's permit and request are taken and released.\<close>

definition pending_dropped :: "nat \<Rightarrow> caller \<Rightarrow> pool \<Rightarrow> pool" where
  "pending_dropped i c p =
     (let s = sends p ! i in
      p\<lparr>slots_free := slots_free p + (if p_permit s then 1 else 0),
        sends := (sends p)[i := s\<lparr>p_caller := c, p_permit := False, p_request := None\<rparr>]\<rparr>)"

definition timed_out :: "response res" where
  "timed_out = Inl (Transport ''HTTP request timed out'')"

text \<open>
  The blocking closure: it takes the permit and the request; without both it gives up. A permit
  it holds is released when it returns, and kept until the transfer exits when it starts one.
\<close>

definition worker_start :: "nat \<Rightarrow> nat \<Rightarrow> pool \<Rightarrow> pool" where
  "worker_start i now p =
     (let s = sends p ! i;
          taken = s\<lparr>p_permit := False, p_request := None\<rparr>;
          back = (if p_permit s then 1 else 0)
      in case (p_permit s, p_request s) of
           (True, Some request) \<Rightarrow>
             (case curl_timeout (p_deadline s - now) of
                None \<Rightarrow>
                  p\<lparr>slots_free := slots_free p + back,
                    sends := (sends p)[i := taken\<lparr>p_worker := Exited timed_out\<rparr>]\<rparr>
              | Some limit \<Rightarrow>
                  p\<lparr>sends := (sends p)[i := taken\<lparr>p_worker := Transferring request limit\<rparr>],
                    transfers := transfers p @ [(i, request, limit)]\<rparr>)
         | _ \<Rightarrow>
             p\<lparr>slots_free := slots_free p + back,
               sends := (sends p)[i := taken\<lparr>p_worker := Exited timed_out\<rparr>]\<rparr>)"

fun pool_step :: "pool_event \<Rightarrow> pool \<Rightarrow> pool option" where
  "pool_step (Send request deadline) p =
     Some (p\<lparr>sends := sends p @
       [\<lparr>p_deadline = deadline, p_caller = Acquiring, p_worker = Unspawned, p_permit = False,
         p_request = Some request\<rparr>]\<rparr>)"
| "pool_step (Acquire i) p =
     (if i < length (sends p) \<and> p_caller (sends p ! i) = Acquiring \<and> 0 < slots_free p
      then Some (p\<lparr>slots_free := slots_free p - 1,
             sends := (sends p)[i := (sends p ! i)\<lparr>p_caller := Awaiting, p_worker := Spawned,
               p_permit := True\<rparr>]\<rparr>)
      else None)"
| "pool_step (Acquire_Timeout i) p =
     (if i < length (sends p) \<and> p_caller (sends p ! i) = Acquiring
      then Some (pending_dropped i (Returned timed_out) p) else None)"
| "pool_step (Worker_Start i now) p =
     (if i < length (sends p) \<and> p_worker (sends p ! i) = Spawned
      then Some (worker_start i now p) else None)"
| "pool_step (Worker_Exit i r) p =
     (if i < length (sends p) \<and> (\<exists>request limit. p_worker (sends p ! i) = Transferring request limit)
      then Some (p\<lparr>slots_free := slots_free p + 1,
             sends := (sends p)[i := (sends p ! i)\<lparr>p_worker := Exited r\<rparr>]\<rparr>)
      else None)"
| "pool_step (Caller_Join i) p =
     (if i < length (sends p) \<and> p_caller (sends p ! i) = Awaiting
      then (case p_worker (sends p ! i) of
              Exited r \<Rightarrow> Some (pending_dropped i (Returned r) p)
            | _ \<Rightarrow> None)
      else None)"
| "pool_step (Caller_Timeout i) p =
     (if i < length (sends p) \<and> p_caller (sends p ! i) = Awaiting
      then Some (pending_dropped i (Returned timed_out) p) else None)"
| "pool_step (Caller_Drop i) p =
     (if i < length (sends p) \<and> p_caller (sends p ! i) \<in> {Acquiring, Awaiting}
      then Some (pending_dropped i Dropped p) else None)"

inductive pool_reaches :: "pool \<Rightarrow> bool" where
  pool_start: "pool_reaches pool_new"
| pool_next: "pool_reaches p \<Longrightarrow> pool_step e p = Some p' \<Longrightarrow> pool_reaches p'"

subsection \<open>Invariant of the pool\<close>

definition holds_slot :: "pending \<Rightarrow> bool" where
  "holds_slot s \<longleftrightarrow> p_permit s \<or> (\<exists>request limit. p_worker s = Transferring request limit)"

fun pending_ok :: "bool \<Rightarrow> pending \<Rightarrow> bool" where
  "pending_ok sent s \<longleftrightarrow>
     (p_permit s \<longrightarrow> p_caller s = Awaiting \<and> p_worker s = Spawned \<and> p_request s \<noteq> None) \<and>
     (p_caller s = Acquiring \<longrightarrow>
        p_worker s = Unspawned \<and> p_request s \<noteq> None \<and> \<not> p_permit s) \<and>
     (p_caller s \<notin> {Acquiring, Awaiting} \<longrightarrow> p_request s = None) \<and>
     (p_worker s \<in> {Unspawned, Spawned} \<longrightarrow> \<not> sent) \<and>
     (\<forall>request limit. p_worker s = Transferring request limit \<longrightarrow> sent)"

definition pool_inv :: "pool \<Rightarrow> bool" where
  "pool_inv p \<longleftrightarrow>
     slots_free p + length (filter holds_slot (sends p)) = MAX_BLOCKING_REQUESTS \<and>
     distinct (map fst (transfers p)) \<and>
     (\<forall>(i, _, limit) \<in> set (transfers p). i < length (sends p) \<and> 1000000 \<le> limit) \<and>
     (\<forall>i < length (sends p). pending_ok (i \<in> fst ` set (transfers p)) (sends p ! i))"

lemma length_filter_update:
  "i < length xs \<Longrightarrow> length (filter P (xs[i := x])) + (if P (xs ! i) then 1 else 0) =
     length (filter P xs) + (if P x then 1 else 0)"
proof (induction xs arbitrary: i)
  case (Cons y ys)
  then show ?case by (cases i) auto
qed simp

declare pending_ok.simps [simp del]

text \<open>
  Replacing one entry keeps the invariant when slots are balanced and the entry is sound; the
  entry's own transfer may be added.
\<close>

lemma pool_inv_update:
  assumes inv: "pool_inv p" and i: "i < length (sends p)"
    and upd: "sends p' = (sends p)[i := s]"
    and bal: "slots_free p' + (if holds_slot s then 1 else 0) =
      slots_free p + (if holds_slot (sends p ! i) then 1 else 0)"
    and ts: "transfers p' = transfers p \<or>
      (i \<notin> fst ` set (transfers p) \<and>
       (\<exists>r l. 1000000 \<le> l \<and> transfers p' = transfers p @ [(i, r, l)]))"
    and ok: "pending_ok (i \<in> fst ` set (transfers p')) s"
  shows "pool_inv p'"
proof -
  have "slots_free p' + length (filter holds_slot (sends p')) = MAX_BLOCKING_REQUESTS"
    using inv bal length_filter_update [OF i, of holds_slot s]
    by (simp add: pool_inv_def upd split: if_splits)
  moreover have "distinct (map fst (transfers p'))"
    using inv ts by (auto simp: pool_inv_def)
  moreover have "\<forall>(j, _, limit) \<in> set (transfers p'). j < length (sends p') \<and> 1000000 \<le> limit"
    using inv ts i by (auto simp: pool_inv_def upd)
  moreover have "pending_ok (j \<in> fst ` set (transfers p')) (sends p' ! j)" if "j < length (sends p')" for j
  proof (cases "j = i")
    case True
    with ok i show ?thesis by (simp add: upd)
  next
    case False
    with ts have "j \<in> fst ` set (transfers p') \<longleftrightarrow> j \<in> fst ` set (transfers p)" by auto
    with inv that False show ?thesis by (simp add: pool_inv_def upd)
  qed
  ultimately show ?thesis by (simp add: pool_inv_def)
qed

lemma pool_inv_entry:
  "pool_inv p \<Longrightarrow> i < length (sends p) \<Longrightarrow> pending_ok (i \<in> fst ` set (transfers p)) (sends p ! i)"
  by (simp add: pool_inv_def)

lemma pending_dropped_inv:
  assumes "pool_inv p" "i < length (sends p)" "c \<notin> {Acquiring, Awaiting}"
    and "p_caller (sends p ! i) \<in> {Acquiring, Awaiting}"
  shows "pool_inv (pending_dropped i c p)"
  by (rule pool_inv_update [OF assms(1,2),
        where s = "(sends p ! i)\<lparr>p_caller := c, p_permit := False, p_request := None\<rparr>"])
    (use pool_inv_entry [OF assms(1,2)] assms(3,4) in
      \<open>auto simp: holds_slot_def pending_ok.simps pending_dropped_def Let_def\<close>)

lemma worker_start_inv:
  assumes "pool_inv p" "i < length (sends p)" "p_worker (sends p ! i) = Spawned"
  shows "pool_inv (worker_start i now p)"
proof -
  let ?s = "sends p ! i"
  have ok: "pending_ok (i \<in> fst ` set (transfers p)) ?s"
    by (rule pool_inv_entry [OF assms(1,2)])
  consider (run) request limit where "p_permit ?s" "p_request ?s = Some request"
      "curl_timeout (p_deadline ?s - now) = Some limit"
    | (gone) "worker_start i now p = p\<lparr>slots_free := slots_free p + (if p_permit ?s then 1 else 0),
        sends := (sends p)[i := ?s\<lparr>p_permit := False, p_request := None,
          p_worker := Exited timed_out\<rparr>]\<rparr>"
    by (cases "p_permit ?s"; cases "p_request ?s"; cases "curl_timeout (p_deadline ?s - now)")
      (auto simp: worker_start_def Let_def)
  then show ?thesis
  proof cases
    case run
    show ?thesis
      by (rule pool_inv_update [OF assms(1,2), where s = "?s\<lparr>p_permit := False, p_request := None,
            p_worker := Transferring request limit\<rparr>"])
        (use ok run assms(3) curl_timeout_finite [OF run(3)] in
          \<open>auto simp: holds_slot_def pending_ok.simps worker_start_def Let_def\<close>)
  next
    case gone
    show ?thesis unfolding gone
      by (rule pool_inv_update [OF assms(1,2), where s = "?s\<lparr>p_permit := False, p_request := None,
            p_worker := Exited timed_out\<rparr>"])
        (use ok assms(3) in \<open>auto simp: holds_slot_def pending_ok.simps\<close>)
  qed
qed

lemma pool_acquire_inv:
  assumes "pool_inv p" "pool_step (Acquire i) p = Some p'"
  shows "pool_inv p'"
proof -
  from assms(2) have i: "i < length (sends p)" "p_caller (sends p ! i) = Acquiring" "0 < slots_free p"
    and p': "p' = p\<lparr>slots_free := slots_free p - 1, sends := (sends p)[i := (sends p ! i)
      \<lparr>p_caller := Awaiting, p_worker := Spawned, p_permit := True\<rparr>]\<rparr>"
    by (simp_all split: if_splits)
  show ?thesis unfolding p'
    by (rule pool_inv_update [OF assms(1) i(1), where s = "(sends p ! i)
          \<lparr>p_caller := Awaiting, p_worker := Spawned, p_permit := True\<rparr>"])
      (use pool_inv_entry [OF assms(1) i(1)] i in \<open>auto simp: holds_slot_def pending_ok.simps\<close>)
qed

lemma pool_exit_inv:
  assumes "pool_inv p" "pool_step (Worker_Exit i r) p = Some p'"
  shows "pool_inv p'"
proof -
  from assms(2) have i: "i < length (sends p)"
    and t: "\<exists>request limit. p_worker (sends p ! i) = Transferring request limit"
    and p': "p' = p\<lparr>slots_free := slots_free p + 1,
      sends := (sends p)[i := (sends p ! i)\<lparr>p_worker := Exited r\<rparr>]\<rparr>"
    by (simp_all split: if_splits)
  show ?thesis unfolding p'
    by (rule pool_inv_update [OF assms(1) i, where s = "(sends p ! i)\<lparr>p_worker := Exited r\<rparr>"])
      (use pool_inv_entry [OF assms(1) i] t in \<open>auto simp: holds_slot_def pending_ok.simps\<close>)
qed

lemma pool_send_inv:
  assumes "pool_inv p" "pool_step (Send request deadline) p = Some p'"
  shows "pool_inv p'"
proof -
  let ?s = "\<lparr>p_deadline = deadline, p_caller = Acquiring, p_worker = Unspawned, p_permit = False,
    p_request = Some request\<rparr>"
  from assms(2) have p': "p' = p\<lparr>sends := sends p @ [?s]\<rparr>" by simp
  from assms(1) have "length (sends p) \<notin> fst ` set (transfers p)" by (force simp: pool_inv_def)
  then have "pending_ok (length (sends p) \<in> fst ` set (transfers p)) ?s"
    by (simp add: pending_ok.simps)
  moreover have "\<not> holds_slot ?s" by (simp add: holds_slot_def)
  ultimately show ?thesis using assms(1)
    by (auto simp: pool_inv_def p' nth_append less_Suc_eq)
qed

lemma pool_step_inv: "pool_inv p \<Longrightarrow> pool_step e p = Some p' \<Longrightarrow> pool_inv p'"
proof (cases e)
  case (Caller_Join i)
  assume "pool_inv p" "pool_step e p = Some p'"
  with Caller_Join show ?thesis
    by (auto split: if_splits worker.splits intro: pending_dropped_inv)
next
  case (Worker_Exit i r)
  assume "pool_inv p" "pool_step e p = Some p'"
  then show ?thesis unfolding Worker_Exit by (rule pool_exit_inv)
qed (auto intro: pool_send_inv pool_acquire_inv pending_dropped_inv worker_start_inv
      split: if_splits)

lemma pool_new_inv: "pool_inv pool_new"
  by (simp add: pool_inv_def pool_new_def)

lemma pool_reaches_inv: "pool_reaches p \<Longrightarrow> pool_inv p"
  by (induction rule: pool_reaches.induct) (rule pool_new_inv, rule pool_step_inv)

definition transferring :: "pending \<Rightarrow> bool" where
  "transferring s \<longleftrightarrow> (case p_worker s of Transferring _ _ \<Rightarrow> True | _ \<Rightarrow> False)"

text \<open>
  C19. The pool is bounded and never loses a slot: in every reachable state the free slots and the
  entries holding one add up to 32, so at most 32 transfers run at the same time; every call's
  request is given to libcurl at most once; and every transfer runs with a finite time limit of at
  least one millisecond (zero would disable libcurl's limit).
\<close>

theorem pool_bounded:
  assumes "pool_reaches p"
  shows "slots_free p + length (filter holds_slot (sends p)) = 32 \<and>
    length (filter transferring (sends p)) \<le> 32 \<and>
    distinct (map fst (transfers p)) \<and>
    (\<forall>(i, _, limit) \<in> set (transfers p). 1000000 \<le> limit)"
proof -
  have inv: "pool_inv p" by (rule pool_reaches_inv [OF assms])
  have "length (filter transferring ss) \<le> length (filter holds_slot ss)" for ss
    by (induction ss) (auto simp: transferring_def holds_slot_def split: worker.splits)
  from this [of "sends p"] inv show ?thesis
    by (auto simp: pool_inv_def MAX_BLOCKING_REQUESTS_def)
qed

fun pool_run :: "pool_event list \<Rightarrow> pool \<Rightarrow> pool option" where
  "pool_run [] p = Some p"
| "pool_run (e # es) p = (case pool_step e p of None \<Rightarrow> None | Some p' \<Rightarrow> pool_run es p')"

lemma pool_run_reaches: "pool_reaches p \<Longrightarrow> pool_run es p = Some p' \<Longrightarrow> pool_reaches p'"
  by (induction es arbitrary: p) (auto split: option.splits intro: pool_next)

lemmas pool_eval = pool_new_def worker_start_def pending_dropped_def Let_def curl_timeout_def
  MAX_BLOCKING_REQUESTS_def timed_out_def

theorem pool_bounded_witness:
  "\<exists>p. pool_run [Send (request_get example_url) 5, Acquire 0, Worker_Start 0 2] pool_new = Some p \<and>
     map (\<lambda>(i, _, limit). (i, limit)) (transfers p) = [(0, 1000000)] \<and>
     length (filter transferring (sends p)) \<le> 32"
proof -
  obtain p where p: "pool_run [Send (request_get example_url) 5, Acquire 0, Worker_Start 0 2]
      pool_new = Some p" "map (\<lambda>(i, _, limit). (i, limit)) (transfers p) = [(0, 1000000)]"
    by (simp add: pool_eval)
  then have "pool_reaches p" using pool_run_reaches [OF pool_start] by blast
  from pool_bounded [OF this] p show ?thesis by auto
qed

text \<open>
  C20. A cancelled call is never sent: once the caller of a queued request has timed out or
  dropped its future, no sequence of later events hands that request to libcurl, even when the
  runtime starts the abandoned closure; the slot it held is free again at once.
\<close>

theorem abandoned_never_sent:
  assumes "pool_reaches p" "i < length (sends p)"
    and "p_caller (sends p ! i) \<notin> {Acquiring, Awaiting}"
    and "i \<notin> fst ` set (transfers p)" "pool_run es p = Some p'"
  shows "i \<notin> fst ` set (transfers p') \<and> \<not> holds_slot (sends p' ! i)"
proof -
  let ?gone = "\<lambda>p. i < length (sends p) \<and> p_caller (sends p ! i) \<notin> {Acquiring, Awaiting} \<and>
    i \<notin> fst ` set (transfers p)"
  have step: "?gone p'" if "pool_inv p" "?gone p" "pool_step e p = Some p'" for e p p'
  proof -
    from that have "p_request (sends p ! i) = None" "\<not> p_permit (sends p ! i)"
      using pool_inv_entry [of p i] by (auto simp: pending_ok.simps)
    with that(2,3) show ?thesis
      by (cases e)
        (auto simp: nth_append nth_list_update pending_dropped_def worker_start_def Let_def
          split: if_splits option.splits bool.splits worker.splits)
  qed
  have "?gone p' \<and> pool_inv p'" if "pool_run es p = Some p'" "pool_inv p" "?gone p" for p
    using that
  proof (induction es arbitrary: p)
    case (Cons e es)
    then obtain q where "pool_step e p = Some q" "pool_run es q = Some p'"
      by (auto split: option.splits)
    then show ?case using Cons step pool_step_inv by blast
  qed simp
  from this [OF assms(5) pool_reaches_inv [OF assms(1)]] assms
  have g: "?gone p'" and inv: "pool_inv p'" by auto
  from g pool_inv_entry [OF inv, of i] show ?thesis by (auto simp: holds_slot_def pending_ok.simps)
qed

theorem abandoned_never_sent_witness:
  "\<exists>p p'. pool_run [Send (request_get example_url) 5, Acquire 0, Caller_Drop 0] pool_new = Some p \<and>
     pool_run [Worker_Start 0 2] p = Some p' \<and> 0 \<notin> fst ` set (transfers p') \<and> slots_free p' = 32"
proof -
  obtain p p' where p: "pool_run [Send (request_get example_url) 5, Acquire 0, Caller_Drop 0]
      pool_new = Some p" "0 < length (sends p)" "p_caller (sends p ! 0) = Dropped" "transfers p = []"
    and p': "pool_run [Worker_Start 0 2] p = Some p'" "slots_free p' = 32"
    by (simp add: pool_eval)
  from pool_run_reaches [OF pool_start p(1)] have "pool_reaches p" .
  from abandoned_never_sent [OF this p(2) _ _ p'(1)] p have "0 \<notin> fst ` set (transfers p')" by simp
  with p(1) p' show ?thesis by blast
qed

end
