(* ===== verification/Totp.thy ===== *)
theory Totp
  imports Errors
begin

unbundle bit_operations_syntax

text \<open>
  \<open>src/authn/totp.rs\<close>: HOTP and TOTP codes. HMAC is wolfCrypt's and a parameter; the truncation,
  the formatting, the comparison and the counter are the source's, on words of their Rust width.
  Indexing out of a digest is a panic in Rust: the outcome \<open>None\<close> of \<open>hotp\<close>.
\<close>

datatype otp_algorithm = Sha1 | Sha256 | Sha512

datatype hmac_type = TYPE_SHA | TYPE_SHA256 | TYPE_SHA512

fun wolfcrypt_type :: "otp_algorithm \<Rightarrow> hmac_type" where
  "wolfcrypt_type Sha1 = TYPE_SHA"
| "wolfcrypt_type Sha256 = TYPE_SHA256"
| "wolfcrypt_type Sha512 = TYPE_SHA512"

text \<open>wolfCrypt's HMAC: initialisation, a keyed object, feeding it, its size and its output.\<close>

record hmac_lib =
  hmac_init :: bool
  hmac_new :: "hmac_type \<Rightarrow> string \<Rightarrow> bool"
  hmac_update :: "hmac_type \<Rightarrow> string \<Rightarrow> string \<Rightarrow> bool"
  hmac_size :: "hmac_type \<Rightarrow> nat option"
  hmac_finalize :: "hmac_type \<Rightarrow> string \<Rightarrow> string \<Rightarrow> string option"

definition hmac :: "hmac_lib \<Rightarrow> hmac_type \<Rightarrow> string \<Rightarrow> string \<Rightarrow> string res" where
  "hmac H t key input =
     (if \<not> hmac_init H then Inl Crypto
      else if \<not> hmac_new H t key then Inl Crypto
      else if \<not> hmac_update H t key input then Inl Crypto
      else (case hmac_size H t of
              None \<Rightarrow> Inl Crypto
            | Some n \<Rightarrow>
                (case hmac_finalize H t key input of
                   None \<Rightarrow> Inl Crypto
                 | Some out \<Rightarrow> Inr (take n (out @ replicate n (char_of (0 :: nat)))))))"

definition byte_word :: "char \<Rightarrow> 8 word" where
  "byte_word c = word_of_nat (code c)"

text \<open>Big-endian bytes of a 64-bit counter, and the 32-bit word of four bytes.\<close>

definition to_be_bytes :: "64 word \<Rightarrow> string" where
  "to_be_bytes w = map (\<lambda>i. char_of (unat (drop_bit (8 * (7 - i)) w) mod 256)) [0..<8]"

definition from_be_bytes :: "char \<Rightarrow> char \<Rightarrow> char \<Rightarrow> char \<Rightarrow> 32 word" where
  "from_be_bytes a b c d =
     push_bit 24 (ucast (byte_word a)) OR push_bit 16 (ucast (byte_word b)) OR
     push_bit 8 (ucast (byte_word c)) OR ucast (byte_word d)"

text \<open>\<open>{value:0width$}\<close>: decimal digits, padded on the left with zeros.\<close>

definition zero_padded :: "nat \<Rightarrow> nat \<Rightarrow> string" where
  "zero_padded width n =
     (let ds = show_nat n in replicate (width - length ds) (CHR ''0'') @ ds)"

definition digest_offset :: "string \<Rightarrow> nat" where
  "digest_offset digest = unat (byte_word (last digest) AND 0x0F)"

definition truncated :: "string \<Rightarrow> 32 word" where
  "truncated digest =
     (let offset = digest_offset digest in
      from_be_bytes (digest ! offset) (digest ! (offset + 1)) (digest ! (offset + 2))
        (digest ! (offset + 3)) AND 0x7FFFFFFF)"

definition hotp ::
  "hmac_lib \<Rightarrow> string \<Rightarrow> 64 word \<Rightarrow> otp_algorithm \<Rightarrow> nat \<Rightarrow> string res option" where
  "hotp H secret counter algorithm digits =
     (if length secret < 16
      then Some (Inl (InvalidConfiguration ''OTP secret must be at least 16 bytes''))
      else if \<not> (6 \<le> digits \<and> digits \<le> 8)
      then Some (Inl (InvalidConfiguration ''OTP digit count must be between 6 and 8''))
      else (case hmac H (wolfcrypt_type algorithm) secret (to_be_bytes counter) of
              Inl e \<Rightarrow> Some (Inl e)
            | Inr digest \<Rightarrow>
                if digest = [] \<or> length digest \<le> digest_offset digest + 3 then None
                else Some (Inr (zero_padded digits
                       (unat (truncated digest mod 10 ^ digits))))))"

definition totp ::
  "hmac_lib \<Rightarrow> string \<Rightarrow> 64 word \<Rightarrow> 32 word \<Rightarrow> otp_algorithm \<Rightarrow> nat \<Rightarrow> string res option" where
  "totp H secret unix_time period algorithm digits =
     (if period = 0 then Some (Inl (InvalidConfiguration ''OTP period must not be zero''))
      else hotp H secret (unix_time div ucast period) algorithm digits)"

text \<open>The loop of \<open>constant_time_eq\<close>: the differences of all byte pairs, or-ed together.\<close>

definition constant_time_eq :: "string \<Rightarrow> string \<Rightarrow> bool" where
  "constant_time_eq left right =
     (if length left \<noteq> length right then False
      else foldl (\<lambda>difference (l, r). difference OR (byte_word l XOR byte_word r)) 0
             (zip left right) = 0)"

definition verify_hotp ::
  "hmac_lib \<Rightarrow> string \<Rightarrow> 64 word \<Rightarrow> otp_algorithm \<Rightarrow> nat \<Rightarrow> string \<Rightarrow> bool res option" where
  "verify_hotp H secret counter algorithm digits otp =
     map_option (\<lambda>r. try_res r (\<lambda>expected. Inr (constant_time_eq expected otp)))
       (hotp H secret counter algorithm digits)"

definition verify_and_advance_hotp ::
  "hmac_lib \<Rightarrow> string \<Rightarrow> otp_algorithm \<Rightarrow> nat \<Rightarrow> string \<Rightarrow> 64 word \<Rightarrow>
   (bool res \<times> 64 word) option" where
  "verify_and_advance_hotp H secret algorithm digits otp counter =
     (case verify_hotp H secret counter algorithm digits otp of
        None \<Rightarrow> None
      | Some (Inl e) \<Rightarrow> Some (Inl e, counter)
      | Some (Inr matched) \<Rightarrow>
          if matched
          then (if counter = - 1
                then Some (Inl (InvalidConfiguration ''HOTP counter exhausted''), counter)
                else Some (Inr True, counter + 1))
          else Some (Inr False, counter))"

definition verify_totp ::
  "hmac_lib \<Rightarrow> string \<Rightarrow> 64 word \<Rightarrow> 32 word \<Rightarrow> otp_algorithm \<Rightarrow> nat \<Rightarrow> string \<Rightarrow>
   bool res option" where
  "verify_totp H secret unix_time period algorithm digits otp =
     map_option (\<lambda>r. try_res r (\<lambda>expected. Inr (constant_time_eq expected otp)))
       (totp H secret unix_time period algorithm digits)"

subsection \<open>The comparison\<close>

lemma byte_word_eq_iff: "byte_word l XOR byte_word r = 0 \<longleftrightarrow> l = r"
proof -
  have "byte_word l = byte_word r \<longleftrightarrow> l = r"
  proof
    assume "byte_word l = byte_word r"
    then have "unat (byte_word l) = unat (byte_word r)" by simp
    then have "code l = code r" by (simp add: byte_word_def unat_of_nat)
    then show "l = r" by simp
  qed simp
  moreover have "(a XOR b = 0) = (a = b)" for a b :: "8 word"
    by (metis xor.assoc xor.left_neutral xor_self_eq)
  ultimately show ?thesis by simp
qed

lemma differences_zero:
  "foldl (\<lambda>difference (l, r). difference OR (byte_word l XOR byte_word r)) d ps = 0 \<longleftrightarrow>
     d = 0 \<and> (\<forall>(l, r) \<in> set ps. l = r)"
proof (induction ps arbitrary: d)
  case (Cons p ps)
  have "(a OR b = 0) = (a = 0 \<and> b = 0)" for a b :: "8 word"
    by (simp add: or_eq_0_iff)
  with Cons show ?case by (cases p) (auto simp: byte_word_eq_iff)
qed simp

lemma constant_time_eq_iff [simp]: "constant_time_eq left right \<longleftrightarrow> left = right"
proof (cases "length left = length right")
  case True
  have "(\<forall>(l, r) \<in> set (zip left right). l = r) \<longleftrightarrow> left = right"
    using True by (induction left right rule: list_induct2) auto
  with True show ?thesis by (simp add: constant_time_eq_def differences_zero)
qed (auto simp: constant_time_eq_def)

subsection \<open>The code\<close>

lemma digits_value_zeros: "digits_value (replicate k (CHR ''0'') @ ds) = digits_value ds"
proof -
  have "foldl (\<lambda>n c. 10 * n + (code c - 0x30)) 0 (replicate k (CHR ''0'')) = 0"
    by (induction k) (simp_all add: of_char_def)
  then show ?thesis by (simp add: digits_value_def)
qed

lemma show_nat_length: "0 < k \<Longrightarrow> n < 10 ^ k \<Longrightarrow> length (show_nat n) \<le> k"
proof (induction n arbitrary: k rule: show_nat.induct)
  case (1 n)
  show ?case
  proof (cases "n < 10")
    case True
    then have "show_nat n = [digit_char n]" by (subst show_nat.simps) simp
    with 1(2) show ?thesis by simp
  next
    case False
    then have split: "show_nat n = show_nat (n div 10) @ [digit_char (n mod 10)]"
      by (subst show_nat.simps) simp
    have k: "1 < k"
    proof (rule ccontr)
      assume "\<not> 1 < k"
      with 1(2) have "k = 1" by simp
      with 1(3) False show False by simp
    qed
    then have "(10 :: nat) ^ k = 10 * 10 ^ (k - 1)" by (cases k) simp_all
    with 1(3) have "n div 10 < 10 ^ (k - 1)" by (simp add: div_less_iff_less_mult mult.commute)
    from 1(1) [OF False _ this] k show ?thesis by (simp add: split)
  qed
qed

lemma zero_padded_spec:
  assumes "0 < k" "n < 10 ^ k"
  shows "length (zero_padded k n) = k" "list_all is_digit (zero_padded k n)"
    "digits_value (zero_padded k n) = n"
proof -
  show "length (zero_padded k n) = k"
    using show_nat_length [OF assms] by (simp add: zero_padded_def Let_def)
  have "is_digit (CHR ''0'')" by (simp add: is_digit_def of_char_def)
  then show "list_all is_digit (zero_padded k n)"
    using show_nat_digits [of n] by (auto simp: zero_padded_def Let_def list_all_iff)
  show "digits_value (zero_padded k n) = n"
    by (simp add: zero_padded_def Let_def digits_value_zeros)
qed

lemma digest_offset_bound: "digest_offset digest < 16"
proof -
  have "w AND 0x0F = take_bit 4 w" for w :: "8 word"
    by (simp add: take_bit_eq_mask mask_eq_exp_minus_1)
  then have "digest_offset digest = take_bit 4 (unat (byte_word (last digest)))"
    by (simp add: digest_offset_def unsigned_take_bit_eq)
  then show ?thesis by (simp add: take_bit_nat_less_exp [of 4, simplified])
qed

lemma modulus_word:
  assumes "k \<le> 8"
  shows "unat (w mod 10 ^ k :: 32 word) = unat w mod 10 ^ k" "unat (w mod 10 ^ k) < 10 ^ k"
proof -
  have "k \<in> {0, 1, 2, 3, 4, 5, 6, 7, 8}" using assms by auto
  then have "unat (10 ^ k :: 32 word) = 10 ^ k" by auto
  then show "unat (w mod 10 ^ k :: 32 word) = unat w mod 10 ^ k" "unat (w mod 10 ^ k) < 10 ^ k"
    by (simp_all add: unat_mod_distrib)
qed

lemma hmac_length:
  "hmac H t key input = Inr digest \<Longrightarrow> \<exists>n. hmac_size H t = Some n \<and> length digest = n"
  by (auto simp: hmac_def split: if_splits option.splits)

text \<open>
  C38. HOTP codes: with digests of at least 19 bytes (wolfCrypt's have 20, 32 or 64) the dynamic
  truncation never indexes out of the digest, so \<open>hotp\<close> never panics; a code it returns has
  exactly the requested 6 to 8 decimal digits, and they are the low 31 bits read at the digest's
  offset, reduced modulo \<open>10 ^ digits\<close>; short secrets and other digit counts are refused.
\<close>

theorem hotp_code:
  assumes sizes: "\<forall>t n. hmac_size H t = Some n \<longrightarrow> 19 \<le> n"
  shows "(case hotp H secret counter algorithm digits of
      None \<Rightarrow> False
    | Some (Inl e) \<Rightarrow> True
    | Some (Inr otp) \<Rightarrow> 6 \<le> digits \<and> digits \<le> 8 \<and> 16 \<le> length secret \<and>
        length otp = digits \<and> list_all is_digit otp \<and>
        (\<exists>digest. hmac H (wolfcrypt_type algorithm) secret (to_be_bytes counter) = Inr digest \<and>
           digits_value otp = unat (truncated digest) mod 10 ^ digits))"
proof (cases "16 \<le> length secret \<and> 6 \<le> digits \<and> digits \<le> 8")
  case False
  then show ?thesis by (auto simp: hotp_def)
next
  case guards: True
  show ?thesis
  proof (cases "hmac H (wolfcrypt_type algorithm) secret (to_be_bytes counter)")
    case (Inl e)
    with guards show ?thesis by (simp add: hotp_def)
  next
    case (Inr digest)
    with hmac_length [OF this] sizes have len: "19 \<le> length digest" by auto
    then have "digest \<noteq> []" "digest_offset digest + 3 < length digest"
      using digest_offset_bound [of digest] by auto
    with guards Inr zero_padded_spec [OF _ modulus_word(2) [of digits "truncated digest"]]
    show ?thesis by (simp add: hotp_def modulus_word(1))
  qed
qed

definition example_hmac :: hmac_lib where
  "example_hmac = \<lparr>hmac_init = True, hmac_new = (\<lambda>_ _. True), hmac_update = (\<lambda>_ _ _. True),
     hmac_size = (\<lambda>_. Some 20), hmac_finalize = (\<lambda>_ _ input. Some (replicate 20 (last input)))\<rparr>"

theorem hotp_code_witness:
  "(\<exists>otp. hotp example_hmac ''12345678901234567890'' 7 Sha1 6 = Some (Inr otp) \<and> length otp = 6)"
proof -
  have "\<forall>t n. hmac_size example_hmac t = Some n \<longrightarrow> 19 \<le> n" by (simp add: example_hmac_def)
  note code = hotp_code [OF this, where secret = "''12345678901234567890''" and counter = 7
    and algorithm = Sha1 and digits = 6]
  have "hmac example_hmac TYPE_SHA key (to_be_bytes 7) =
      Inr (replicate 20 (last (to_be_bytes 7)))" for key
    by (simp add: hmac_def example_hmac_def)
  then have "hotp example_hmac ''12345678901234567890'' 7 Sha1 6 \<noteq> Some (Inl e)" for e
    by (simp add: hotp_def)
  with code show ?thesis by (auto split: option.splits sum.splits)
qed

text \<open>
  The HOTP counter: verification reports a match exactly when the given code is the expected
  one, and only a reported match moves the counter, by exactly one and never past the largest
  64-bit value (there it is an error); on a mismatch or any error the counter is unchanged.
\<close>

theorem hotp_counter:
  "verify_and_advance_hotp H secret algorithm digits otp counter =
     (case hotp H secret counter algorithm digits of
        None \<Rightarrow> None
      | Some (Inl e) \<Rightarrow> Some (Inl e, counter)
      | Some (Inr expected) \<Rightarrow>
          if otp \<noteq> expected then Some (Inr False, counter)
          else if unat counter = u64_max
          then Some (Inl (InvalidConfiguration ''HOTP counter exhausted''), counter)
          else Some (Inr True, word_of_nat (unat counter + 1)))"
proof -
  have max: "counter = - 1 \<longleftrightarrow> unat counter = u64_max"
    by (simp add: word_unat_eq_iff unsigned_minus_1_eq_mask mask_eq_exp_minus_1)
  have "word_of_nat (unat counter + 1) = counter + 1" by simp
  with max show ?thesis
    by (auto simp: verify_and_advance_hotp_def verify_hotp_def split: option.splits sum.splits)
qed

end
