(* ===== verification/Crypto_Mod.thy ===== *)
theory Crypto_Mod
  imports Deps
begin

text \<open>
  \<open>src/crypto.rs\<close>: the wrapper over wolfCrypt. The library's primitives are fields of
  \<open>'w deps\<close>; what is modelled is the order of the checks around them, the selection of the key
  fields by algorithm and the fixed-size buffers the primitives write into. The initialisation
  result is remembered by a \<open>OnceLock\<close>, so it is one Boolean.
\<close>

definition crypto_init :: "'w deps \<Rightarrow> unit res" where
  "crypto_init D = (if wolf_init D then Inr () else Inl Crypto)"

text \<open>A buffer of \<open>n\<close> zero bytes a primitive writes its output into.\<close>

definition fill_buffer :: "nat \<Rightarrow> string \<Rightarrow> string" where
  "fill_buffer n out = take n (out @ replicate n (char_of (0 :: nat)))"

lemma length_fill_buffer [simp]: "length (fill_buffer n out) = n"
  by (simp add: fill_buffer_def)

lemma fill_buffer_full [simp]: "length out = n \<Longrightarrow> fill_buffer n out = out"
  by (simp add: fill_buffer_def)

definition sha256 :: "'w deps \<Rightarrow> string \<Rightarrow> string res" where
  "sha256 D bytes =
     try_res (crypto_init D) (\<lambda>_.
       (case wolf_sha256 D bytes of None \<Rightarrow> Inl Crypto | Some out \<Rightarrow> Inr (fill_buffer 32 out)))"

definition rng :: "'w deps \<Rightarrow> ('w, unit) act" where
  "rng D =
     try_io (lift (crypto_init D)) (\<lambda>_.
       (\<lambda>w. case wolf_rng_new D w of (ok, w') \<Rightarrow> (if ok then Inr () else Inl Crypto, w')))"

definition random_bytes :: "'w deps \<Rightarrow> nat \<Rightarrow> ('w, string) act" where
  "random_bytes D n =
     try_io (rng D) (\<lambda>_.
       try_io (attempt (wolf_random D n) Crypto) (\<lambda>out. ret (fill_buffer n out)))"

subsection \<open>Verifying a signature with a JWK\<close>

definition jwk_field :: "'w deps \<Rightarrow> json \<Rightarrow> string \<Rightarrow> string res" where
  "jwk_field D jwk name =
     (case str_field jwk name of
        None \<Rightarrow> Inl (TokenValidation ''missing JWK field'')
      | Some encoded \<Rightarrow> ok_or (b64_decode D encoded) (TokenValidation ''invalid JWK encoding''))"

definition verify_rsa_size ::
  "'w deps \<Rightarrow> nat \<Rightarrow> string \<Rightarrow> string \<Rightarrow> string \<Rightarrow> string \<Rightarrow> unit res" where
  "verify_rsa_size D N n e message bytes =
     (if \<not> rsa_key_ok D N n e then Inl (TokenValidation ''invalid RSA key'')
      else if \<not> rsa_signature_ok D N bytes
        then Inl (TokenValidation ''invalid RSA signature length'')
      else if \<not> rsa_verify D N n e message bytes then Inl (TokenValidation ''invalid signature'')
      else Inr ())"

definition verify_rsa :: "'w deps \<Rightarrow> json \<Rightarrow> string \<Rightarrow> string \<Rightarrow> unit res" where
  "verify_rsa D jwk message signature =
     (if str_field jwk ''kty'' \<noteq> Some ''RSA''
      then Inl (TokenValidation ''JWK type does not match algorithm'')
      else try_res (jwk_field D jwk ''n'') (\<lambda>modulus.
        try_res (jwk_field D jwk ''e'') (\<lambda>exponent.
          if length modulus = 256 then verify_rsa_size D 256 modulus exponent message signature
          else if length modulus = 384 then verify_rsa_size D 384 modulus exponent message signature
          else if length modulus = 512 then verify_rsa_size D 512 modulus exponent message signature
          else Inl (TokenValidation ''unsupported RSA key size''))))"

text \<open>The uncompressed point: a tag byte and the two coordinates.\<close>

definition verify_ec :: "'w deps \<Rightarrow> json \<Rightarrow> string \<Rightarrow> string \<Rightarrow> unit res" where
  "verify_ec D jwk message bytes =
     (if str_field jwk ''kty'' \<noteq> Some ''EC'' \<or> str_field jwk ''crv'' \<noteq> Some ''P-256''
      then Inl (TokenValidation ''JWK curve does not match algorithm'')
      else try_res (jwk_field D jwk ''x'') (\<lambda>x.
        try_res (jwk_field D jwk ''y'') (\<lambda>y.
          if length x \<noteq> 32 \<or> length y \<noteq> 32 then Inl (TokenValidation ''invalid P-256 point'')
          else (let public = char_of (4 :: nat) # x @ y in
            if \<not> p256_signature_ok D bytes
            then Inl (TokenValidation ''invalid ECDSA signature length'')
            else if \<not> p256_verify D public message bytes
            then Inl (TokenValidation ''invalid signature'')
            else Inr ()))))"

definition verify :: "'w deps \<Rightarrow> string \<Rightarrow> json \<Rightarrow> string \<Rightarrow> string \<Rightarrow> unit res" where
  "verify D alg jwk message signature =
     try_res (crypto_init D) (\<lambda>_.
       if alg = ''RS256'' then verify_rsa D jwk message signature
       else if alg = ''ES256'' then verify_ec D jwk message signature
       else Inl (TokenValidation ''unsupported signing algorithm''))"

subsection \<open>What the wrapper guarantees\<close>

lemma sha256_length: "sha256 D bytes = Inr digest \<Longrightarrow> length digest = 32"
  by (auto simp: sha256_def split: option.splits)

lemma random_bytes_length: "random_bytes D n w = (Inr out, w') \<Longrightarrow> length out = n"
  by (auto simp: random_bytes_def try_io_eq_Inr)

lemma rng_error: "rng D w = (Inl e, w') \<Longrightarrow> e = Crypto"
  by (auto simp: rng_def try_io_eq_Inl crypto_init_def split: prod.splits if_splits)

lemma random_bytes_error: "random_bytes D n w = (Inl e, w') \<Longrightarrow> e = Crypto"
  by (auto simp: random_bytes_def try_io_eq_Inl dest: rng_error)

lemma jwk_field_Inr:
  "jwk_field D jwk name = Inr v \<longleftrightarrow>
     (\<exists>encoded. str_field jwk name = Some encoded \<and> b64_decode D encoded = Some v)"
  by (auto simp: jwk_field_def split: option.splits)

lemma verify_rsa_size_ok:
  "verify_rsa_size D N n e message bytes = Inr u \<longleftrightarrow>
     rsa_key_ok D N n e \<and> rsa_signature_ok D N bytes \<and> rsa_verify D N n e message bytes"
  by (simp add: verify_rsa_size_def)

lemma verify_rsa_ok:
  "verify_rsa D jwk message signature = Inr u \<longleftrightarrow>
     str_field jwk ''kty'' = Some ''RSA'' \<and>
     (\<exists>n e. jwk_field D jwk ''n'' = Inr n \<and> jwk_field D jwk ''e'' = Inr e \<and>
        length n \<in> {256, 384, 512} \<and> rsa_key_ok D (length n) n e \<and>
        rsa_signature_ok D (length n) signature \<and> rsa_verify D (length n) n e message signature)"
  by (auto simp: verify_rsa_def verify_rsa_size_ok split: if_splits)

lemma verify_ec_ok:
  "verify_ec D jwk message bytes = Inr u \<longleftrightarrow>
     str_field jwk ''kty'' = Some ''EC'' \<and> str_field jwk ''crv'' = Some ''P-256'' \<and>
     (\<exists>x y. jwk_field D jwk ''x'' = Inr x \<and> jwk_field D jwk ''y'' = Inr y \<and>
        length x = 32 \<and> length y = 32 \<and> p256_signature_ok D bytes \<and>
        p256_verify D (char_of (4 :: nat) # x @ y) message bytes)"
  by (auto simp: verify_ec_def Let_def split: if_splits)

text \<open>
  C17. Acceptance of a signature, with no confusion between algorithms: \<open>verify\<close> accepts exactly
  when wolfCrypt is initialised and either the algorithm is \<open>RS256\<close> and an RSA key of 2048, 3072
  or 4096 bits read from the JWK's \<open>n\<close> and \<open>e\<close> verifies the message, or it is \<open>ES256\<close> and the
  65-byte point of a P-256 JWK's 32-byte \<open>x\<close> and \<open>y\<close> does; any other algorithm name, key type,
  curve or size is refused.
\<close>

theorem verify_exact:
  "verify D alg jwk message signature = Inr () \<longleftrightarrow>
     wolf_init D \<and>
     ((alg = ''RS256'' \<and> str_field jwk ''kty'' = Some ''RSA'' \<and>
       (\<exists>n e. jwk_field D jwk ''n'' = Inr n \<and> jwk_field D jwk ''e'' = Inr e \<and>
          length n \<in> {256, 384, 512} \<and> rsa_key_ok D (length n) n e \<and>
          rsa_signature_ok D (length n) signature \<and>
          rsa_verify D (length n) n e message signature)) \<or>
      (alg = ''ES256'' \<and> str_field jwk ''kty'' = Some ''EC'' \<and>
       str_field jwk ''crv'' = Some ''P-256'' \<and>
       (\<exists>x y. jwk_field D jwk ''x'' = Inr x \<and> jwk_field D jwk ''y'' = Inr y \<and>
          length x = 32 \<and> length y = 32 \<and> p256_signature_ok D signature \<and>
          p256_verify D (char_of (4 :: nat) # x @ y) message signature)))"
  by (simp add: verify_def crypto_init_def verify_rsa_ok verify_ec_ok)

end
