(* ===== verification/Authenticator.thy ===== *)
theory Authenticator
  imports Crypto_Mod
begin

unbundle bit_operations_syntax

text \<open>
  \<open>src/authenticator/mod.rs\<close>, the interface a caller's key-touch implements, and
  \<open>src/authenticator/software.rs\<close>, the virtual authenticator: one credential whose signature
  counter only moves after an assertion was signed and encoded. The signing key and the DER
  encoder are wolfCrypt's, parameters here; the \<open>RefCell\<close> is a flag for a borrow in progress.
\<close>

subsection \<open>The interface\<close>

datatype user_verification = Required | Preferred | Discouraged

record credential_descriptor =
  cd_id :: string

record webauthn_challenge =
  wc_rp_id :: string
  wc_challenge :: string
  wc_allow_credentials :: "credential_descriptor list"
  wc_user_verification :: user_verification
  wc_origin :: string

record webauthn_get_request =
  wr_rp_id :: string
  wr_client_data_hash :: string
  wr_allow_credentials :: "credential_descriptor list"
  wr_user_verification :: user_verification

record webauthn_assertion =
  wa_authenticator_data :: string
  wa_signature :: string
  wa_credential_id :: string
  wa_user_handle :: "string option"

subsection \<open>The software authenticator\<close>

definition AUTHENTICATOR_DATA_LEN :: nat where "AUTHENTICATOR_DATA_LEN = 37"
definition FLAG_UP :: "8 word" where "FLAG_UP = 0x01"
definition FLAG_UV :: "8 word" where "FLAG_UV = 0x04"
definition MAX_ALLOW_CREDENTIALS :: nat where "MAX_ALLOW_CREDENTIALS = 64"
definition MAX_CREDENTIAL_ID_LEN :: nat where "MAX_CREDENTIAL_ID_LEN = 1023"

text \<open>wolfCrypt's P-256 key (with its generator's state) and its DER encoder of a signature.\<close>

record ('k, 'w) signer =
  key_generate :: "'w \<Rightarrow> 'k option \<times> 'w"
  key_public :: "'k \<Rightarrow> string"
  try_sign :: "'k \<Rightarrow> string \<Rightarrow> string option \<times> 'k"
  rs_bin_to_sig :: "string \<Rightarrow> string \<Rightarrow> string option"

record 'k credential =
  signing_key :: 'k
  cred_rp_id :: string
  cred_id :: string
  sign_count :: "32 word"

record 'k authenticator =
  borrowed :: bool
  credential :: "'k credential"

definition new_credential ::
  "'w deps \<Rightarrow> ('k, 'w) signer \<Rightarrow> string \<Rightarrow> ('w, 'k credential) act" where
  "new_credential D S rp_id =
     (if rp_id = [] then throw (InvalidConfiguration ''empty authenticator RP ID'')
      else try_io (random_bytes D 32) (\<lambda>id.
        try_io (rng D) (\<lambda>_.
        try_io (attempt (key_generate S) Crypto) (\<lambda>key.
          ret \<lparr>signing_key = key, cred_rp_id = rp_id, cred_id = id, sign_count = 0\<rparr>))))"

definition new_authenticator ::
  "'w deps \<Rightarrow> ('k, 'w) signer \<Rightarrow> string \<Rightarrow> ('w, 'k authenticator) act" where
  "new_authenticator D S rp_id =
     try_io (new_credential D S rp_id) (\<lambda>c. ret \<lparr>borrowed = False, credential = c\<rparr>)"

definition credential_id :: "'k authenticator \<Rightarrow> string" where
  "credential_id a = cred_id (credential a)"

definition public_key :: "('k, 'w) signer \<Rightarrow> 'k authenticator \<Rightarrow> string" where
  "public_key S a = key_public S (signing_key (credential a))"

definition validate_request :: "'k credential \<Rightarrow> webauthn_get_request \<Rightarrow> unit res" where
  "validate_request c request =
     (if wr_rp_id request = [] \<or> MAX_ALLOW_CREDENTIALS < length (wr_allow_credentials request) \<or>
         list_ex (\<lambda>allowed. cd_id allowed = [] \<or> MAX_CREDENTIAL_ID_LEN < length (cd_id allowed))
           (wr_allow_credentials request)
      then Inl AuthenticationRejected
      else if wr_rp_id request \<noteq> cred_rp_id c then Inl AuthenticationRejected
      else if \<not> list_ex (\<lambda>allowed. cd_id allowed = cred_id c) (wr_allow_credentials request)
      then Inl AuthenticationRejected
      else if wr_user_verification request = Required then Inl UnsupportedFactor
      else Inr ())"

definition u32_be_bytes :: "32 word \<Rightarrow> string" where
  "u32_be_bytes w = map (\<lambda>i. char_of (unat (drop_bit (8 * (3 - i)) w) mod 256)) [0..<4]"

definition build_assertion_authenticator_data :: "string \<Rightarrow> 8 word \<Rightarrow> 32 word \<Rightarrow> string" where
  "build_assertion_authenticator_data rp_id_hash flags count =
     rp_id_hash @ [char_of (unat flags)] @ u32_be_bytes count"

definition assertion_authenticator_data ::
  "'w deps \<Rightarrow> string \<Rightarrow> bool \<Rightarrow> 32 word \<Rightarrow> string res" where
  "assertion_authenticator_data D rp_id user_verified count =
     try_res (sha256 D rp_id) (\<lambda>rp_id_hash.
       Inr (build_assertion_authenticator_data rp_id_hash
              (if user_verified then FLAG_UP OR FLAG_UV else FLAG_UP) count))"

text \<open>The assertion the code makes once the message is signed: DER of the two halves.\<close>

definition encode_assertion ::
  "('k, 'w) signer \<Rightarrow> string \<Rightarrow> string \<Rightarrow> string \<Rightarrow> webauthn_assertion res" where
  "encode_assertion S bytes key_id raw =
     (case rs_bin_to_sig S (take 32 raw) (drop 32 raw) of
        None \<Rightarrow> Inl Crypto
      | Some der \<Rightarrow> Inr \<lparr>wa_authenticator_data = bytes, wa_signature = der,
                           wa_credential_id = key_id, wa_user_handle = None\<rparr>)"

definition get_assertion ::
  "'w deps \<Rightarrow> ('k, 'w) signer \<Rightarrow> webauthn_get_request \<Rightarrow> ('k authenticator, webauthn_assertion) act"
where
  "get_assertion D S request a =
     (if borrowed a then (Inl Crypto, a)
      else (let c = credential a in
        case validate_request c request of
          Inl e \<Rightarrow> (Inl e, a)
        | Inr _ \<Rightarrow>
            if sign_count c = - 1 then (Inl AuthenticationRejected, a)
            else (let next_count = sign_count c + 1 in
              case assertion_authenticator_data D (cred_rp_id c) False next_count of
                Inl e \<Rightarrow> (Inl e, a)
              | Inr bytes \<Rightarrow>
                  (case try_sign S (signing_key c) (bytes @ wr_client_data_hash request) of
                     (None, key) \<Rightarrow> (Inl Crypto, a\<lparr>credential := c\<lparr>signing_key := key\<rparr>\<rparr>)
                   | (Some raw, key) \<Rightarrow>
                       (case encode_assertion S bytes (cred_id c) raw of
                          Inl e \<Rightarrow> (Inl e, a\<lparr>credential := c\<lparr>signing_key := key\<rparr>\<rparr>)
                        | Inr assertion \<Rightarrow>
                            (Inr assertion, a\<lparr>credential :=
                               c\<lparr>signing_key := key, sign_count := next_count\<rparr>\<rparr>))))))"

subsection \<open>The counter in the bytes\<close>

text \<open>The last four bytes of authenticator data, read as a relying party does.\<close>

definition be_value :: "string \<Rightarrow> nat" where
  "be_value s = foldl (\<lambda>n c. 256 * n + code c) 0 s"

definition data_counter :: "string \<Rightarrow> nat" where
  "data_counter bytes = be_value (drop 33 bytes)"

lemma unat_drop_bit: "unat (drop_bit k w) = unat w div 2 ^ k" for w :: "32 word"
proof -
  have "take_bit LENGTH(32) (unat w) = unat w" using unsigned_less [of w]
    by (simp add: take_bit_nat_eq_self_iff)
  with unsigned_drop_bit_eq [of k w, where 'a = nat] have "unat (drop_bit k w) = drop_bit k (unat w)"
    by argo
  then show ?thesis by (metis drop_bit_eq_div)
qed

lemma be_value_four:
  fixes n :: nat
  assumes "n < 4294967296"
  shows "256 * (256 * (256 * (n div 16777216 mod 256) + n div 65536 mod 256) + n div 256 mod 256) +
    n mod 256 = n"
proof -
  define a where "a = n div 256"
  define b where "b = a div 256"
  define c where "c = b div 256"
  have "n div 65536 = b" "n div 16777216 = c"
    by (simp_all add: a_def b_def c_def flip: div_mult2_eq)
  moreover have "c < 256" using assms by (simp add: c_def b_def a_def flip: div_mult2_eq)
  moreover have "256 * c + b mod 256 = b" "256 * b + a mod 256 = a" "256 * a + n mod 256 = n"
    by (simp_all add: a_def b_def c_def)
  ultimately show ?thesis by (simp flip: a_def)
qed

lemma be_value_u32 [simp]: "be_value (u32_be_bytes w) = unat w"
proof -
  have "unat w < 4294967296" using unsigned_less [of w] by simp
  from be_value_four [OF this] this show ?thesis
    by (simp add: be_value_def u32_be_bytes_def unat_drop_bit upt_rec)
qed

lemma length_u32_be_bytes [simp]: "length (u32_be_bytes w) = 4"
  by (simp add: u32_be_bytes_def)

lemma data_counter_build:
  "length h = 32 \<Longrightarrow> data_counter (build_assertion_authenticator_data h flags w) = unat w"
  by (simp add: data_counter_def build_assertion_authenticator_data_def)

text \<open>Every success of \<open>get_assertion\<close>, with what it saw on the way.\<close>

lemma get_assertion_ok:
  assumes "get_assertion D S request a = (Inr assertion, a')"
  shows "\<not> borrowed a" "validate_request (credential a) request = Inr ()"
    "sign_count (credential a) \<noteq> - 1"
    "wa_credential_id assertion = cred_id (credential a)"
    "\<exists>h. sha256 D (cred_rp_id (credential a)) = Inr h \<and>
       wa_authenticator_data assertion =
         build_assertion_authenticator_data h FLAG_UP (sign_count (credential a) + 1)"
    "borrowed a' = False" "sign_count (credential a') = sign_count (credential a) + 1"
    "cred_id (credential a') = cred_id (credential a)"
    "cred_rp_id (credential a') = cred_rp_id (credential a)"
    "wa_user_handle assertion = None"
    "\<exists>raw. try_sign S (signing_key (credential a))
         (wa_authenticator_data assertion @ wr_client_data_hash request) =
         (Some raw, signing_key (credential a')) \<and>
       rs_bin_to_sig S (take 32 raw) (drop 32 raw) = Some (wa_signature assertion)"
  using assms
  by (auto simp: get_assertion_def Let_def encode_assertion_def assertion_authenticator_data_def
      split: if_splits sum.splits prod.splits option.splits)

lemma get_assertion_error:
  assumes "get_assertion D S request a = (Inl e, a')"
  shows "sign_count (credential a') = sign_count (credential a) \<and> borrowed a' = borrowed a \<and>
    cred_id (credential a') = cred_id (credential a) \<and>
    cred_rp_id (credential a') = cred_rp_id (credential a)"
  using assms
  by (auto simp: get_assertion_def Let_def split: if_splits sum.splits prod.splits option.splits)

subsection \<open>The contract of an adapter\<close>

text \<open>
  What a caller of \<open>WebAuthnAdapter::get_assertion\<close> relies on, for any adapter: an assertion is
  for an allowed credential and carries the next value of a counter that fits 32 bits; a refused
  request leaves the counter alone. What follows for a relying party is proved once, here: the
  counters of the assertions it sees in any run strictly increase, whatever failed in between,
  so a cloned authenticator is detectable.
\<close>

fun adapter_run ::
  "(webauthn_get_request \<Rightarrow> ('s, webauthn_assertion) act) \<Rightarrow> webauthn_get_request list \<Rightarrow> 's \<Rightarrow>
   webauthn_assertion list" where
  "adapter_run adapter [] s = []"
| "adapter_run adapter (request # requests) s =
     (case adapter request s of
        (Inl _, s') \<Rightarrow> adapter_run adapter requests s'
      | (Inr a, s') \<Rightarrow> a # adapter_run adapter requests s')"

locale webauthn_adapter =
  fixes assertion :: "webauthn_get_request \<Rightarrow> ('s, webauthn_assertion) act"
    and count :: "'s \<Rightarrow> nat"
  assumes counts: "assertion request s = (Inr a, s') \<Longrightarrow>
      count s' = count s + 1 \<and> count s' < 2 ^ 32 \<and>
      data_counter (wa_authenticator_data a) = count s' \<and>
      wa_credential_id a \<in> set (map cd_id (wr_allow_credentials request))"
    and keeps_count: "assertion request s = (Inl e, s') \<Longrightarrow> count s' = count s"
begin

lemma run_above: "a \<in> set (adapter_run assertion requests s) \<Longrightarrow> count s < data_counter (wa_authenticator_data a)"
proof (induction requests arbitrary: s)
  case (Cons request requests s)
  show ?case
  proof (cases "assertion request s")
    case (Pair r s')
    with Cons counts [of request s] keeps_count [of request s] show ?thesis
      by (cases r) fastforce+
  qed
qed simp

lemma run_increasing:
  "sorted_wrt (<) (map (\<lambda>a. data_counter (wa_authenticator_data a)) (adapter_run assertion requests s))"
proof (induction requests arbitrary: s)
  case (Cons request requests s)
  show ?case
  proof (cases "assertion request s")
    case (Pair r s')
    with Cons counts [of request s] run_above [of _ requests s'] show ?thesis
      by (cases r) auto
  qed
qed simp

end

lemma get_assertion_counts:
  assumes "get_assertion D S request a = (Inr assertion, a')"
  shows "unat (sign_count (credential a')) = unat (sign_count (credential a)) + 1 \<and>
    unat (sign_count (credential a')) < 2 ^ 32 \<and>
    data_counter (wa_authenticator_data assertion) = unat (sign_count (credential a')) \<and>
    wa_credential_id assertion \<in> set (map cd_id (wr_allow_credentials request))"
proof -
  let ?n = "sign_count (credential a)"
  note ok = get_assertion_ok [OF assms]
  have "1 + ?n \<noteq> 0" using ok(3) by (metis add_eq_0_iff)
  then have "unat (?n + 1) = unat ?n + 1" using unatSuc [of ?n] by (simp add: add.commute)
  moreover from ok(5) have "data_counter (wa_authenticator_data assertion) = unat (?n + 1)"
    by (auto dest: sha256_length simp: data_counter_build)
  moreover have "unat (?n + 1) < 2 ^ 32" using unsigned_less [of "?n + 1"] by simp
  moreover from ok(2) have "cred_id (credential a) \<in> set (map cd_id (wr_allow_credentials request))"
    by (auto simp: validate_request_def list_ex_iff intro: rev_image_eqI split: if_splits)
  ultimately show ?thesis using ok(4,7) by metis
qed

interpretation software: webauthn_adapter "get_assertion D S"
  "\<lambda>a. unat (sign_count (credential a))" for D S
proof unfold_locales
  fix request s a s'
  assume "get_assertion D S request s = (Inr a, s')"
  then show "unat (sign_count (credential s')) = unat (sign_count (credential s)) + 1 \<and>
      unat (sign_count (credential s')) < 2 ^ 32 \<and>
      data_counter (wa_authenticator_data a) = unat (sign_count (credential s')) \<and>
      wa_credential_id a \<in> set (map cd_id (wr_allow_credentials request))"
    by (rule get_assertion_counts)
next
  fix request s e s'
  assume "get_assertion D S request s = (Inl e, s')"
  from get_assertion_error [OF this]
  show "unat (sign_count (credential s')) = unat (sign_count (credential s))" by simp
qed

text \<open>
  C37. Signature counters never repeat: over any sequence of requests to the software
  authenticator, refused and failed ones included, the counters in the authenticator data of the
  assertions it returns strictly increase, and all are above the counter it started with.
\<close>

theorem assertion_counters_increase:
  "sorted_wrt (<) (unat (sign_count (credential a)) #
     map (\<lambda>w. data_counter (wa_authenticator_data w)) (adapter_run (get_assertion D S) requests a))"
  using software.run_increasing software.run_above by auto

text \<open>
  C36. An assertion is given only for a sound request, and is what a relying party checks: the
  relying party is the credential's own, the allow list has at most 64 entries, each an ID of 1 to
  1023 bytes, and names this credential, user verification is not required; the 37 bytes of
  authenticator data are the hash of the relying party ID, the flags saying presence without
  verification, and the incremented counter, which has not wrapped and is the one now stored; and
  the signature is the credential key's, over these 37 bytes followed by the client data hash.
\<close>

theorem get_assertion_sound:
  assumes "get_assertion D S request a = (Inr assertion, a')"
  shows "wr_rp_id request = cred_rp_id (credential a) \<and> wr_rp_id request \<noteq> [] \<and>
    length (wr_allow_credentials request) \<le> 64 \<and>
    list_all (\<lambda>allowed. 1 \<le> length (cd_id allowed) \<and> length (cd_id allowed) \<le> 1023)
      (wr_allow_credentials request) \<and>
    cred_id (credential a) \<in> set (map cd_id (wr_allow_credentials request)) \<and>
    wa_credential_id assertion = cred_id (credential a) \<and> wa_user_handle assertion = None \<and>
    wr_user_verification request \<noteq> Required \<and>
    length (wa_authenticator_data assertion) = 37 \<and>
    sha256 D (wr_rp_id request) = Inr (take 32 (wa_authenticator_data assertion)) \<and>
    code (wa_authenticator_data assertion ! 32) = 1 \<and>
    data_counter (wa_authenticator_data assertion) = unat (sign_count (credential a)) + 1 \<and>
    unat (sign_count (credential a')) = unat (sign_count (credential a)) + 1 \<and>
    (\<exists>raw. try_sign S (signing_key (credential a))
         (wa_authenticator_data assertion @ wr_client_data_hash request) =
         (Some raw, signing_key (credential a')) \<and>
       rs_bin_to_sig S (take 32 raw) (drop 32 raw) = Some (wa_signature assertion))"
proof -
  note ok = get_assertion_ok [OF assms]
  from ok(5) obtain h where h: "sha256 D (cred_rp_id (credential a)) = Inr h"
    "wa_authenticator_data assertion =
       build_assertion_authenticator_data h FLAG_UP (sign_count (credential a) + 1)" by blast
  have "length h = 32" by (rule sha256_length [OF h(1)])
  with h have "length (wa_authenticator_data assertion) = 37"
    "take 32 (wa_authenticator_data assertion) = h" "code (wa_authenticator_data assertion ! 32) = 1"
    by (simp_all add: build_assertion_authenticator_data_def FLAG_UP_def nth_append)
  moreover have "wr_rp_id request = cred_rp_id (credential a) \<and> wr_rp_id request \<noteq> [] \<and>
      length (wr_allow_credentials request) \<le> 64 \<and> wr_user_verification request \<noteq> Required \<and>
      cred_id (credential a) \<in> set (map cd_id (wr_allow_credentials request))"
    using ok(2) by (auto simp: validate_request_def MAX_ALLOW_CREDENTIALS_def list_ex_iff
        intro: rev_image_eqI split: if_splits)
  moreover have "list_all (\<lambda>allowed. 1 \<le> length (cd_id allowed) \<and> length (cd_id allowed) \<le> 1023)
      (wr_allow_credentials request)"
    using ok(2) by (auto simp: validate_request_def MAX_CREDENTIAL_ID_LEN_def list_ex_iff
        list_all_iff Suc_le_eq not_less split: if_splits)
  ultimately show ?thesis
    using h(1) get_assertion_counts [OF assms] ok(4,10,11) by auto
qed

definition example_signer :: "(unit, unit) signer" where
  "example_signer = \<lparr>key_generate = (\<lambda>w. (Some (), w)), key_public = (\<lambda>_. []),
     try_sign = (\<lambda>k m. (Some (replicate 64 (CHR ''s'')), k)), rs_bin_to_sig = (\<lambda>r s. Some (r @ s))\<rparr>"

definition example_authenticator :: "unit authenticator" where
  "example_authenticator = \<lparr>borrowed = False, credential =
     \<lparr>signing_key = (), cred_rp_id = ''kc.test'', cred_id = ''id'', sign_count = 41\<rparr>\<rparr>"

theorem get_assertion_sound_witness:
  "\<exists>w a. get_assertion no_deps example_signer
      \<lparr>wr_rp_id = ''kc.test'', wr_client_data_hash = [], wr_allow_credentials = [\<lparr>cd_id = ''id''\<rparr>],
       wr_user_verification = Preferred\<rparr> example_authenticator = (Inr w, a) \<and>
     data_counter (wa_authenticator_data w) = 42"
proof -
  let ?r = "\<lparr>wr_rp_id = ''kc.test'', wr_client_data_hash = [], wr_allow_credentials = [\<lparr>cd_id = ''id''\<rparr>],
       wr_user_verification = Preferred\<rparr>"
  obtain w a where wa: "get_assertion no_deps example_signer ?r example_authenticator = (Inr w, a)"
    by (simp add: get_assertion_def validate_request_def example_authenticator_def example_signer_def
        assertion_authenticator_data_def sha256_def crypto_init_def no_deps_def encode_assertion_def
        MAX_ALLOW_CREDENTIALS_def MAX_CREDENTIAL_ID_LEN_def)
  from get_assertion_sound [OF this] have "data_counter (wa_authenticator_data w) = 42"
    by (simp add: example_authenticator_def)
  with wa show ?thesis by blast
qed

end
