(* ===== verification/Flow_Types.thy ===== *)
theory Flow_Types
  imports Authenticator
begin

text \<open>
  The public contract of \<open>src/flow/mod.rs\<close>: steps, challenges, answers and tokens, and what
  dropping a value leaves in its buffers. The lifecycle of a login is in \<open>Flow\<close>.
\<close>

subsection \<open>Challenges\<close>

record otp_device =
  device_id :: string
  device_label :: string

record auth_method =
  method_id :: string
  method_label :: string

record form_field =
  ff_name :: string
  ff_label :: string
  ff_secret :: bool

record required_action =
  ra_kind :: string
  ra_message :: "string option"
  ra_fields :: "form_field list"

datatype challenge =
    Ask_Username
  | Ask_Password
  | Ask_OneTimeCode "otp_device list"
  | Ask_RecoveryCode "nat option"
  | Ask_WebAuthn webauthn_challenge
  | Ask_ChooseMethod "auth_method list"
  | Ask_RequiredAction required_action
  | Ask_Info string

datatype input_style = Hidden | Visible | No_Input | Form_Input

fun challenge_input :: "challenge \<Rightarrow> input_style" where
  "challenge_input Ask_Password = Hidden"
| "challenge_input (Ask_OneTimeCode devices) = Hidden"
| "challenge_input (Ask_RecoveryCode hint) = Hidden"
| "challenge_input Ask_Username = Visible"
| "challenge_input (Ask_ChooseMethod methods) = Visible"
| "challenge_input (Ask_RequiredAction action) = Form_Input"
| "challenge_input (Ask_WebAuthn request) = No_Input"
| "challenge_input (Ask_Info message) = No_Input"

subsection \<open>Answers\<close>

datatype answer =
    Username string
  | Password string
  | OneTimeCode string "string option"
  | RecoveryCode string
  | WebAuthn webauthn_assertion
  | ChooseMethod string
  | RequiredAction "(string \<times> string) list"
  | Acknowledge

text \<open>What is left of an answer's own buffers when it is dropped.\<close>

fun answer_dropped :: "answer \<Rightarrow> answer" where
  "answer_dropped (Password secret) = Password []"
| "answer_dropped (RecoveryCode secret) = RecoveryCode []"
| "answer_dropped (OneTimeCode otp device) = OneTimeCode [] device"
| "answer_dropped (RequiredAction pairs) = RequiredAction (map (\<lambda>(name, _). (name, [])) pairs)"
| "answer_dropped a = a"

text \<open>The secret texts an answer holds: passwords, codes and the values of a required action.\<close>

fun answer_secrets :: "answer \<Rightarrow> string list" where
  "answer_secrets (Password secret) = [secret]"
| "answer_secrets (RecoveryCode secret) = [secret]"
| "answer_secrets (OneTimeCode otp device) = [otp]"
| "answer_secrets (RequiredAction pairs) = map snd pairs"
| "answer_secrets a = []"

lemma answer_dropped_secrets: "list_all (\<lambda>s. s = []) (answer_secrets (answer_dropped a))"
  by (cases a) (auto simp: list_all_iff)

subsection \<open>Tokens and steps\<close>

record tokens =
  access_token :: string
  refresh_token :: "string option"
  id_token :: "string option"
  verified_subject :: "string option"
  verified_issuer :: "string option"
  verified_client_id :: "string option"
  verified_refresh_token :: "string option"

text \<open>\<open>zeroize\<close> of an \<open>Option\<close> wipes the text and leaves \<open>None\<close>; the two \<open>if let\<close> wipe in place.\<close>

definition tokens_dropped :: "tokens \<Rightarrow> tokens" where
  "tokens_dropped t =
     t\<lparr>access_token := [],
       refresh_token := map_option (\<lambda>_. []) (refresh_token t),
       id_token := map_option (\<lambda>_. []) (id_token t),
       verified_subject := None, verified_issuer := None, verified_client_id := None,
       verified_refresh_token := None\<rparr>"

definition token_secrets :: "tokens \<Rightarrow> string list" where
  "token_secrets t =
     access_token t # concat (map (case_option [] (\<lambda>s. [s]))
       [refresh_token t, id_token t, verified_subject t, verified_issuer t, verified_client_id t,
        verified_refresh_token t])"

lemma tokens_dropped_secrets: "list_all (\<lambda>s. s = []) (token_secrets (tokens_dropped t))"
  by (auto simp: token_secrets_def tokens_dropped_def list_all_iff split: option.splits)

text \<open>
  Secrets do not outlive their owners: after an answer or a token set is dropped, no buffer
  it owned still holds a password, a code, a required-action value, a token or an identity.
\<close>

theorem dropped_secrets:
  "concat (answer_secrets (answer_dropped a)) = [] \<and> concat (token_secrets (tokens_dropped t)) = []"
  using answer_dropped_secrets [of a] tokens_dropped_secrets [of t]
  by (auto simp: list_all_iff)

datatype auth_step =
    Challenge challenge
  | Complete tokens
  | Failed string

end
