(* ===== verification/Classify.thy ===== *)
theory Classify
  imports Flow_Types
begin

text \<open>
  \<open>src/flow/classify.rs\<close>: one pass over the tokens of a page into a \<open>scan\<close>, and the decision
  which Keycloak page it is, from the names of its form controls only. The tokens are
  \<open>html5gum\<close>'s, a field of \<open>'w deps\<close>. A decrement of a zero depth and an index out of the tiles
  would panic: \<open>scan_end\<close> is \<open>None\<close> there, and the invariant below shows it never is.
\<close>

definition DEVICE_ID_PREFIX :: string where "DEVICE_ID_PREFIX = ''kc-otp-credential-''"

definition LOGIN_FIELDS :: "string list" where
  "LOGIN_FIELDS = [''username'', ''password'', ''credentialId'', ''rememberMe'', ''login'']"

definition OTP_FIELDS :: "string list" where
  "OTP_FIELDS = [''otp'', ''selectedCredentialId'', ''login'']"

datatype page_kind =
    UsernamePassword "string option"
  | OneTimeCodePage "otp_device list"
  | Unknown

fun rejection :: "page_kind \<Rightarrow> string option" where
  "rejection (UsernamePassword err) = err"
| "rejection (OneTimeCodePage devices) = None"
| "rejection Unknown = None"

record control =
  control_name :: string
  control_kind :: string
  control_value :: string
  control_checked :: bool

record tile =
  tile_index :: nat
  tile_credential :: "string option"
  tile_is_input :: bool
  tile_text :: string

datatype capture_target = Label string | Tile nat | FieldError

record capture =
  cap_target :: capture_target
  cap_tag :: string
  cap_depth :: nat
  cap_text :: string

record scan =
  forms :: nat
  in_form :: bool
  scan_action :: "string option"
  scan_method :: "string option"
  controls :: "control list"
  labels :: "(string \<times> string) list"
  tiles :: "tile list"
  errors :: "string list"
  scan_capture :: "capture option"
  templates :: nat
  suspicious :: bool

definition scan_new :: scan where
  "scan_new = \<lparr>forms = 0, in_form = False, scan_action = None, scan_method = None, controls = [],
     labels = [], tiles = [], errors = [], scan_capture = None, templates = 0, suspicious = False\<rparr>"

subsection \<open>Reading attributes and texts\<close>

definition is_field_error :: "string \<Rightarrow> bool" where
  "is_field_error id_attr \<longleftrightarrow>
     id_attr = ''input-error'' \<or>
     (case strip_prefix ''input-error-'' id_attr of
        None \<Rightarrow> False
      | Some rest \<Rightarrow> rest \<noteq> [] \<and> \<not> starts_with ''container-'' rest)"

definition attribute :: "start_tag \<Rightarrow> string \<Rightarrow> string option" where
  "attribute tag name =
     map_option (\<lambda>(_, v). from_utf8_lossy v) (find (\<lambda>(key, _). key = name) (attributes tag))"

text \<open>\<open>onclick="toggleOTP(<index>, '<id>')"\<close>.\<close>

definition toggle_credential :: "string \<Rightarrow> nat \<Rightarrow> string option" where
  "toggle_credential onclick index =
     Option.bind (strip_prefix ''toggleOTP('' (trim_end_matches (\<lambda>c. c = CHR '';'') (trim onclick)))
       (\<lambda>call. Option.bind (strip_suffix '')'' call)
       (\<lambda>arguments. Option.bind (split_once (CHR '','') arguments)
       (\<lambda>(position, credential). Option.bind (parse_u64 (trim position))
       (\<lambda>parsed. if parsed \<noteq> index then None
         else (case trim credential of
             [] \<Rightarrow> None
           | quote_char # quoted \<Rightarrow>
               if quote_char \<noteq> QUOTE \<and> quote_char \<noteq> DQUOTE then None
               else Option.bind (strip_suffix [quote_char] quoted)
                 (\<lambda>key. if key \<noteq> [] \<and> QUOTE \<notin> set key \<and> DQUOTE \<notin> set key \<and> BACKSLASH \<notin> set key
                        then Some key else None))))))"

definition is_formatting :: "nat \<Rightarrow> bool" where
  "is_formatting cp \<longleftrightarrow>
     cp = 0x061C \<or> 0x200B \<le> cp \<and> cp \<le> 0x200F \<or> 0x202A \<le> cp \<and> cp \<le> 0x202E \<or>
     0x2066 \<le> cp \<and> cp \<le> 0x2069 \<or> cp = 0xFEFF"

definition clean_label :: "string \<Rightarrow> string" where
  "clean_label text =
     string_of (join_with [0x20]
       (split_whitespace (filter (\<lambda>c. \<not> is_control c \<and> \<not> is_formatting c) (chars text))))"

subsection \<open>One pass over the tokens\<close>

definition scan_begin :: "capture_target \<Rightarrow> string \<Rightarrow> bool \<Rightarrow> scan \<Rightarrow> scan" where
  "scan_begin target tag closing s =
     (if scan_capture s = None \<and> \<not> closing
      then s\<lparr>scan_capture := Some \<lparr>cap_target = target, cap_tag = tag, cap_depth = 1, cap_text = []\<rparr>\<rparr>
      else s)"

definition scan_control :: "start_tag \<Rightarrow> scan \<Rightarrow> scan" where
  "scan_control tag s =
     (let s1 = (if attribute tag ''form'' \<noteq> None \<or> attribute tag ''formaction'' \<noteq> None
                then s\<lparr>suspicious := True\<rparr> else s)
      in case attribute tag ''name'' of
           None \<Rightarrow> s1
         | Some name \<Rightarrow>
             if name = [] then s1
             else if \<not> in_form s1 then s1\<lparr>suspicious := True\<rparr>
             else s1\<lparr>controls := controls s1 @
               [\<lparr>control_name = name,
                 control_kind = (case attribute tag ''type'' of
                     Some kind \<Rightarrow> to_ascii_lowercase kind
                   | None \<Rightarrow> if tag_name tag = ''button'' then ''submit'' else ''text''),
                 control_value = (case attribute tag ''value'' of None \<Rightarrow> [] | Some v \<Rightarrow> v),
                 control_checked = (attribute tag ''checked'' \<noteq> None)\<rparr>]\<rparr>)"

text \<open>The parts of \<open>start\<close> after the template check: nesting, the element itself, its ID.\<close>

definition scan_nest :: "start_tag \<Rightarrow> scan \<Rightarrow> scan" where
  "scan_nest tag s =
     s\<lparr>scan_capture := map_option (\<lambda>c.
         if cap_tag c = tag_name tag \<and> \<not> self_closing tag then c\<lparr>cap_depth := cap_depth c + 1\<rparr>
         else c) (scan_capture s)\<rparr>"

definition scan_element :: "start_tag \<Rightarrow> scan \<Rightarrow> scan" where
  "scan_element tag s =
     (let name = tag_name tag in
      if name = ''form'' then
        (if in_form s then s\<lparr>suspicious := True\<rparr>
         else s\<lparr>in_form := True, forms := forms s + 1, scan_action := attribute tag ''action'',
                scan_method := attribute tag ''method''\<rparr>)
      else if name \<in> {''input'', ''select'', ''textarea'', ''button''} then scan_control tag s
      else if name = ''label'' then
        (case attribute tag ''for'' of
           None \<Rightarrow> s | Some target \<Rightarrow> scan_begin (Label target) name (self_closing tag) s)
      else s)"

definition scan_error_id :: "start_tag \<Rightarrow> scan \<Rightarrow> scan" where
  "scan_error_id tag s =
     (case attribute tag ''id'' of
        None \<Rightarrow> s
      | Some key \<Rightarrow>
          if is_field_error key then scan_begin FieldError (tag_name tag) (self_closing tag) s else s)"

definition scan_tile :: "start_tag \<Rightarrow> scan \<Rightarrow> scan" where
  "scan_tile tag s =
     (case Option.bind (attribute tag ''id'')
             (\<lambda>key. Option.bind (strip_prefix DEVICE_ID_PREFIX key) parse_u64) of
        None \<Rightarrow> s
      | Some index \<Rightarrow>
          (let is_input = (tag_name tag = ''input'');
               credential = (if is_input then attribute tag ''value''
                 else Option.bind (attribute tag ''onclick'')
                        (\<lambda>onclick. toggle_credential onclick index));
               s1 = s\<lparr>tiles := tiles s @ [\<lparr>tile_index = index, tile_credential = credential,
                        tile_is_input = is_input, tile_text = []\<rparr>]\<rparr>
           in if is_input then s1
              else scan_begin (Tile (length (tiles s1) - 1)) (tag_name tag) (self_closing tag) s1))"

definition scan_start :: "start_tag \<Rightarrow> scan \<Rightarrow> scan" where
  "scan_start tag s =
     (let s1 = (if tag_name tag = ''template'' \<and> \<not> self_closing tag
                then s\<lparr>templates := templates s + 1\<rparr> else s)
      in if 0 < templates s1 then s1
         else scan_tile tag (scan_error_id tag (scan_element tag (scan_nest tag s1))))"

text \<open>The text of a closed capture goes to its target.\<close>

fun scan_close :: "capture_target \<Rightarrow> string \<Rightarrow> scan \<Rightarrow> scan option" where
  "scan_close (Label target) text s = Some (s\<lparr>labels := labels s @ [(target, text)]\<rparr>)"
| "scan_close (Tile index) text s =
     (if index < length (tiles s)
      then Some (s\<lparr>tiles := (tiles s)[index := (tiles s ! index)\<lparr>tile_text := text\<rparr>]\<rparr>)
      else None)"
| "scan_close FieldError text s =
     (let message = clean_label text in
      Some (if message \<noteq> [] then s\<lparr>errors := errors s @ [message]\<rparr> else s))"

definition scan_end :: "string \<Rightarrow> scan \<Rightarrow> scan option" where
  "scan_end name s =
     (if 0 < templates s
      then Some (if name = ''template'' then s\<lparr>templates := templates s - 1\<rparr> else s)
      else (let s1 = (if name = ''form'' then s\<lparr>in_form := False\<rparr> else s) in
        case scan_capture s1 of
          None \<Rightarrow> Some s1
        | Some c \<Rightarrow>
            if cap_tag c \<noteq> name then Some s1
            else if cap_depth c = 0 then None
            else if 0 < cap_depth c - 1
            then Some (s1\<lparr>scan_capture := Some (c\<lparr>cap_depth := cap_depth c - 1\<rparr>)\<rparr>)
            else scan_close (cap_target c) (cap_text c) (s1\<lparr>scan_capture := None\<rparr>)))"

fun scan_token :: "html_token \<Rightarrow> scan \<Rightarrow> scan option" where
  "scan_token (StartTag tag) s = Some (scan_start tag s)"
| "scan_token (EndTag name) s = scan_end name s"
| "scan_token (Text text) s =
     Some (if templates s = 0
           then s\<lparr>scan_capture := map_option
             (\<lambda>c. c\<lparr>cap_text := cap_text c @ from_utf8_lossy text\<rparr>) (scan_capture s)\<rparr>
           else s)"
| "scan_token OtherToken s = Some s"

fun scan_tokens :: "html_token list \<Rightarrow> scan \<Rightarrow> scan option" where
  "scan_tokens [] s = Some s"
| "scan_tokens (t # ts) s = Option.bind (scan_token t s) (scan_tokens ts)"

definition scan_run :: "'w deps \<Rightarrow> string \<Rightarrow> scan option" where
  "scan_run D html = scan_tokens (tokenize D html) scan_new"

definition scan_dropped :: "scan \<Rightarrow> scan" where
  "scan_dropped s = s\<lparr>scan_action := None,
     controls := map (\<lambda>c. c\<lparr>control_value := []\<rparr>) (controls s)\<rparr>"

subsection \<open>Which page it is\<close>

definition scan_has :: "scan \<Rightarrow> string \<Rightarrow> bool" where
  "scan_has s name = list_ex (\<lambda>c. control_name c = name) (controls s)"

definition scan_only :: "scan \<Rightarrow> string list \<Rightarrow> bool" where
  "scan_only s allowed = list_all (\<lambda>c. control_name c \<in> set allowed) (controls s)"

definition scan_unique :: "scan \<Rightarrow> bool" where
  "scan_unique s =
     list_all (\<lambda>i. let c = controls s ! i in
         control_kind c = ''radio'' \<and> control_name c = ''selectedCredentialId'' \<or>
         \<not> list_ex (\<lambda>earlier. control_name earlier = control_name c) (take i (controls s)))
       [0..<length (controls s)]"

definition tile_device :: "(string \<times> string) list \<Rightarrow> tile \<Rightarrow> otp_device option" where
  "tile_device lbls t =
     (case tile_credential t of
        None \<Rightarrow> None
      | Some key \<Rightarrow>
          if key = [] then None
          else Option.bind
            (if tile_is_input t
             then map_option snd
               (find (\<lambda>(target, _). target = DEVICE_ID_PREFIX @ show_nat (tile_index t)) lbls)
             else Some (tile_text t))
            (\<lambda>text. let label = clean_label text in
               if label = [] then None else Some \<lparr>device_id = key, device_label = label\<rparr>))"

definition consistent ::
  "string list \<Rightarrow> string list \<Rightarrow> string list \<Rightarrow> tile list \<Rightarrow> bool" where
  "consistent ids radios hidden ts =
     (case (radios = [], hidden) of
        (False, []) \<Rightarrow> radios = ids \<and> list_all tile_is_input ts
      | (True, [default_id]) \<Rightarrow>
          ids = [] \<or> default_id \<in> set ids \<and> list_all (\<lambda>t. \<not> tile_is_input t) ts
      | (True, []) \<Rightarrow> ids = []
      | _ \<Rightarrow> False)"

definition scan_devices :: "scan \<Rightarrow> otp_device list option" where
  "scan_devices s =
     (let ts = sort_key tile_index (tiles s) in
      if map tile_index ts \<noteq> [0..<length ts] then None
      else Option.bind (collect_opt (map (tile_device (labels s)) ts)) (\<lambda>devices.
        let ids = map device_id devices in
        if \<not> no_repeat ids then None
        else (let selected = filter (\<lambda>c. control_name c = ''selectedCredentialId'') (controls s);
                  radios = map control_value (filter (\<lambda>c. control_kind c = ''radio'') selected);
                  hidden = map control_value (filter (\<lambda>c. control_kind c = ''hidden'') selected)
              in if length radios + length hidden \<noteq> length selected then None
                 else if consistent ids radios hidden ts then Some devices else None)))"

definition scan_kind :: "scan \<Rightarrow> page_kind option" where
  "scan_kind s =
     (if suspicious s \<or> forms s \<noteq> 1 then None
      else if scan_has s ''username'' \<and> scan_has s ''password''
      then (if scan_only s LOGIN_FIELDS \<and> scan_unique s \<and> tiles s = []
            then Some (UsernamePassword (case errors s of [] \<Rightarrow> None | e # _ \<Rightarrow> Some e)) else None)
      else if scan_has s ''otp'' \<and> \<not> scan_has s ''password'' \<and> scan_only s OTP_FIELDS \<and>
              scan_unique s
      then map_option OneTimeCodePage (scan_devices s)
      else None)"

definition classify :: "'w deps \<Rightarrow> string \<Rightarrow> page_kind option" where
  "classify D body =
     (case from_utf8 body of
        None \<Rightarrow> Some Unknown
      | Some html \<Rightarrow>
          map_option (\<lambda>s. case scan_kind s of None \<Rightarrow> Unknown | Some k \<Rightarrow> k) (scan_run D html))"

subsection \<open>The pass never panics\<close>

definition scan_ok :: "scan \<Rightarrow> bool" where
  "scan_ok s \<longleftrightarrow>
     (\<forall>c. scan_capture s = Some c \<longrightarrow> 0 < cap_depth c \<and>
        (\<forall>i. cap_target c = Tile i \<longrightarrow> i < length (tiles s))) \<and>
     list_all (\<lambda>c. control_name c \<noteq> []) (controls s) \<and>
     list_all (\<lambda>e. \<exists>text. e = clean_label text \<and> e \<noteq> []) (errors s)"

lemma scan_ok_irrelevant [simp]:
  "scan_ok (s\<lparr>suspicious := b\<rparr>) = scan_ok s"
  "scan_ok (s\<lparr>in_form := b\<rparr>) = scan_ok s"
  "scan_ok (s\<lparr>forms := n\<rparr>) = scan_ok s"
  "scan_ok (s\<lparr>templates := n\<rparr>) = scan_ok s"
  "scan_ok (s\<lparr>labels := ls\<rparr>) = scan_ok s"
  "scan_ok (s\<lparr>scan_action := a\<rparr>) = scan_ok s"
  "scan_ok (s\<lparr>scan_method := a\<rparr>) = scan_ok s"
  by (simp_all add: scan_ok_def)

lemma scan_new_ok: "scan_ok scan_new"
  by (simp add: scan_ok_def scan_new_def)

lemma scan_begin_ok [inv_intros]:
  "scan_ok s \<Longrightarrow> (\<And>i. target = Tile i \<Longrightarrow> i < length (tiles s)) \<Longrightarrow>
   scan_ok (scan_begin target tag closing s)"
  by (auto simp: scan_ok_def scan_begin_def)

lemma scan_control_ok [inv_intros]: "scan_ok s \<Longrightarrow> scan_ok (scan_control tag s)"
  by (auto simp: scan_ok_def scan_control_def Let_def split: option.splits)

lemma scan_nest_ok [inv_intros]: "scan_ok s \<Longrightarrow> scan_ok (scan_nest tag s)"
  by (auto simp: scan_ok_def scan_nest_def split: if_splits)

lemma scan_element_ok [inv_intros]: "scan_ok s \<Longrightarrow> scan_ok (scan_element tag s)"
  by (cases "attribute tag ''for''")
    (auto simp: scan_element_def Let_def intro!: scan_begin_ok scan_control_ok)

lemma scan_error_id_ok [inv_intros]: "scan_ok s \<Longrightarrow> scan_ok (scan_error_id tag s)"
  by (auto simp: scan_error_id_def intro: scan_begin_ok split: option.splits)

lemma scan_tile_ok [inv_intros]: "scan_ok s \<Longrightarrow> scan_ok (scan_tile tag s)"
  by (auto simp: scan_tile_def Let_def intro!: scan_begin_ok split: option.splits)
    (auto simp: scan_ok_def less_Suc_eq)

lemma scan_start_ok: "scan_ok s \<Longrightarrow> scan_ok (scan_start tag s)"
  by (auto simp: scan_start_def Let_def intro!: inv_intros)

lemma scan_close_ok:
  assumes "scan_ok s" "scan_capture s = None" "\<And>i. target = Tile i \<Longrightarrow> i < length (tiles s)"
  shows "\<exists>s'. scan_close target text s = Some s' \<and> scan_ok s'"
  using assms by (cases target) (auto simp: scan_ok_def Let_def)

lemma scan_end_ok:
  assumes "scan_ok s"
  shows "\<exists>s'. scan_end name s = Some s' \<and> scan_ok s'"
proof (cases "scan_capture s")
  case None
  with assms show ?thesis by (auto simp: scan_end_def Let_def)
next
  case (Some c)
  define s1 where "s1 = (if name = ''form'' then s\<lparr>in_form := False\<rparr> else s)"
  have s1: "scan_ok s1" "scan_capture s1 = Some c" "tiles s1 = tiles s"
    using assms Some by (auto simp: s1_def)
  have depth: "0 < cap_depth c" "\<And>i. cap_target c = Tile i \<Longrightarrow> i < length (tiles s1)"
    using s1 by (auto simp: scan_ok_def)
  have "\<exists>s'. scan_close (cap_target c) (cap_text c) (s1\<lparr>scan_capture := None\<rparr>) = Some s' \<and> scan_ok s'"
    using s1 depth(2) by (intro scan_close_ok) (auto simp: scan_ok_def)
  moreover have "scan_ok (s1\<lparr>scan_capture := Some (c\<lparr>cap_depth := cap_depth c - 1\<rparr>)\<rparr>)"
    if "0 < cap_depth c - 1"
    using s1 that depth(2) by (auto simp: scan_ok_def)
  ultimately show ?thesis
    using assms s1 depth(1) unfolding scan_end_def s1_def [symmetric] by (auto simp: Let_def)
qed

lemma scan_token_ok: "scan_ok s \<Longrightarrow> \<exists>s'. scan_token t s = Some s' \<and> scan_ok s'"
proof (cases t)
  case (Text chunk)
  assume "scan_ok s"
  then show ?thesis unfolding Text by (auto simp: scan_ok_def)
qed (auto intro: scan_start_ok scan_end_ok)

lemma scan_tokens_ok: "scan_ok s \<Longrightarrow> \<exists>s'. scan_tokens ts s = Some s' \<and> scan_ok s'"
proof (induction ts arbitrary: s)
  case (Cons t ts)
  from scan_token_ok [OF Cons.prems] obtain s' where "scan_token t s = Some s'" "scan_ok s'"
    by blast
  with Cons.IH show ?case by simp
qed simp

lemma scan_run_ok: "\<exists>s. scan_run D html = Some s \<and> scan_ok s"
  unfolding scan_run_def by (rule scan_tokens_ok [OF scan_new_ok])

text \<open>
  C27. Scanning any page is total: whatever tokens the page has, nested or unclosed elements and
  stray end tags included, the pass neither indexes outside the device tiles nor decrements a zero
  depth, so \<open>classify\<close> always returns a page kind.
\<close>

theorem classify_total: "\<exists>kind. classify D body = Some kind"
  using scan_run_ok [of D body] by (auto simp: classify_def split: option.splits)

subsection \<open>Templates are inert\<close>

definition opens_template :: "html_token \<Rightarrow> bool" where
  "opens_template t =
     (case t of StartTag tag \<Rightarrow> tag_name tag = ''template'' \<and> \<not> self_closing tag | _ \<Rightarrow> False)"

text \<open>Tokens whose templates are properly nested.\<close>

inductive well_nested :: "html_token list \<Rightarrow> bool" where
  nested_empty: "well_nested []"
| nested_plain: "\<not> opens_template t \<Longrightarrow> t \<noteq> EndTag ''template'' \<Longrightarrow> well_nested ts \<Longrightarrow>
     well_nested (t # ts)"
| nested_template: "opens_template t \<Longrightarrow> well_nested inner \<Longrightarrow> well_nested ts \<Longrightarrow>
     well_nested (t # inner @ EndTag ''template'' # ts)"

lemma scan_tokens_append:
  "scan_tokens (xs @ ys) s = Option.bind (scan_tokens xs s) (scan_tokens ys)"
  by (induction xs arbitrary: s) (auto split: bind_splits)

lemma inside_template_plain:
  "0 < templates s \<Longrightarrow> \<not> opens_template t \<Longrightarrow> t \<noteq> EndTag ''template'' \<Longrightarrow> scan_token t s = Some s"
  by (cases t) (auto simp: opens_template_def scan_start_def scan_end_def)

lemma open_template:
  "opens_template t \<Longrightarrow> scan_token t s = Some (s\<lparr>templates := templates s + 1\<rparr>)"
  by (cases t) (auto simp: opens_template_def scan_start_def Let_def)

lemma close_template:
  "0 < templates s \<Longrightarrow>
   scan_token (EndTag ''template'') s = Some (s\<lparr>templates := templates s - 1\<rparr>)"
  by (simp add: scan_end_def)

lemma inside_template: "well_nested ts \<Longrightarrow> 0 < templates s \<Longrightarrow> scan_tokens ts s = Some s"
  by (induction ts arbitrary: s rule: well_nested.induct)
    (simp_all add: inside_template_plain scan_tokens_append open_template close_template
      del: scan_token.simps)

text \<open>
  Template contents are inert: a template element, whatever properly nested tokens it holds,
  forms and inputs included, leaves no trace in the scan: the page is classified as if the element
  were not there, wherever it stands.
\<close>

theorem template_inert:
  assumes "opens_template t" "well_nested inner"
  shows "scan_tokens (before @ t # inner @ EndTag ''template'' # rest) s =
    scan_tokens (before @ rest) s"
proof -
  have "scan_tokens (t # inner @ EndTag ''template'' # rest) s' = scan_tokens rest s'" for s'
    using assms by (simp add: scan_tokens_append open_template inside_template close_template
        del: scan_token.simps)
  then have "scan_tokens (t # inner @ EndTag ''template'' # rest) = scan_tokens rest" by blast
  then show ?thesis by (simp only: scan_tokens_append)
qed

definition template_tag :: html_token where
  "template_tag = StartTag \<lparr>tag_name = ''template'', self_closing = False, attributes = []\<rparr>"

theorem template_inert_witness:
  "scan_tokens ([] @ template_tag #
      [StartTag \<lparr>tag_name = ''form'', self_closing = False, attributes = [(''action'', ''/evil'')]\<rparr>] @
      EndTag ''template'' # []) scan_new = Some scan_new"
proof -
  have "opens_template template_tag" by (simp add: opens_template_def template_tag_def)
  moreover have "well_nested
      [StartTag \<lparr>tag_name = ''form'', self_closing = False, attributes = [(''action'', ''/evil'')]\<rparr>]"
    by (intro well_nested.intros) (simp_all add: opens_template_def)
  ultimately have "scan_tokens ([] @ template_tag #
      [StartTag \<lparr>tag_name = ''form'', self_closing = False, attributes = [(''action'', ''/evil'')]\<rparr>] @
      EndTag ''template'' # []) scan_new = scan_tokens ([] @ []) scan_new"
    by (rule template_inert)
  then show ?thesis by simp
qed

subsection \<open>What a recognised page guarantees\<close>

lemma scan_has_iff: "scan_has s name \<longleftrightarrow> name \<in> set (map control_name (controls s))"
  by (auto simp: scan_has_def list_ex_iff)

lemma scan_only_iff: "scan_only s allowed \<longleftrightarrow> set (map control_name (controls s)) \<subseteq> set allowed"
  by (auto simp: scan_only_def list_all_iff)

text \<open>Away from the device radios, \<open>unique\<close> says that no control name repeats.\<close>

lemma scan_unique_distinct:
  assumes "''selectedCredentialId'' \<notin> set (map control_name (controls s))"
  shows "scan_unique s \<longleftrightarrow> distinct (map control_name (controls s))"
proof -
  have "control_name (controls s ! i) \<noteq> ''selectedCredentialId''" if "i < length (controls s)" for i
    using assms that by (metis image_eqI list.set_map nth_mem)
  note not_selected = this
  have seen: "list_ex (\<lambda>earlier. control_name earlier = n) cs \<longleftrightarrow> n \<in> control_name ` set cs" for n cs
    by (auto simp: list_ex_iff)
  have "scan_unique s \<longleftrightarrow> (\<forall>i < length (controls s).
      control_name (controls s ! i) \<notin> control_name ` set (take i (controls s)))"
    unfolding scan_unique_def Let_def seen list_all_iff by (auto simp: not_selected)
  then show ?thesis by (simp add: distinct_iff_take take_map)
qed

text \<open>
  C25. The login page, exactly: a page is classified as the username and password page if and only
  if it has one form, no control submits elsewhere or outside the form, its control names include
  \<open>username\<close> and \<open>password\<close>, are all on the allow-list and never repeat, and it shows no device;
  the message reported is its first field error.
\<close>

theorem login_page_exact:
  "scan_kind s = Some (UsernamePassword err) \<longleftrightarrow>
     \<not> suspicious s \<and> forms s = 1 \<and>
     {''username'', ''password''} \<subseteq> set (map control_name (controls s)) \<and>
     set (map control_name (controls s)) \<subseteq>
       {''username'', ''password'', ''credentialId'', ''rememberMe'', ''login''} \<and>
     distinct (map control_name (controls s)) \<and> tiles s = [] \<and>
     err = (if errors s = [] then None else Some (hd (errors s)))"
proof -
  have unique: "scan_unique s \<longleftrightarrow> distinct (map control_name (controls s))"
    if "scan_only s LOGIN_FIELDS"
    using that by (intro scan_unique_distinct) (auto simp: scan_only_iff LOGIN_FIELDS_def)
  have first: "(case errors s of [] \<Rightarrow> None | e # _ \<Rightarrow> Some e) =
      (if errors s = [] then None else Some (hd (errors s)))" by (cases "errors s") auto
  have names: "set LOGIN_FIELDS =
      {''username'', ''password'', ''credentialId'', ''rememberMe'', ''login''}"
    by (auto simp: LOGIN_FIELDS_def)
  have "scan_kind s = Some (UsernamePassword err) \<longleftrightarrow>
      \<not> suspicious s \<and> forms s = 1 \<and> scan_has s ''username'' \<and> scan_has s ''password'' \<and>
      scan_only s LOGIN_FIELDS \<and> scan_unique s \<and> tiles s = [] \<and>
      err = (if errors s = [] then None else Some (hd (errors s)))"
    unfolding scan_kind_def first by auto
  also have "\<dots> \<longleftrightarrow> \<not> suspicious s \<and> forms s = 1 \<and> scan_has s ''username'' \<and>
      scan_has s ''password'' \<and> scan_only s LOGIN_FIELDS \<and>
      distinct (map control_name (controls s)) \<and> tiles s = [] \<and>
      err = (if errors s = [] then None else Some (hd (errors s)))"
    using unique by blast
  finally show ?thesis
    by (simp only: scan_has_iff scan_only_iff names insert_subset empty_subsetI simp_thms conj_assoc)
qed










subsection \<open>Labels shown in a terminal\<close>

lemma join_with_set: "set (join_with sep ws) \<subseteq> set sep \<union> \<Union> (set ` set ws)"
  by (induction sep ws rule: join_with.induct) auto

text \<open>
  Terminal safety of labels and messages: whatever text a page gives, its cleaned form is a
  sequence of non-empty words separated by single spaces, and no word has a control character, a
  bidirectional or zero-width formatting character, or any other white space.
\<close>

theorem clean_label_safe:
  "\<exists>ws. chars (clean_label shown) = join_with [0x20] ws \<and>
     list_all (\<lambda>w. w \<noteq> [] \<and>
       list_all (\<lambda>c. \<not> is_control c \<and> \<not> is_formatting c \<and> \<not> is_whitespace c) w) ws"
proof -
  define kept where "kept = filter (\<lambda>c. \<not> is_control c \<and> \<not> is_formatting c) (chars shown)"
  let ?ws = "split_whitespace kept"
  have parts: "\<not> is_whitespace c \<and> c \<in> set kept" if "w \<in> set ?ws" "c \<in> set w" for w c
    using that split_by_parts [of w is_whitespace kept c] by (auto simp: split_whitespace_def)
  have inner: "c \<in> set (chars shown)" if "w \<in> set ?ws" "c \<in> set w" for w c
    using parts [OF that] by (simp add: kept_def)
  have "is_scalar c" if "c \<in> set (join_with [0x20] ?ws)" for c
  proof -
    from that have "c = 0x20 \<or> (\<exists>w \<in> set ?ws. c \<in> set w)"
      using join_with_set [of "[0x20]" ?ws] by auto
    then have "c = 0x20 \<or> c \<in> set (chars shown)" using inner by blast
    moreover have "is_scalar 0x20" by (simp add: is_scalar_def)
    moreover have "is_scalar c'" if "c' \<in> set (chars shown)" for c'
      using chars_scalar [of shown] that by (simp add: list_all_iff)
    ultimately show ?thesis by blast
  qed
  then have "list_all is_scalar (join_with [0x20] ?ws)" by (simp add: list_all_iff)
  then have "chars (clean_label shown) = join_with [0x20] ?ws"
    by (simp add: clean_label_def kept_def [symmetric])
  moreover have "list_all (\<lambda>w. w \<noteq> [] \<and>
      list_all (\<lambda>c. \<not> is_control c \<and> \<not> is_formatting c \<and> \<not> is_whitespace c) w) ?ws"
    unfolding list_all_iff
  proof (intro ballI conjI)
    fix w assume w: "w \<in> set ?ws"
    then show "w \<noteq> []" by (simp add: split_whitespace_def)
    show "\<not> is_control c" "\<not> is_formatting c" "\<not> is_whitespace c" if "c \<in> set w" for c
      using parts [OF w that] by (simp_all add: kept_def)
  qed
  ultimately show ?thesis by blast
qed

end
