(* ===== verification/Fetch.thy ===== *)
theory Fetch
  imports Transport Flow_Types "HOL-Library.Multiset"
begin

text \<open>
  \<open>src/flow/fetch.rs\<close>: fetching one page with the cookies of one login attempt. The jar is a list
  of origins with libcurl cookie lines; a fetch runs on the jar and the outside world. The test
  build's exception for loopback HTTP (\<open>cfg!(test)\<close>) is not part of the program and left out.
\<close>

subsection \<open>Origins\<close>

text \<open>
  Every call of \<open>Url::origin\<close> on a URL without a tuple origin makes a fresh opaque one, equal to
  no other, so only tuple origins ever compare equal.
\<close>

fun same_origin :: "origin \<Rightarrow> origin \<Rightarrow> bool" where
  "same_origin (Tuple_Origin s h p) (Tuple_Origin s' h' p') \<longleftrightarrow> s = s' \<and> h = h' \<and> p = p'"
| "same_origin _ _ \<longleftrightarrow> False"

lemma same_origin_iff: "same_origin a b \<longleftrightarrow> a = b \<and> same_origin a a"
  by (cases a; cases b) auto

subsection \<open>Cookie lines\<close>

definition unexpired :: "string \<Rightarrow> nat \<Rightarrow> bool" where
  "unexpired line now =
     (let parts = split_char TAB line in
      if length parts \<le> 4 then False
      else (case parse_u64 (parts ! 4) of
              None \<Rightarrow> False
            | Some expiry \<Rightarrow> expiry = 0 \<or> now < expiry))"

definition domain_matches :: "string \<Rightarrow> string \<Rightarrow> bool" where
  "domain_matches host domain =
     (if domain = [] then False
      else if eq_ignore_ascii_case host domain then True
      else if length host < length domain + 1 then False
      else (let split = length host - (length domain + 1) in
            host ! split = CHR ''.'' \<and> eq_ignore_ascii_case (drop (split + 1) host) domain))"

definition unwrap_prefix :: "string \<Rightarrow> string \<Rightarrow> string" where
  "unwrap_prefix p s = (case strip_prefix p s of None \<Rightarrow> s | Some r \<Rightarrow> r)"

definition usable :: "string \<Rightarrow> string \<Rightarrow> nat \<Rightarrow> bool" where
  "usable line host now =
     (case split_char TAB line of
        [domain, _, _, _, _, name, _] \<Rightarrow>
          name \<noteq> [] \<and> unexpired line now \<and>
          domain_matches host (unwrap_prefix ''.'' (unwrap_prefix ''#HttpOnly_'' domain))
      | _ \<Rightarrow> False)"

subsection \<open>The jar\<close>

type_synonym cookie_jar = "(origin \<times> string list) list"

definition jar_new :: cookie_jar where "jar_new = []"

definition lines_at :: "cookie_jar \<Rightarrow> url \<Rightarrow> nat \<Rightarrow> string list" where
  "lines_at jar u now =
     filter (\<lambda>line. unexpired line now)
       (concat (map snd (filter (\<lambda>(owner, _). same_origin owner (url_origin u)) jar)))"

definition jar_host :: "string \<Rightarrow> string" where
  "jar_host host = trim_end_matches (\<lambda>c. c = CHR '']'') (dropWhile (\<lambda>c. c = CHR ''['') host)"

definition replace_at :: "url \<Rightarrow> string list \<Rightarrow> nat \<Rightarrow> cookie_jar \<Rightarrow> cookie_jar" where
  "replace_at u lines now jar =
     (case url_host_str u of
        None \<Rightarrow> jar
      | Some host \<Rightarrow>
          (let kept = filter (\<lambda>line. usable line (jar_host host) now) lines;
               jar1 = (case position (\<lambda>(owner, _). same_origin owner (url_origin u)) jar of
                         None \<Rightarrow> jar
                       | Some index \<Rightarrow> swap_remove index jar)
           in if kept \<noteq> [] then jar1 @ [(url_origin u, kept)] else jar1))"

definition jar_dropped :: "cookie_jar \<Rightarrow> cookie_jar" where
  "jar_dropped jar = map (\<lambda>(owner, _). (owner, [])) jar"

text \<open>\<open>Debug\<close> of the jar: origins and counts.\<close>

definition jar_debug :: "'w deps \<Rightarrow> cookie_jar \<Rightarrow> (string \<times> nat) list" where
  "jar_debug D jar = map (\<lambda>(owner, lines). (origin_text D owner, length lines)) jar"

definition unix_now :: "'w deps \<Rightarrow> 'w \<Rightarrow> nat \<times> 'w" where
  "unix_now D w =
     (case system_now D w of (t, w') \<Rightarrow> (case t of None \<Rightarrow> 0 | Some secs \<Rightarrow> secs, w'))"

subsection \<open>Pages and redirects\<close>

datatype redirect_kind =
    MovedPermanently | Found | SeeOther | TemporaryRedirect | PermanentRedirect

definition from_status :: "nat \<Rightarrow> redirect_kind option" where
  "from_status status =
     (if status = 301 then Some MovedPermanently
      else if status = 302 then Some Found
      else if status = 303 then Some SeeOther
      else if status = 307 then Some TemporaryRedirect
      else if status = 308 then Some PermanentRedirect
      else None)"

definition repeats_request :: "redirect_kind \<Rightarrow> bool" where
  "repeats_request k \<longleftrightarrow> k \<in> {TemporaryRedirect, PermanentRedirect}"

record page =
  page_url :: url
  page_status :: nat
  page_body :: string

record redirect =
  location :: url
  red_same_origin :: bool
  red_kind :: redirect_kind

datatype fetched = Page page | Redirect redirect

text \<open>\<open>Redacted\<close>: a URL without its query and fragment.\<close>

definition redacted :: "'w deps \<Rightarrow> url \<Rightarrow> string" where
  "redacted D u = origin_text D (url_origin u) @ url_path u"

definition page_debug :: "'w deps \<Rightarrow> page \<Rightarrow> string" where
  "page_debug D p = ''Page { url: '' @ redacted D (page_url p) @ '', status: '' @
     show_nat (page_status p) @ '', body_len: '' @ show_nat (length (page_body p)) @ '' }''"

fun kind_debug :: "redirect_kind \<Rightarrow> string" where
  "kind_debug MovedPermanently = ''MovedPermanently''"
| "kind_debug Found = ''Found''"
| "kind_debug SeeOther = ''SeeOther''"
| "kind_debug TemporaryRedirect = ''TemporaryRedirect''"
| "kind_debug PermanentRedirect = ''PermanentRedirect''"

definition redirect_debug :: "'w deps \<Rightarrow> redirect \<Rightarrow> string" where
  "redirect_debug D r = ''Redirect { location: '' @ redacted D (location r) @ '', same_origin: '' @
     (if red_same_origin r then ''true'' else ''false'') @ '', kind: '' @
     kind_debug (red_kind r) @ '' }''"

text \<open>\<open>Drop\<close> of a page and of a redirect: the body and the URL are wiped.\<close>

definition page_dropped :: "'w deps \<Rightarrow> page \<Rightarrow> page" where
  "page_dropped D p = p\<lparr>page_body := [], page_url := scrub_url D (page_url p)\<rparr>"

definition redirect_dropped :: "'w deps \<Rightarrow> redirect \<Rightarrow> redirect" where
  "redirect_dropped D r = r\<lparr>location := scrub_url D (location r)\<rparr>"

subsection \<open>Fetching\<close>

definition allowed_scheme :: "url \<Rightarrow> bool" where
  "allowed_scheme u \<longleftrightarrow> url_scheme u = ''https''"

text \<open>What the code makes of a response.\<close>

definition read_response :: "'w deps \<Rightarrow> url \<Rightarrow> response \<Rightarrow> fetched res" where
  "read_response D u response =
     (case from_status (resp_status response) of
        Some kind \<Rightarrow>
          try_res (ok_or (header response ''Location'') (Protocol ''redirect without Location''))
            (\<lambda>target. try_res (ok_or (url_join D u target) (Protocol ''invalid redirect Location''))
            (\<lambda>loc. Inr (Redirect \<lparr>location = loc,
                red_same_origin = same_origin (url_origin loc) (url_origin u), red_kind = kind\<rparr>)))
      | None \<Rightarrow>
          if 300 \<le> resp_status response \<and> resp_status response \<le> 399
          then Inl (HttpStatus (resp_status response))
          else Inr (Page \<lparr>page_url = u, page_status = resp_status response,
                       page_body = resp_body response\<rparr>))"

definition fetch_send ::
  "'w deps \<Rightarrow> request \<Rightarrow> (cookie_jar \<times> 'w, fetched) act" where
  "fetch_send D request = (\<lambda>(jar, w).
     if \<not> allowed_scheme (req_url request)
     then (Inl (Protocol ''page URL must use HTTPS''), (jar, w))
     else (case unix_now D w of (now, w1) \<Rightarrow>
       (case http_send D (request\<lparr>req_cookies := lines_at jar (req_url request) now\<rparr>) w1 of
          (Inl e, w2) \<Rightarrow> (Inl e, (jar, w2))
        | (Inr response, w2) \<Rightarrow>
            (case unix_now D w2 of (now', w3) \<Rightarrow>
               (read_response D (req_url request) response,
                (replace_at (req_url request) (resp_cookies response) now' jar, w3))))))"

definition fetch_get :: "'w deps \<Rightarrow> url \<Rightarrow> (cookie_jar \<times> 'w, fetched) act" where
  "fetch_get D u = fetch_send D (request_get u)"

definition post_form ::
  "'w deps \<Rightarrow> url \<Rightarrow> (string \<times> string) list \<Rightarrow> (cookie_jar \<times> 'w, fetched) act" where
  "post_form D u fs = try_io (lift (request_form D u fs)) (fetch_send D)"

subsection \<open>The domain check\<close>

text \<open>
  The domain check, exactly: a host matches a cookie's domain if and only if the domain is not
  empty and, up to ASCII case, is the whole host or what follows one of its dots. In particular
  \<open>evilkc.test\<close> does not match \<open>kc.test\<close>, and indexing the host never goes out of bounds.
\<close>

theorem domain_matches_exact:
  "domain_matches host domain \<longleftrightarrow>
     domain \<noteq> [] \<and>
     (eq_ignore_ascii_case host domain \<or>
      (\<exists>sub tail. host = sub @ CHR ''.'' # tail \<and> eq_ignore_ascii_case tail domain))"
proof -
  have "(\<exists>sub tail. host = sub @ CHR ''.'' # tail \<and> eq_ignore_ascii_case tail domain) \<longleftrightarrow>
      length domain + 1 \<le> length host \<and> host ! (length host - (length domain + 1)) = CHR ''.'' \<and>
      eq_ignore_ascii_case (drop (length host - length domain) host) domain" (is "?l \<longleftrightarrow> ?r")
  proof
    assume ?l
    then obtain sub tail where t: "host = sub @ CHR ''.'' # tail" "eq_ignore_ascii_case tail domain"
      by blast
    from eq_ignore_ascii_case_length [OF t(2)] t show ?r by simp
  next
    assume r: ?r
    let ?k = "length host - (length domain + 1)"
    have "?k < length host" using r by (cases host) auto
    then have "host = take ?k host @ host ! ?k # drop (Suc ?k) host" by (rule id_take_nth_drop)
    moreover have "length domain < length host" using r by simp
    then have "Suc ?k = length host - length domain" by simp
    ultimately show ?l using r by metis
  qed
  then show ?thesis by (auto simp: domain_matches_def Let_def Suc_diff_Suc)
qed

lemma usable_unexpired: "usable line host now \<Longrightarrow> unexpired line now"
  by (auto simp: usable_def split: list.splits)

lemma unexpired_mono: "unexpired line t \<Longrightarrow> now \<le> t \<Longrightarrow> unexpired line now"
  by (auto simp: unexpired_def Let_def split: if_splits option.splits)

subsection \<open>The contract of a cookie store\<close>

text \<open>
  What a login relies on, for any store of cookies by origin: replacing the cookies of one site
  shows exactly there, and nowhere else. Proved once from it: after any history of responses, the
  cookies sent to a URL are those of the last response of its own site, filtered by the store's
  checks; a site that answered nothing gets nothing.
\<close>

type_synonym visit = "url \<times> string list \<times> nat"

locale cookie_store =
  fixes store_new :: 'j
    and store_lines :: "'j \<Rightarrow> url \<Rightarrow> nat \<Rightarrow> string list"
    and store_replace :: "url \<Rightarrow> string list \<Rightarrow> nat \<Rightarrow> 'j \<Rightarrow> 'j"
    and sound :: "'j \<Rightarrow> bool"
    and site :: "url \<Rightarrow> bool"
    and accepts :: "url \<Rightarrow> nat \<Rightarrow> string \<Rightarrow> bool"
  assumes new_sound: "sound store_new"
    and replace_sound: "sound j \<Longrightarrow> sound (store_replace u ls now j)"
    and new_lines: "store_lines store_new u t = []"
    and lines_same: "sound j \<Longrightarrow> site u \<Longrightarrow> site v \<Longrightarrow> url_origin v = url_origin u \<Longrightarrow>
      store_lines (store_replace u ls now j) v t =
        filter (\<lambda>l. unexpired l t) (filter (accepts u now) ls)"
    and lines_other: "sound j \<Longrightarrow> site u \<Longrightarrow> site v \<Longrightarrow> url_origin v \<noteq> url_origin u \<Longrightarrow>
      store_lines (store_replace u ls now j) v t = store_lines j v t"
begin

definition visited :: "visit list \<Rightarrow> 'j" where
  "visited vs = foldl (\<lambda>j (u, ls, now). store_replace u ls now j) store_new vs"

lemma visited_sound: "sound (visited vs)"
  by (induction vs rule: rev_induct)
    (auto simp: visited_def new_sound replace_sound split: prod.splits)

lemma visited_lines:
  assumes "\<forall>(u, _, _) \<in> set vs. site u" "site v"
  shows "store_lines (visited vs) v t =
    (case find (\<lambda>(u, _, _). url_origin v = url_origin u) (rev vs) of
       None \<Rightarrow> []
     | Some (u, ls, now) \<Rightarrow> filter (\<lambda>l. unexpired l t) (filter (accepts u now) ls))"
  using assms(1)
proof (induction vs rule: rev_induct)
  case Nil
  then show ?case by (simp add: visited_def new_lines)
next
  case (snoc visit vs)
  obtain u ls now where v: "visit = (u, ls, now)" by (cases visit)
  have "visited (vs @ [visit]) = store_replace u ls now (visited vs)"
    by (simp add: visited_def v)
  with snoc v assms(2) visited_sound show ?case
    by (cases "url_origin v = url_origin u") (simp_all add: lines_same lines_other)
qed

end

subsection \<open>The jar is such a store\<close>

definition entries :: "origin \<Rightarrow> cookie_jar \<Rightarrow> cookie_jar" where
  "entries o1 jar = filter (\<lambda>(owner, _). same_origin owner o1) jar"

definition jar_ok :: "cookie_jar \<Rightarrow> bool" where
  "jar_ok jar \<longleftrightarrow> (\<forall>o1. length (entries o1 jar) \<le> 1) \<and> (\<forall>(_, ls) \<in> set jar. ls \<noteq> [])"

definition jar_site :: "url \<Rightarrow> bool" where
  "jar_site u \<longleftrightarrow> url_host_str u \<noteq> None \<and> same_origin (url_origin u) (url_origin u)"

definition jar_accepts :: "url \<Rightarrow> nat \<Rightarrow> string \<Rightarrow> bool" where
  "jar_accepts u now line \<longleftrightarrow>
     (case url_host_str u of None \<Rightarrow> False | Some host \<Rightarrow> usable line (jar_host host) now)"

lemma mset_swap_remove: "i < length xs \<Longrightarrow> mset (swap_remove i xs) = mset xs - {#xs ! i#}"
  by (cases xs rule: rev_cases) (auto simp: swap_remove_snoc mset_update nth_append less_Suc_eq)

lemma entries_swap_remove:
  "i < length jar \<Longrightarrow> mset (entries o1 (swap_remove i jar)) =
     mset (entries o1 jar) - (if same_origin (fst (jar ! i)) o1 then {#jar ! i#} else {#})"
  by (auto simp: entries_def mset_swap_remove case_prod_beta)

lemma short_mset_eq: "mset xs = mset ys \<Longrightarrow> length xs \<le> 1 \<Longrightarrow> xs = ys"
  by (cases xs; cases ys) (auto simp: add_mset_eq_single dest: arg_cong [of _ _ size])

definition jar_without :: "origin \<Rightarrow> cookie_jar \<Rightarrow> cookie_jar" where
  "jar_without o1 jar =
     (case position (\<lambda>(owner, _). same_origin owner o1) jar of
        None \<Rightarrow> jar | Some index \<Rightarrow> swap_remove index jar)"

lemma entries_without_other:
  assumes "jar_ok jar" "o2 \<noteq> o1"
  shows "entries o2 (jar_without o1 jar) = entries o2 jar"
proof (cases "position (\<lambda>(owner, _). same_origin owner o1) jar")
  case (Some i)
  then have "i < length jar" "same_origin (fst (jar ! i)) o1"
    by (auto simp: position_Some_iff case_prod_beta)
  then have "i < length jar" "\<not> same_origin (fst (jar ! i)) o2"
    using assms(2) by (metis same_origin_iff)+
  then have "mset (entries o2 (swap_remove i jar)) = mset (entries o2 jar)"
    by (simp add: entries_swap_remove)
  with assms(1) Some show ?thesis
    by (auto simp: jar_without_def jar_ok_def intro: short_mset_eq [symmetric])
qed (simp add: jar_without_def)

lemma entries_without_same:
  assumes "jar_ok jar"
  shows "entries o1 (jar_without o1 jar) = []"
proof (cases "position (\<lambda>(owner, _). same_origin owner o1) jar")
  case None
  then have "jar_without o1 jar = jar" by (simp add: jar_without_def)
  with None show ?thesis by (auto simp: entries_def filter_empty_conv position_None_iff)
next
  case (Some i)
  then have i: "i < length jar" "same_origin (fst (jar ! i)) o1"
    by (auto simp: position_Some_iff case_prod_beta)
  then have "jar ! i \<in> set (entries o1 jar)" by (auto simp: entries_def case_prod_beta)
  moreover have "length (entries o1 jar) \<le> 1" using assms by (simp add: jar_ok_def)
  ultimately have "entries o1 jar = [jar ! i]" by (cases "entries o1 jar") auto
  with i have "mset (entries o1 (swap_remove i jar)) = {#}" by (simp add: entries_swap_remove)
  with Some show ?thesis by (simp add: jar_without_def)
qed

lemma replace_at_eq:
  "replace_at u ls now jar =
     (if url_host_str u = None then jar
      else jar_without (url_origin u) jar @
        (if filter (jar_accepts u now) ls \<noteq> []
         then [(url_origin u, filter (jar_accepts u now) ls)] else []))"
proof (cases "url_host_str u")
  case (Some host)
  then have "jar_accepts u now = (\<lambda>line. usable line (jar_host host) now)"
    by (auto simp: jar_accepts_def)
  with Some show ?thesis by (simp add: replace_at_def jar_without_def Let_def)
qed (simp add: replace_at_def)

lemma lines_at_eq:
  "lines_at jar u t = filter (\<lambda>l. unexpired l t) (concat (map snd (entries (url_origin u) jar)))"
  by (simp add: lines_at_def entries_def)

lemma entries_replace:
  assumes "jar_ok jar" "url_host_str u \<noteq> None"
  shows "entries o1 (replace_at u ls now jar) =
    (if same_origin (url_origin u) o1
     then (if filter (jar_accepts u now) ls = [] then []
           else [(url_origin u, filter (jar_accepts u now) ls)])
     else entries o1 (jar_without (url_origin u) jar))"
proof -
  have "entries o1 (jar_without (url_origin u) jar) = []" if "same_origin (url_origin u) o1"
    using entries_without_same [OF assms(1)] that same_origin_iff [of "url_origin u" o1] by simp
  then show ?thesis using assms(2) by (auto simp: replace_at_eq entries_def)
qed

lemma jar_replace_ok: "jar_ok jar \<Longrightarrow> jar_ok (replace_at u ls now jar)"
proof (cases "url_host_str u = None")
  case False
  assume ok: "jar_ok jar"
  have "length (entries o1 (replace_at u ls now jar)) \<le> 1" for o1
  proof (cases "o1 = url_origin u")
    case True
    then show ?thesis using entries_replace [OF ok False] entries_without_same [OF ok] by simp
  next
    case other: False
    then show ?thesis
      using entries_replace [OF ok False, of o1] entries_without_other [OF ok other] ok
      by (auto simp: jar_ok_def)
  qed
  moreover have "set (jar_without o1 jar) \<subseteq> set jar" for o1
    by (auto simp: jar_without_def position_Some_iff mset_swap_remove
        dest!: arg_cong [of _ _ set_mset] split: option.splits)
      (metis in_diffD mset_swap_remove set_mset_mset position_Some_iff)
  then have "\<forall>(_, ls) \<in> set (jar_without o1 jar). ls \<noteq> []" for o1
    using ok unfolding jar_ok_def by blast
  then have "\<forall>(_, ls') \<in> set (replace_at u ls now jar). ls' \<noteq> []"
    using False by (auto simp: replace_at_eq)
  ultimately show ?thesis by (simp add: jar_ok_def)
qed (simp add: replace_at_eq)

interpretation jar: cookie_store jar_new lines_at replace_at jar_ok jar_site jar_accepts
proof unfold_locales
  show "jar_ok jar_new" by (simp add: jar_ok_def jar_new_def entries_def)
  show "jar_ok (replace_at u ls now j)" if "jar_ok j" for j u ls now using that by (rule jar_replace_ok)
  show "lines_at jar_new u t = []" for u t by (simp add: lines_at_def jar_new_def)
next
  fix j u v ls now t
  assume a: "jar_ok j" "jar_site u" "jar_site v" "url_origin v = url_origin u"
  then show "lines_at (replace_at u ls now j) v t =
      filter (\<lambda>l. unexpired l t) (filter (jar_accepts u now) ls)"
    by (auto simp: lines_at_eq entries_replace jar_site_def filter_empty_conv)
next
  fix j u v ls now t
  assume a: "jar_ok j" "jar_site u" "jar_site v" "url_origin v \<noteq> url_origin u"
  then have "\<not> same_origin (url_origin u) (url_origin v)" using same_origin_iff by metis
  with a show "lines_at (replace_at u ls now j) v t = lines_at j v t"
    by (simp add: lines_at_eq entries_replace jar_site_def entries_without_other)
qed

subsection \<open>What a fetch guarantees\<close>

text \<open>
  C8. Cookie isolation over a whole login: after any sequence of responses from any sites, the
  cookies sent to a URL at a later time are exactly those of the last response of its own origin
  that were usable for its host then and are unexpired now; no other origin's cookie is ever sent,
  and cookies the site deleted are gone.
\<close>

theorem cookie_isolation:
  assumes "\<forall>(u, _, _) \<in> set vs. jar_site u" "jar_site v"
  shows "lines_at (foldl (\<lambda>j (u, ls, now). replace_at u ls now j) jar_new vs) v t =
    (case find (\<lambda>(u, _, _). url_origin v = url_origin u) (rev vs) of
       None \<Rightarrow> []
     | Some (u, ls, now) \<Rightarrow> filter (\<lambda>l. unexpired l t) (filter (jar_accepts u now) ls))"
  using jar.visited_lines [OF assms] by (simp add: jar.visited_def)

definition session_line :: string where
  "session_line = join_with [TAB]
     [''#HttpOnly_kc.test'', ''FALSE'', ''/'', ''TRUE'', ''0'', ''AUTH_SESSION_ID'', ''x'']"

lemma session_line_usable: "usable session_line ''kc.test'' 5" "unexpired session_line 9"
proof -
  have parts: "split_char TAB session_line =
      [''#HttpOnly_kc.test'', ''FALSE'', ''/'', ''TRUE'', ''0'', ''AUTH_SESSION_ID'', ''x'']"
    unfolding session_line_def by (rule split_char_join) (simp_all add: TAB_def)
  have zero: "parse_u64 ''0'' = Some 0"
    by (simp add: parse_u64_def strip_prefix_def starts_with_def is_digit_def digits_value_def
        of_char_def)
  show "unexpired session_line 9" by (simp add: unexpired_def parts zero)
  have "unwrap_prefix ''#HttpOnly_'' ''#HttpOnly_kc.test'' = ''kc.test''"
    "unwrap_prefix ''.'' ''kc.test'' = ''kc.test''"
    by (simp_all add: unwrap_prefix_def strip_prefix_def starts_with_def)
  moreover have "unexpired session_line 5" by (simp add: unexpired_def parts zero)
  ultimately show "usable session_line ''kc.test'' 5"
    by (simp add: usable_def parts domain_matches_def)
qed

definition other_url :: url where
  "other_url = example_url\<lparr>url_host_str := Some ''kc.test.evil'',
     url_origin := Tuple_Origin ''https'' ''kc.test.evil'' 443\<rparr>"

theorem cookie_isolation_witness:
  "lines_at (foldl (\<lambda>j (u, ls, now). replace_at u ls now j) jar_new
      [(example_url, [session_line], 5), (other_url, [session_line], 6)]) example_url 9 =
     [session_line] \<and>
   lines_at (foldl (\<lambda>j (u, ls, now). replace_at u ls now j) jar_new
      [(example_url, [session_line], 5)]) other_url 9 = []"
proof -
  have sites: "jar_site example_url" "jar_site other_url"
    by (simp_all add: jar_site_def example_url_def other_url_def)
  have distinct: "url_origin other_url \<noteq> url_origin example_url"
    by (simp add: example_url_def other_url_def)
  have "jar_accepts example_url 5 session_line"
    using session_line_usable(1)
    by (simp add: jar_accepts_def example_url_def jar_host_def trim_end_matches_def)
  with cookie_isolation [of "[(example_url, [session_line], 5), (other_url, [session_line], 6)]"
      example_url 9] cookie_isolation [of "[(example_url, [session_line], 5)]" other_url 9]
    sites distinct session_line_usable(2)
  show ?thesis by simp
qed

lemma same_origin_self: "same_origin b b \<Longrightarrow> same_origin a b \<longleftrightarrow> a = b"
  by (metis same_origin_iff)

lemma fetch_send_cases:
  assumes "fetch_send D request (jar, w) = (r, (jar', w'))"
  obtains (refused) "url_scheme (req_url request) \<noteq> ''https''"
      "r = Inl (Protocol ''page URL must use HTTPS'')" "jar' = jar" "w' = w"
    | (failed) now w1 e where "url_scheme (req_url request) = ''https''" "unix_now D w = (now, w1)"
      "http_send D (request\<lparr>req_cookies := lines_at jar (req_url request) now\<rparr>) w1 = (Inl e, w')"
      "r = Inl e" "jar' = jar"
    | (answered) now w1 response w2 now' where "url_scheme (req_url request) = ''https''"
      "unix_now D w = (now, w1)"
      "http_send D (request\<lparr>req_cookies := lines_at jar (req_url request) now\<rparr>) w1 =
         (Inr response, w2)"
      "unix_now D w2 = (now', w')" "r = read_response D (req_url request) response"
      "jar' = replace_at (req_url request) (resp_cookies response) now' jar"
proof (cases "url_scheme (req_url request) = ''https''")
  case False
  with assms refused show ?thesis by (simp add: fetch_send_def allowed_scheme_def)
next
  case https: True
  obtain now w1 where now: "unix_now D w = (now, w1)" by (cases "unix_now D w")
  obtain o1 w2 where sent: "http_send D (request\<lparr>req_cookies := lines_at jar (req_url request) now\<rparr>)
      w1 = (o1, w2)" by (cases "http_send D (request\<lparr>req_cookies := lines_at jar (req_url request) now\<rparr>) w1")
  obtain now' w3 where now': "unix_now D w2 = (now', w3)" by (cases "unix_now D w2")
  show ?thesis
  proof (cases o1)
    case (Inl e)
    with assms https now sent have "r = Inl e" "jar' = jar" "w' = w2"
      by (simp_all add: fetch_send_def allowed_scheme_def)
    with failed [OF https now] sent Inl show ?thesis by blast
  next
    case (Inr response)
    with assms https now sent now' have "r = read_response D (req_url request) response"
      "jar' = replace_at (req_url request) (resp_cookies response) now' jar" "w' = w3"
      by (simp_all add: fetch_send_def allowed_scheme_def)
    with answered [OF https now] sent now' Inr show ?thesis by blast
  qed
qed

lemma fetch_send_jar_ok: "fetch_send D request (jar, w) = (r, (jar', w')) \<Longrightarrow> jar_ok jar \<Longrightarrow> jar_ok jar'"
  by (erule fetch_send_cases) (auto intro: jar_replace_ok)

text \<open>
  Effect of one fetch: without HTTPS nothing is sent and nothing changes; with it, the cookies
  of every other site stay as they were whatever the response says, the jar stays well formed, a
  redirect is only reported (its same-origin mark compares scheme, host and port exactly), and a
  page has the requested URL and a status outside 300 to 399.
\<close>

theorem fetch_effect:
  assumes "fetch_send D request (jar, w) = (r, (jar', w'))" "jar_ok jar" "jar_site (req_url request)"
    and "jar_site v" "url_origin v \<noteq> url_origin (req_url request)"
  shows "lines_at jar' v t = lines_at jar v t \<and> jar_ok jar' \<and>
    (url_scheme (req_url request) \<noteq> ''https'' \<longrightarrow> r = Inl (Protocol ''page URL must use HTTPS'') \<and>
       jar' = jar \<and> w' = w) \<and>
    (case r of
       Inr (Redirect red) \<Rightarrow>
         red_same_origin red \<longleftrightarrow> url_origin (location red) = url_origin (req_url request)
     | Inr (Page p) \<Rightarrow> page_url p = req_url request \<and> page_status p \<notin> {300..399}
     | Inl e \<Rightarrow> True)"
proof -
  have self: "same_origin (url_origin (req_url request)) (url_origin (req_url request))"
    using assms(3) by (simp add: jar_site_def)
  have "case read_response D (req_url request) response of
       Inr (Redirect red) \<Rightarrow>
         red_same_origin red \<longleftrightarrow> url_origin (location red) = url_origin (req_url request)
     | Inr (Page p) \<Rightarrow> page_url p = req_url request \<and> page_status p \<notin> {300..399}
     | Inl e \<Rightarrow> True" for response
    by (auto simp: read_response_def same_origin_self [OF self]
        split: option.splits sum.splits fetched.splits if_splits)
  then show ?thesis
    using assms(1) fetch_send_jar_ok [OF assms(1,2)]
      jar.lines_other [OF assms(2,3,4,5)]
    by (elim fetch_send_cases) auto
qed

theorem fetch_effect_witness:
  "\<exists>p jar'. fetch_send (answering \<lparr>resp_status = 200, resp_headers = [], resp_body = ''page'',
      resp_cookies = []\<rparr>) (request_get example_url) ([(url_origin other_url, [session_line])], ()) =
      (Inr (Page p), (jar', ())) \<and>
    lines_at jar' other_url 9 = [session_line] \<and> page_status p = 200"
proof -
  let ?D = "answering \<lparr>resp_status = 200, resp_headers = [], resp_body = ''page'', resp_cookies = []\<rparr>"
  let ?jar = "[(url_origin other_url, [session_line])]"
  obtain p jar' where run: "fetch_send ?D (request_get example_url) (?jar, ()) =
      (Inr (Page p), (jar', ()))" "page_status p = 200"
    by (simp add: fetch_send_def allowed_scheme_def request_get_def example_url_def answering_def
        no_deps_def unix_now_def read_response_def from_status_def)
  have ok: "jar_ok ?jar" by (auto simp: jar_ok_def entries_def)
  have "jar_site (req_url (request_get example_url))" "jar_site other_url"
    "url_origin other_url \<noteq> url_origin (req_url (request_get example_url))"
    by (simp_all add: jar_site_def example_url_def other_url_def request_get_def)
  from fetch_effect [OF run(1) ok this, of 9] session_line_usable(2)
  have "lines_at jar' other_url 9 = [session_line]" by (simp add: lines_at_def other_url_def)
  with run show ?thesis by blast
qed

end
