(* ===== verification/Form.thy ===== *)
theory Form
  imports Fetch Classify
begin

text \<open>
  \<open>src/flow/form.rs\<close>: from a recognised page to the form that may be posted back, and posting it.
  The action must be Keycloak's \<open>login-actions/authenticate\<close> on the page's own site; the fields
  are those of the page's allow-list, with the page's values unless answered.
\<close>

definition LOGIN_POSTED :: "string list" where
  "LOGIN_POSTED = [''username'', ''password'', ''credentialId'']"

definition OTP_POSTED :: "string list" where
  "OTP_POSTED = [''otp'', ''selectedCredentialId'']"

definition ACTION_PATH_SUFFIX :: string where
  "ACTION_PATH_SUFFIX = ''/login-actions/authenticate''"

definition ACTION_QUERY :: "string list" where
  "ACTION_QUERY = [''session_code'', ''execution'', ''client_id'', ''tab_id'']"

record form =
  form_action :: url
  form_fields :: "(string \<times> string) list"
  form_devices :: "string list"

definition check_action :: "url \<Rightarrow> url \<Rightarrow> unit res" where
  "check_action page_address action =
     (if url_scheme action \<noteq> ''https'' \<or>
         \<not> same_origin (url_origin action) (url_origin page_address)
      then Inl (Protocol ''login form posts to another site'')
      else if \<not> ends_with ACTION_PATH_SUFFIX (url_path action)
      then Inl (Protocol ''login form does not post to login-actions'')
      else if \<not> no_repeat (map fst (url_pairs action))
      then Inl (Protocol ''repeated login form action parameter'')
      else if \<not> list_all (\<lambda>required. list_ex (\<lambda>(name, v). name = required \<and> v \<noteq> [])
                 (url_pairs action)) ACTION_QUERY
      then Inl (Protocol ''login form action missing session values'')
      else Inr ())"

definition action_url :: "'w deps \<Rightarrow> url \<Rightarrow> string option \<Rightarrow> url res" where
  "action_url D page_address action =
     (case action of
        None \<Rightarrow> Inl (Protocol ''login form without action'')
      | Some target \<Rightarrow>
          if target = [] then Inl (Protocol ''login form without action'')
          else try_res (ok_or (url_join D page_address target)
                 (Protocol ''invalid login form action'')) (\<lambda>u.
               try_res (check_action page_address u) (\<lambda>_. Inr u)))"

text \<open>The controls a browser would post, of those the page's kind allows.\<close>

definition posted_fields :: "string list \<Rightarrow> scan \<Rightarrow> (string \<times> string) list" where
  "posted_fields posted s =
     map (\<lambda>c. (control_name c, control_value c))
       (filter (\<lambda>c. control_name c \<in> set posted \<and>
          (control_kind c \<notin> {''radio'', ''checkbox''} \<or> control_checked c)) (controls s))"

text \<open>A scan that panicked would be \<open>None\<close>; \<open>scan_run\<close> never is.\<close>

definition extract_form :: "'w deps \<Rightarrow> page \<Rightarrow> (page_kind \<times> form) res" where
  "extract_form D p =
     (case Option.bind (from_utf8 (page_body p)) (scan_run D) of
        None \<Rightarrow> Inl (Protocol ''unknown login page'')
      | Some s \<Rightarrow>
          (case scan_kind s of
             None \<Rightarrow> Inl (Protocol ''unknown login page'')
           | Some kind \<Rightarrow>
               (let (posted, devices) = (case kind of
                        OneTimeCodePage ds \<Rightarrow> (OTP_POSTED, map device_id ds)
                      | _ \<Rightarrow> (LOGIN_POSTED, []))
                in if (case scan_method s of None \<Rightarrow> True
                       | Some m \<Rightarrow> \<not> eq_ignore_ascii_case m ''post'')
                   then Inl (Protocol ''login form must use POST'')
                   else try_res (action_url D (page_url p) (scan_action s)) (\<lambda>action.
                     let fs = posted_fields posted s;
                         offered = (if devices = []
                           then map snd (filter (\<lambda>(name, _). name = ''selectedCredentialId'') fs)
                           else devices)
                     in Inr (kind, \<lparr>form_action = action, form_fields = fs,
                                     form_devices = offered\<rparr>)))))"

text \<open>The checks of \<open>submit\<close>, answer by answer in the order given.\<close>

fun check_answers ::
  "form \<Rightarrow> string list \<Rightarrow> (string \<times> string) list \<Rightarrow> unit res" where
  "check_answers f earlier [] = Inr ()"
| "check_answers f earlier ((name, v) # rest) =
     (if \<not> list_ex (\<lambda>(known, _). known = name) (form_fields f)
      then Inl (Protocol ''answer for a field the page does not have'')
      else if name \<in> set earlier then Inl (Protocol ''repeated answer'')
      else if name = ''selectedCredentialId'' \<and> v \<notin> set (form_devices f)
      then Inl (Protocol ''device not offered by the page'')
      else check_answers f (earlier @ [name]) rest)"

definition filled :: "form \<Rightarrow> (string \<times> string) list \<Rightarrow> (string \<times> string) list" where
  "filled f answers =
     map (\<lambda>(name, v). (name, case find (\<lambda>(answered, _). answered = name) answers of
            None \<Rightarrow> v | Some (_, a) \<Rightarrow> a)) (form_fields f)"

definition submit ::
  "'w deps \<Rightarrow> form \<Rightarrow> (string \<times> string) list \<Rightarrow> (cookie_jar \<times> 'w, fetched) act" where
  "submit D f answers =
     try_io (lift (check_answers f [] answers)) (\<lambda>_.
       post_form D (form_action f) (filled f answers))"

definition form_dropped :: "'w deps \<Rightarrow> form \<Rightarrow> form" where
  "form_dropped D f =
     \<lparr>form_action = scrub_url D (form_action f),
      form_fields = map (\<lambda>(name, _). (name, [])) (form_fields f), form_devices = form_devices f\<rparr>"

definition form_debug :: "'w deps \<Rightarrow> form \<Rightarrow> string \<times> string list" where
  "form_debug D f = (origin_text D (url_origin (form_action f)) @ url_path (form_action f),
     map fst (form_fields f))"

subsection \<open>What is checked\<close>

lemma check_answers_ok_from:
  "check_answers f earlier answers = Inr () \<longleftrightarrow>
     set (map fst answers) \<subseteq> set (map fst (form_fields f)) \<and>
     distinct (map fst answers) \<and> set earlier \<inter> set (map fst answers) = {} \<and>
     (\<forall>v. (''selectedCredentialId'', v) \<in> set answers \<longrightarrow> v \<in> set (form_devices f))"
proof (induction answers arbitrary: earlier)
  case (Cons a answers)
  obtain name v where a: "a = (name, v)" by (cases a)
  have known: "list_ex (\<lambda>(known, _). known = name) (form_fields f) \<longleftrightarrow>
      name \<in> set (map fst (form_fields f))" by (force simp: list_ex_iff)
  show ?case using Cons.IH [of "earlier @ [name]"] unfolding a
    by (simp only: check_answers.simps known) auto
qed simp

lemma check_answers_ok:
  "check_answers f [] answers = Inr () \<longleftrightarrow>
     set (map fst answers) \<subseteq> set (map fst (form_fields f)) \<and> distinct (map fst answers) \<and>
     (\<forall>v. (''selectedCredentialId'', v) \<in> set answers \<longrightarrow> v \<in> set (form_devices f))"
  using check_answers_ok_from [of f "[]" answers] by simp

lemma filled_names [simp]: "map fst (filled f answers) = map fst (form_fields f)"
  by (simp add: filled_def case_prod_beta comp_def)

lemma check_action_ok:
  "check_action p a = Inr () \<longleftrightarrow>
     url_scheme a = ''https'' \<and> same_origin (url_origin a) (url_origin p) \<and>
     suffix ACTION_PATH_SUFFIX (url_path a) \<and> distinct (map fst (url_pairs a)) \<and>
     (\<forall>required \<in> set ACTION_QUERY. \<exists>v. v \<noteq> [] \<and> (required, v) \<in> set (url_pairs a))"
  by (simp add: check_action_def ends_with_iff list_all_iff list_ex_iff Bex_def) (metis prod.inject)

text \<open>
  C9. Where a login form may post: a form extracted from a page posts over HTTPS to the page's own
  origin, to a path ending in \<open>/login-actions/authenticate\<close>, with no repeated query parameter and a
  non-empty session code, execution, client and tab; its fields are controls of the page on the
  allow-list of the recognised kind, and the devices a chosen credential must be among are the
  page's.
\<close>

theorem extract_safe:
  assumes "extract_form D p = Inr (kind, f)"
  shows "url_scheme (form_action f) = ''https'' \<and>
    url_origin (form_action f) = url_origin (page_url p) \<and>
    suffix ''/login-actions/authenticate'' (url_path (form_action f)) \<and>
    distinct (map fst (url_pairs (form_action f))) \<and>
    (\<forall>required \<in> {''session_code'', ''execution'', ''client_id'', ''tab_id''}.
       \<exists>v. v \<noteq> [] \<and> (required, v) \<in> set (url_pairs (form_action f))) \<and>
    (case kind of
       UsernamePassword err \<Rightarrow>
         set (map fst (form_fields f)) \<subseteq> {''username'', ''password'', ''credentialId''}
     | OneTimeCodePage devices \<Rightarrow>
         set (map fst (form_fields f)) \<subseteq> {''otp'', ''selectedCredentialId''} \<and>
         (devices \<noteq> [] \<longrightarrow> form_devices f = map device_id devices)
     | Unknown \<Rightarrow> False)"
proof -
  from assms obtain s posted devices where s: "scan_kind s = Some kind"
    and pd: "(posted, devices) = (case kind of OneTimeCodePage ds \<Rightarrow> (OTP_POSTED, map device_id ds)
                      | _ \<Rightarrow> (LOGIN_POSTED, []))"
    and a: "action_url D (page_url p) (scan_action s) = Inr (form_action f)"
    and fs: "form_fields f = posted_fields posted s"
    and ds: "devices \<noteq> [] \<Longrightarrow> form_devices f = devices"
    by (auto simp: extract_form_def Let_def split: option.splits prod.splits if_splits)
  have "check_action (page_url p) (form_action f) = Inr ()"
    using a by (auto simp: action_url_def split: option.splits if_splits)
  moreover have "set (map fst (form_fields f)) \<subseteq> set posted"
    by (auto simp: fs posted_fields_def)
  moreover have "kind \<noteq> Unknown" using s by (auto simp: scan_kind_def split: if_splits)
  ultimately show ?thesis
    using pd ds same_origin_iff [of "url_origin (form_action f)" "url_origin (page_url p)"]
    by (cases kind)
      (auto simp: check_action_ok ACTION_PATH_SUFFIX_def ACTION_QUERY_def LOGIN_POSTED_def
        OTP_POSTED_def)
qed

definition answers_fit :: "form \<Rightarrow> (string \<times> string) list \<Rightarrow> bool" where
  "answers_fit f answers \<longleftrightarrow>
     set (map fst answers) \<subseteq> set (map fst (form_fields f)) \<and> distinct (map fst answers) \<and>
     set (map snd (filter (\<lambda>(name, _). name = ''selectedCredentialId'') answers)) \<subseteq>
       set (form_devices f)"

lemma check_answers_fit: "check_answers f [] answers = Inr () \<longleftrightarrow> answers_fit f answers"
  unfolding check_answers_ok answers_fit_def by auto

lemma submit_accepted:
  "answers_fit f answers \<Longrightarrow>
   submit D f answers st = post_form D (form_action f) (filled f answers) st"
  by (simp add: submit_def try_io_def flip: check_answers_fit)

lemma submit_refused: "\<not> answers_fit f answers \<Longrightarrow> \<exists>e. submit D f answers st = (Inl e, st)"
  by (cases "check_answers f [] answers") (auto simp: submit_def try_io_def simp flip: check_answers_fit)

text \<open>
  What posting sends: \<open>submit\<close> sends nothing and changes nothing unless every answer names a
  field of the page, none twice, and a chosen device is one the page offers; then it posts to the
  form's action exactly the page's fields in page order, each with its answer if it has one and
  the page's own value otherwise.
\<close>

theorem submit_posts:
  "if answers_fit f answers
   then submit D f answers st = post_form D (form_action f)
          (map (\<lambda>(name, v). (name, case map_of answers name of None \<Rightarrow> v | Some a \<Rightarrow> a))
             (form_fields f)) st
   else (\<exists>e. submit D f answers st = (Inl e, st))"
proof -
  have "(case find (\<lambda>(answered, _). answered = name) answers of None \<Rightarrow> v | Some (_, a) \<Rightarrow> a) =
      (case map_of answers name of None \<Rightarrow> v | Some a \<Rightarrow> a)" for name v
    by (induction answers) auto
  then show ?thesis by (simp add: submit_accepted submit_refused filled_def)
qed

subsection \<open>A concrete login page\<close>

definition tag_with :: "string \<Rightarrow> (string \<times> string) list \<Rightarrow> html_token" where
  "tag_with name attrs = StartTag \<lparr>tag_name = name, self_closing = False, attributes = attrs\<rparr>"

definition login_tokens :: "html_token list" where
  "login_tokens =
     [tag_with ''form'' [(''action'', ''a''), (''method'', ''post'')],
      tag_with ''input'' [(''name'', ''username'')],
      tag_with ''input'' [(''name'', ''password'')], EndTag ''form'']"

definition example_action :: url where
  "example_action = example_url\<lparr>url_path := ''/login-actions/authenticate'',
     url_pairs := map (\<lambda>n. (n, ''v'')) ACTION_QUERY\<rparr>"

definition login_deps :: "unit deps" where
  "login_deps = no_deps\<lparr>tokenize := (\<lambda>_. login_tokens), url_join := (\<lambda>_ _. Some example_action)\<rparr>"

definition login_page :: page where
  "login_page = \<lparr>page_url = example_url, page_status = 200, page_body = []\<rparr>"

definition login_form :: form where
  "login_form = \<lparr>form_action = example_action,
     form_fields = [(''username'', []), (''password'', [])], form_devices = []\<rparr>"

lemma lossy_ascii: "list_all (\<lambda>c. code c < 0x80) s \<Longrightarrow> from_utf8_lossy s = s"
  by (rule from_utf8_lossy_id [OF valid_utf8_ascii])

lemmas scan_eval = scan_start_def scan_nest_def scan_element_def scan_error_id_def scan_tile_def
  scan_control_def scan_end_def scan_begin_def attribute_def tag_with_def lossy_ascii
  to_ascii_lowercase_def ascii_lower_def

definition login_scanned :: scan where
  "login_scanned = scan_new\<lparr>forms := 1, scan_action := Some ''a'', scan_method := Some ''post'',
     controls := [\<lparr>control_name = ''username'', control_kind = ''text'', control_value = [],
                    control_checked = False\<rparr>,
                  \<lparr>control_name = ''password'', control_kind = ''text'', control_value = [],
                    control_checked = False\<rparr>]\<rparr>"

lemma login_scan: "scan_run login_deps html = Some login_scanned"
  by (simp add: scan_run_def login_deps_def login_tokens_def scan_new_def scan_eval Let_def
      login_scanned_def)

lemma login_scan_kind: "scan_kind login_scanned = Some (UsernamePassword None)"
  by (simp add: login_page_exact scan_new_def login_scanned_def)

lemma login_action: "action_url login_deps example_url (Some ''a'') = Inr example_action"
proof -
  have "check_action example_url example_action = Inr ()"
    by (simp add: check_action_ok example_action_def example_url_def ACTION_PATH_SUFFIX_def
        ACTION_QUERY_def)
  then show ?thesis by (simp add: action_url_def login_deps_def)
qed

lemma extract_login: "extract_form login_deps login_page = Inr (UsernamePassword None, login_form)"
proof -
  have "Option.bind (from_utf8 (page_body login_page)) (scan_run login_deps) = Some login_scanned"
    "page_url login_page = example_url"
    by (simp_all add: login_page_def from_utf8_def valid_utf8_ascii login_scan)
  moreover have "scan_method login_scanned = Some ''post''" "scan_action login_scanned = Some ''a''"
    "posted_fields LOGIN_POSTED login_scanned = [(''username'', []), (''password'', [])]"
    by (simp_all add: login_scanned_def posted_fields_def LOGIN_POSTED_def)
  ultimately show ?thesis
    by (simp add: extract_form_def login_scan_kind login_action login_form_def)
qed

theorem extract_safe_witness:
  "extract_form login_deps login_page = Inr (UsernamePassword None, login_form) \<and>
   url_origin (form_action login_form) = url_origin (page_url login_page) \<and>
   set (map fst (form_fields login_form)) \<subseteq> {''username'', ''password'', ''credentialId''}"
  using extract_login extract_safe [OF extract_login] by simp

subsection \<open>Debug output\<close>

text \<open>
  Nothing secret in debug output: two forms whose actions have the same origin and path and
  whose fields have the same names, two pages or redirects whose URLs have the same origin and
  path, and two jars with the same origins and numbers of cookies print the same, whatever their
  queries, fragments, session codes, field values, bodies of the same length and cookie lines.
\<close>

theorem debug_redacts:
  "form_debug D (f\<lparr>form_action := u\<lparr>url_query := q, url_fragment := fr, url_pairs := ps, url_text := t\<rparr>,
      form_fields := map (\<lambda>(n, v). (n, secret v)) (form_fields f)\<rparr>) =
     form_debug D (f\<lparr>form_action := u\<rparr>) \<and>
   page_debug D (p\<lparr>page_url := u\<lparr>url_query := q, url_fragment := fr, url_pairs := ps, url_text := t\<rparr>,
      page_body := map g (page_body p)\<rparr>) = page_debug D (p\<lparr>page_url := u\<rparr>) \<and>
   redirect_debug D (r\<lparr>location := u\<lparr>url_query := q, url_fragment := fr, url_pairs := ps, url_text := t\<rparr>\<rparr>) =
     redirect_debug D (r\<lparr>location := u\<rparr>) \<and>
   jar_debug D (map (\<lambda>(o1, ls). (o1, map secret ls)) jar) = jar_debug D jar"
  by (auto simp: form_debug_def page_debug_def redirect_debug_def redacted_def jar_debug_def
      case_prod_beta comp_def)

end
