(* ===== verification/Factor.thy ===== *)
theory Factor
  imports Form
begin

text \<open>
  \<open>src/flow/factor.rs\<close>, the handlers that turn a page into challenges and answers into form
  fields, and \<open>Expect\<close> of \<open>src/flow/driver.rs\<close>, what an open challenge accepts. A dynamic
  \<open>PageFactor\<close> is a record of its two methods; \<open>Factors::for_page\<close> is a function into it.
\<close>

subsection \<open>What a challenge accepts\<close>

datatype expect =
    Expect_Username
  | Expect_Password
  | Expect_OneTimeCode "string list"
  | Expect_RecoveryCode
  | Expect_WebAuthn "string list"
  | Expect_ChooseMethod "string list"
  | Expect_RequiredAction "string list"
  | Expect_Info

fun expect_of :: "challenge \<Rightarrow> expect" where
  "expect_of Ask_Username = Expect_Username"
| "expect_of Ask_Password = Expect_Password"
| "expect_of (Ask_OneTimeCode devices) = Expect_OneTimeCode (map device_id devices)"
| "expect_of (Ask_RecoveryCode hint) = Expect_RecoveryCode"
| "expect_of (Ask_WebAuthn request) = Expect_WebAuthn (map cd_id (wc_allow_credentials request))"
| "expect_of (Ask_ChooseMethod methods) = Expect_ChooseMethod (map method_id methods)"
| "expect_of (Ask_RequiredAction action) = Expect_RequiredAction (map ff_name (ra_fields action))"
| "expect_of (Ask_Info message) = Expect_Info"

definition mismatch :: error where
  "mismatch = Protocol ''answer does not match the challenge''"

fun expect_check :: "expect \<Rightarrow> answer \<Rightarrow> unit res" where
  "expect_check Expect_Username (Username _) = Inr ()"
| "expect_check Expect_Password (Password _) = Inr ()"
| "expect_check Expect_RecoveryCode (RecoveryCode _) = Inr ()"
| "expect_check Expect_Info Acknowledge = Inr ()"
| "expect_check (Expect_OneTimeCode devices) (OneTimeCode _ device) =
     (case device of
        None \<Rightarrow> if devices = [] then Inr () else Inl mismatch
      | Some d \<Rightarrow>
          if d \<in> set devices then Inr () else Inl (Protocol ''device not offered by the page''))"
| "expect_check (Expect_WebAuthn allowed) (WebAuthn assertion) =
     (if allowed = [] \<or> wa_credential_id assertion \<in> set allowed then Inr ()
      else Inl (Protocol ''credential not allowed''))"
| "expect_check (Expect_ChooseMethod methods) (ChooseMethod method) =
     (if method \<in> set methods then Inr () else Inl (Protocol ''method not offered''))"
| "expect_check (Expect_RequiredAction names) (RequiredAction given) =
     (if length given = length names \<and>
         list_all (\<lambda>field. length (filter (\<lambda>(name, _). name = field) given) = 1) names
      then Inr () else Inl (Protocol ''answer does not match the required action''))"
| "expect_check _ _ = Inl mismatch"

definition accepts :: "challenge \<Rightarrow> answer \<Rightarrow> bool" where
  "accepts c a = is_ok (expect_check (expect_of c) a)"

lemma accepts_password [simp]: "accepts Ask_Password a \<longleftrightarrow> (\<exists>s. a = Password s)"
  by (cases a) (auto simp: accepts_def)

lemma accepts_username [simp]: "accepts Ask_Username a \<longleftrightarrow> (\<exists>s. a = Username s)"
  by (cases a) (auto simp: accepts_def)

lemma count_once:
  "length (filter (\<lambda>(n, _). n = f) given) = 1 \<Longrightarrow> f \<in> set (map fst given)"
  by (cases "filter (\<lambda>(n, _). n = f) given") (auto simp: filter_eq_Cons_iff)

text \<open>
  A required action accepts exactly the answers that give every one of its (different) fields once
  and nothing else.
\<close>

lemma required_action_fields:
  assumes "accepts (Ask_RequiredAction action) (RequiredAction given)"
    and "distinct (map ff_name (ra_fields action))"
  shows "set (map fst given) = set (map ff_name (ra_fields action)) \<and> distinct (map fst given)"
proof -
  let ?names = "map ff_name (ra_fields action)"
  from assms(1) have len: "length given = length ?names"
    and once: "\<And>f. f \<in> set ?names \<Longrightarrow> length (filter (\<lambda>(n, _). n = f) given) = 1"
    by (auto simp: accepts_def list_all_iff split: if_splits)
  have sub: "set ?names \<subseteq> set (map fst given)"
    by (rule subsetI, rule count_once, rule once)
  have names: "card (set ?names) = length ?names" using assms(2) by (rule distinct_card)
  have "card (set (map fst given)) \<le> length (map fst given)" by (rule card_length)
  with names len have "card (set (map fst given)) \<le> card (set ?names)"
    by (simp only: length_map)
  then have eq: "set ?names = set (map fst given)" by (rule card_seteq [OF finite_set sub])
  have "card (set (map fst given)) = length (map fst given)"
    by (simp only: eq [symmetric] names) (simp only: length_map len)
  then have "distinct (map fst given)" by (rule card_distinct)
  with eq show ?thesis by blast
qed

subsection \<open>The factors\<close>

record page_factor =
  pf_challenges :: "page_kind \<Rightarrow> string option \<Rightarrow> challenge list res"
  pf_fields :: "page_kind \<Rightarrow> answer list \<Rightarrow> (string \<times> string) list res"

type_synonym factors = "page_kind \<Rightarrow> page_factor option"

definition password_challenges :: "page_kind \<Rightarrow> string option \<Rightarrow> challenge list res" where
  "password_challenges kind login_hint =
     (case kind of
        UsernamePassword _ \<Rightarrow>
          Inr (if login_hint \<noteq> None then [Ask_Password] else [Ask_Username, Ask_Password])
      | _ \<Rightarrow> Inl UnsupportedFactor)"

fun password_field :: "answer \<Rightarrow> (string \<times> string) res" where
  "password_field (Username name) = Inr (''username'', name)"
| "password_field (Password password) = Inr (''password'', password)"
| "password_field _ = Inl (Protocol ''answer does not belong to the password page'')"

definition password_fields :: "page_kind \<Rightarrow> answer list \<Rightarrow> (string \<times> string) list res" where
  "password_fields kind answers = collect_res (map password_field answers)"

definition PasswordFactor :: page_factor where
  "PasswordFactor = \<lparr>pf_challenges = password_challenges, pf_fields = password_fields\<rparr>"

definition Builtin :: factors where
  "Builtin kind = (case kind of UsernamePassword _ \<Rightarrow> Some PasswordFactor | _ \<Rightarrow> None)"

subsection \<open>The contract of a factor\<close>

text \<open>
  What the driver relies on, for any factor: a page it handles asks at least one challenge, and
  once every challenge has an accepted answer the fields exist, name different fields of the page
  and never a device the page did not offer. From it, once for all factors: the form of a page
  whose challenges were all answered is always posted, never refused locally after the user typed
  the secrets.
\<close>

locale factor_contract =
  fixes ask :: "page_kind \<Rightarrow> string option \<Rightarrow> challenge list res"
    and give :: "page_kind \<Rightarrow> answer list \<Rightarrow> (string \<times> string) list res"
    and serves :: "page_kind \<Rightarrow> form \<Rightarrow> bool"
  assumes asks: "ask kind hint = Inr cs \<Longrightarrow> cs \<noteq> []"
    and gives: "ask kind hint = Inr cs \<Longrightarrow> serves kind f \<Longrightarrow> list_all2 accepts cs answers \<Longrightarrow>
      \<exists>fs. give kind answers = Inr fs \<and> answers_fit f fs \<and> length fs = length answers"
begin

lemma answered_page_is_posted:
  assumes "ask kind hint = Inr cs" "serves kind f" "list_all2 accepts cs answers"
  obtains fs where "give kind answers = Inr fs" "length fs = length cs"
    "\<And>D st. submit D f fs st = post_form D (form_action f) (filled f fs) st"
proof -
  from gives [OF assms] obtain fs where "give kind answers = Inr fs" "answers_fit f fs"
    "length fs = length answers" by blast
  with assms(3) show thesis by (intro that) (auto simp: submit_accepted dest: list_all2_lengthD)
qed

end

text \<open>The login page's factor serves forms that have both of its fields.\<close>

definition password_serves :: "page_kind \<Rightarrow> form \<Rightarrow> bool" where
  "password_serves kind f \<longleftrightarrow>
     {''username'', ''password''} \<subseteq> set (map fst (form_fields f))"

interpretation password: factor_contract password_challenges password_fields password_serves
proof unfold_locales
  show "cs \<noteq> []" if "password_challenges kind hint = Inr cs" for kind hint cs
    using that by (auto simp: password_challenges_def split: page_kind.splits if_splits)
next
  fix kind hint cs f answers
  assume a: "password_challenges kind hint = Inr cs" "password_serves kind f"
    "list_all2 accepts cs answers"
  from a(1) consider "cs = [Ask_Password]" | "cs = [Ask_Username, Ask_Password]"
    by (auto simp: password_challenges_def split: page_kind.splits if_splits)
  then show "\<exists>fs. password_fields kind answers = Inr fs \<and> answers_fit f fs \<and>
      length fs = length answers"
    using a(2,3)
    by cases (force simp: list_all2_Cons1 password_fields_def answers_fit_def password_serves_def)+
qed

text \<open>
  A login page that was asked is posted: whenever the password factor's challenges for a page
  have accepted answers and the page's form has both fields, posting sends the form with the
  username and password given, in the order asked, and the check of the form cannot refuse it.
\<close>

theorem answered_login_is_posted:
  assumes "password_challenges kind hint = Inr cs"
    and "{''username'', ''password''} \<subseteq> set (map fst (form_fields f))"
    and "list_all2 accepts cs answers"
  shows "\<exists>fs. password_fields kind answers = Inr fs \<and> length fs = length cs \<and>
    submit D f fs st = post_form D (form_action f) (filled f fs) st"
proof -
  have "password_serves kind f" using assms(2) by (simp only: password_serves_def)
  from password.answered_page_is_posted [OF assms(1) this assms(3)] obtain fs where
    "password_fields kind answers = Inr fs" "length fs = length cs"
    "submit D f fs st = post_form D (form_action f) (filled f fs) st" by metis
  then show ?thesis by (intro exI conjI)
qed

theorem answered_login_is_posted_witness:
  "\<exists>fs. password_fields (UsernamePassword None) [Username ''u'', Password ''p''] = Inr fs \<and>
     length fs = 2 \<and> submit login_deps login_form fs ([], ()) =
       post_form login_deps example_action (filled login_form fs) ([], ())"
proof -
  have "password_challenges (UsernamePassword None) None = Inr [Ask_Username, Ask_Password]"
    by (simp add: password_challenges_def)
  moreover have "{''username'', ''password''} \<subseteq> set (map fst (form_fields login_form))"
    by (simp add: login_form_def)
  moreover have "list_all2 accepts [Ask_Username, Ask_Password] [Username ''u'', Password ''p'']"
    by simp
  ultimately obtain fs where "password_fields (UsernamePassword None)
      [Username ''u'', Password ''p''] = Inr fs" "length fs = 2"
    "submit login_deps login_form fs ([], ()) =
       post_form login_deps (form_action login_form) (filled login_form fs) ([], ())"
    using answered_login_is_posted [of "UsernamePassword None" None "[Ask_Username, Ask_Password]"
        login_form "[Username ''u'', Password ''p'']" login_deps "([], ())"] by auto
  then show ?thesis by (auto simp: login_form_def)
qed

text \<open>
  Answers must match: a challenge accepts only an answer of its own kind; a code names a
  device exactly when the page lists some, and one it lists; a credential or a method must have
  been offered; a required action takes every field it asked for exactly once and nothing else.
\<close>

theorem accepts_sound:
  assumes "accepts c a"
  shows "(case c of
      Ask_Username \<Rightarrow> \<exists>s. a = Username s
    | Ask_Password \<Rightarrow> \<exists>s. a = Password s
    | Ask_OneTimeCode devices \<Rightarrow> \<exists>otp d. a = OneTimeCode otp d \<and>
        (case d of None \<Rightarrow> devices = [] | Some i \<Rightarrow> i \<in> set (map device_id devices))
    | Ask_RecoveryCode hint \<Rightarrow> \<exists>s. a = RecoveryCode s
    | Ask_WebAuthn r \<Rightarrow> \<exists>w. a = WebAuthn w \<and> (wc_allow_credentials r = [] \<or>
        wa_credential_id w \<in> set (map cd_id (wc_allow_credentials r)))
    | Ask_ChooseMethod methods \<Rightarrow> \<exists>m. a = ChooseMethod m \<and> m \<in> set (map method_id methods)
    | Ask_RequiredAction action \<Rightarrow> \<exists>given. a = RequiredAction given \<and>
        (distinct (map ff_name (ra_fields action)) \<longrightarrow> distinct (map fst given) \<and>
         set (map fst given) = set (map ff_name (ra_fields action)))
    | Ask_Info m \<Rightarrow> a = Acknowledge)"
proof (cases c)
  case (Ask_RequiredAction action)
  with assms show ?thesis
    using required_action_fields [of action] by (cases a) (auto simp: accepts_def)
qed (use assms in \<open>cases a; auto simp: accepts_def split: option.splits if_splits\<close>)+

theorem accepts_sound_witness:
  "accepts (Ask_OneTimeCode [\<lparr>device_id = ''b7'', device_label = ''Phone''\<rparr>])
     (OneTimeCode ''123456'' (Some ''b7'')) \<and>
   (\<exists>otp d. OneTimeCode ''123456'' (Some ''b7'') = OneTimeCode otp d \<and>
      (case d of None \<Rightarrow> False | Some i \<Rightarrow> i = ''b7''))"
proof -
  have a: "accepts (Ask_OneTimeCode [\<lparr>device_id = ''b7'', device_label = ''Phone''\<rparr>])
      (OneTimeCode ''123456'' (Some ''b7''))" by (simp add: accepts_def)
  from accepts_sound [OF a] a show ?thesis by simp
qed

end
