(* ===== verification/Standard.thy ===== *)
theory Standard
  imports Transport Flow_Types
begin

text \<open>
  \<open>src/standard.rs\<close>: the token endpoint's grants, revocation and userinfo. Every function is one
  request over the transport (\<open>http_send\<close> of \<open>'w deps\<close>) and a decision on the response.
\<close>

definition claims_of :: "'w deps \<Rightarrow> string \<Rightarrow> json option" where
  "claims_of D body = parse (parse_number D) body"

definition grant_error :: "'w deps \<Rightarrow> nat \<Rightarrow> string \<Rightarrow> error" where
  "grant_error D status body =
     (let reported = Option.bind (claims_of D body) (\<lambda>v. str_field v ''error'') in
      if reported = Some ''invalid_grant'' \<or> reported = Some ''access_denied''
      then AuthenticationRejected
      else if reported \<in> {Some ''invalid_client'', Some ''unauthorized_client'',
                          Some ''unsupported_grant_type'', Some ''invalid_request''}
      then InvalidConfiguration ''Keycloak rejected the client or requested grant''
      else if status = 401 \<or> status = 403 then AuthenticationRejected
      else HttpStatus status)"

definition optional_token :: "json \<Rightarrow> string \<Rightarrow> string option res" where
  "optional_token parsed name =
     (case jget parsed name of
        None \<Rightarrow> Inr None
      | Some JNull \<Rightarrow> Inr None
      | Some (JString v) \<Rightarrow> Inr (Some v)
      | _ \<Rightarrow> Inl (Protocol ''invalid token response''))"

definition token_response :: "json \<Rightarrow> bool \<Rightarrow> tokens res" where
  "token_response parsed require_id_token =
     try_res (ok_or (str_field parsed ''access_token'') (Protocol ''invalid token response''))
       (\<lambda>access. try_res (ok_or (str_field parsed ''token_type'') (Protocol ''invalid token response''))
       (\<lambda>kind. try_res (optional_token parsed ''refresh_token'')
       (\<lambda>refresh. try_res (optional_token parsed ''id_token'')
       (\<lambda>ident.
          if \<not> eq_ignore_ascii_case kind ''bearer'' \<or> access = []
          then Inl (Protocol ''unexpected token type'')
          else if require_id_token \<and> ident = None
          then Inl (Protocol ''token response has no ID token'')
          else Inr \<lparr>access_token = access, refresh_token = refresh, id_token = ident,
                    verified_subject = None, verified_issuer = None, verified_client_id = None,
                    verified_refresh_token = None\<rparr>))))"

definition read_grant :: "'w deps \<Rightarrow> bool \<Rightarrow> response \<Rightarrow> tokens res" where
  "read_grant D require_id_token response =
     (if resp_status response \<in> {400, 401, 403}
      then Inl (grant_error D (resp_status response) (resp_body response))
      else if resp_status response \<noteq> 200 then Inl (HttpStatus (resp_status response))
      else try_res (ok_or (claims_of D (resp_body response)) (Protocol ''invalid token response''))
             (\<lambda>parsed. token_response parsed require_id_token))"

definition acquire ::
  "'w deps \<Rightarrow> url \<Rightarrow> (string \<times> string) list \<Rightarrow> bool \<Rightarrow> ('w, tokens) act" where
  "acquire D endpoint fs require_id_token =
     try_io (lift (request_form D endpoint fs)) (\<lambda>request.
     try_io (http_send D request) (\<lambda>response.
     lift (read_grant D require_id_token response)))"

definition revoke :: "'w deps \<Rightarrow> url \<Rightarrow> string \<Rightarrow> string \<Rightarrow> ('w, unit) act" where
  "revoke D endpoint client token =
     try_io (lift (request_form D endpoint [(''client_id'', client), (''token'', token)]))
       (\<lambda>request. try_io (http_send D request) (\<lambda>response.
          lift (if resp_status response \<in> {200, 204} then Inr ()
                else Inl (HttpStatus (resp_status response)))))"

definition bearer_request :: "url \<Rightarrow> string \<Rightarrow> request" where
  "bearer_request endpoint access =
     (request_get endpoint)\<lparr>req_headers := [''Authorization: Bearer '' @ access]\<rparr>"

definition fetch_userinfo :: "'w deps \<Rightarrow> url \<Rightarrow> string \<Rightarrow> ('w, json) act" where
  "fetch_userinfo D endpoint access =
     try_io (http_send D (bearer_request endpoint access)) (\<lambda>response.
       lift (if resp_status response = 401 then Inl AuthenticationRejected
             else if resp_status response \<noteq> 200 then Inl (HttpStatus (resp_status response))
             else ok_or (claims_of D (resp_body response)) (Protocol ''invalid userinfo response'')))"

subsection \<open>What a grant guarantees\<close>

lemma optional_token_Inr:
  "optional_token parsed name = Inr t \<Longrightarrow> t = str_field parsed name"
  by (auto simp: optional_token_def str_field_def split: option.splits json.splits)

lemma token_response_Inr:
  assumes "token_response parsed required = Inr t"
  shows "str_field parsed ''access_token'' = Some (access_token t) \<and> access_token t \<noteq> [] \<and>
    refresh_token t = str_field parsed ''refresh_token'' \<and>
    id_token t = str_field parsed ''id_token'' \<and> (required \<longrightarrow> id_token t \<noteq> None) \<and>
    (\<exists>kind. str_field parsed ''token_type'' = Some kind \<and> eq_ignore_ascii_case kind ''bearer'') \<and>
    verified_subject t = None \<and> verified_issuer t = None \<and> verified_client_id t = None \<and>
    verified_refresh_token t = None"
  using assms by (auto simp: token_response_def dest: optional_token_Inr split: if_splits)

lemma acquire_Inr:
  assumes "acquire D endpoint fs required w = (Inr t, w')"
  obtains request response parsed where "request_form D endpoint fs = Inr request"
    "http_send D request w = (Inr response, w')" "resp_status response = 200"
    "claims_of D (resp_body response) = Some parsed" "token_response parsed required = Inr t"
  using assms by (auto simp: acquire_def read_grant_def try_io_eq_Inr split: if_splits)

text \<open>
  A grant succeeds only on a sound response: tokens are returned only for status 200 and a
  JSON body that parses completely, with a non-empty access token, a bearer type (in any case),
  a refresh and an ID token that are texts or absent, an ID token when one is required, and no
  verified identity yet.
\<close>

theorem acquire_sound:
  assumes "acquire D endpoint fs required w = (Inr t, w')"
  shows "\<exists>request response parsed kind. request_form D endpoint fs = Inr request \<and>
    http_send D request w = (Inr response, w') \<and> resp_status response = 200 \<and>
    claims_of D (resp_body response) = Some parsed \<and>
    str_field parsed ''access_token'' = Some (access_token t) \<and> access_token t \<noteq> [] \<and>
    str_field parsed ''token_type'' = Some kind \<and> eq_ignore_ascii_case kind ''bearer'' \<and>
    refresh_token t = str_field parsed ''refresh_token'' \<and>
    id_token t = str_field parsed ''id_token'' \<and> (required \<longrightarrow> id_token t \<noteq> None) \<and>
    verified_subject t = None"
  using assms by (elim acquire_Inr) (auto dest!: token_response_Inr)

definition grant_claims :: json where
  "grant_claims = JObject [(''access_token'', JString ''at''), (''token_type'', JString ''Bearer''),
     (''id_token'', JString ''it'')]"

lemma grant_claims_parsed: "claims_of no_deps (show_json grant_claims) = Some grant_claims"
  unfolding claims_of_def
  by (rule parse_show) (auto simp: grant_claims_def json_depth.simps max_depth_def
      intro!: valid_utf8_ascii)

theorem acquire_sound_witness:
  "\<exists>t. acquire (answering \<lparr>resp_status = 200, resp_headers = [], resp_body = show_json grant_claims,
       resp_cookies = []\<rparr>) example_url [(''grant_type'', ''password'')] True () = (Inr t, ()) \<and>
     access_token t = ''at'' \<and> id_token t \<noteq> None"
proof -
  let ?D = "answering \<lparr>resp_status = 200, resp_headers = [], resp_body = show_json grant_claims,
       resp_cookies = []\<rparr>"
  have "claims_of ?D (show_json grant_claims) = Some grant_claims"
    using grant_claims_parsed by (simp add: claims_of_def answering_def no_deps_def)
  moreover have "eq_ignore_ascii_case ''Bearer'' ''bearer''"
    by (simp add: eq_ignore_ascii_case_def to_ascii_lowercase_def ascii_lower_def char_of_eq_iff)
  then obtain t where t: "token_response grant_claims True = Inr t" "access_token t = ''at''"
    by (simp add: token_response_def grant_claims_def str_field_def optional_token_def)
  moreover have "http_send ?D = (\<lambda>_ w. (Inr \<lparr>resp_status = 200, resp_headers = [],
      resp_body = show_json grant_claims, resp_cookies = []\<rparr>, w))" by (simp add: answering_def)
  ultimately have t1: "acquire ?D example_url [(''grant_type'', ''password'')] True () = (Inr t, ())"
    by (simp add: acquire_def try_io_def request_form_def form_capacity_def checked_def MAX_FORM_def
        read_grant_def)
  from acquire_sound [OF t1] t1 t(2) show ?thesis by blast
qed

end
