(* ===== verification/Token.thy ===== *)
theory Token
  imports Standard Crypto_Mod Fetch Client_Config
begin

text \<open>
  \<open>src/token.rs\<close>: discovery of the realm's endpoints, the authorization request, the JWKS, and the
  verification of ID tokens. Base64, the JSON deserializers and URL building are fields of
  \<open>'w deps\<close>; the clock is read from the outside world where the code reads it.
\<close>

subsection \<open>Realms in paths\<close>

definition segments :: "string \<Rightarrow> string list" where
  "segments path = filter (\<lambda>s. s \<noteq> []) (split_char (CHR ''/'') path)"

definition issuer_realm :: "string \<Rightarrow> string option" where
  "issuer_realm path =
     (case foldl (\<lambda>(previous, last_segment) segment. (last_segment, Some segment))
             (None, None) (segments path) of
        (Some p, Some r) \<Rightarrow> if p = ''realms'' then Some r else None
      | _ \<Rightarrow> None)"

definition endpoint_in_realm :: "string \<Rightarrow> string \<Rightarrow> bool" where
  "endpoint_in_realm path rlm =
     (let segs = segments path in
      case rposition (\<lambda>(a, b). a = ''realms'' \<and> b = rlm) (zip segs (tl segs)) of
        None \<Rightarrow> False
      | Some at \<Rightarrow>
          list_all (\<lambda>s. s \<noteq> ''realms'' \<and> CHR ''%'' \<notin> set s) (drop (at + 2) segs))"

subsection \<open>Discovery\<close>

record metadata =
  md_issuer :: string
  authorization_endpoint :: url
  token_endpoint :: url
  jwks_uri :: url
  userinfo_endpoint :: url
  revocation_endpoint :: url

definition endpoint :: "'w deps \<Rightarrow> string \<Rightarrow> url \<Rightarrow> url res" where
  "endpoint D raw issuer =
     (case url_parse D raw of
        None \<Rightarrow> Inl (Protocol ''invalid OIDC endpoint'')
      | Some u \<Rightarrow>
          if url_scheme u \<noteq> ''https'' \<or> \<not> same_origin (url_origin u) (url_origin issuer)
          then Inl (Protocol ''OIDC endpoint origin mismatch'')
          else if url_username u \<noteq> [] \<or> url_password u \<noteq> None
          then Inl (Protocol ''OIDC endpoint contains credentials'')
          else if url_fragment u \<noteq> None
          then Inl (Protocol ''OIDC endpoint contains fragment'')
          else if (case issuer_realm (url_path issuer) of
                     None \<Rightarrow> False | Some rlm \<Rightarrow> \<not> endpoint_in_realm (url_path u) rlm)
          then Inl (Protocol ''OIDC endpoint outside issuer realm'')
          else Inr u)"

definition issuer_text :: "url \<Rightarrow> string" where
  "issuer_text u = trim_end_matches (\<lambda>c. c = CHR ''/'') (url_text u)"

definition read_metadata :: "'w deps \<Rightarrow> url \<Rightarrow> response \<Rightarrow> metadata res" where
  "read_metadata D expected response =
     (if resp_status response \<noteq> 200 then Inl (HttpStatus (resp_status response))
      else try_res (ok_or (parse_metadata D (resp_body response))
                      (Protocol ''invalid discovery document'')) (\<lambda>raw.
        if raw_issuer raw \<noteq> issuer_text expected
        then Inl (Protocol ''discovered issuer mismatch'')
        else try_res (endpoint D (raw_authorization_endpoint raw) expected) (\<lambda>a.
             try_res (endpoint D (raw_token_endpoint raw) expected) (\<lambda>t.
             try_res (endpoint D (raw_jwks_uri raw) expected) (\<lambda>j.
             try_res (endpoint D (raw_userinfo_endpoint raw) expected) (\<lambda>u.
             try_res (endpoint D (raw_revocation_endpoint raw) expected) (\<lambda>r.
               Inr \<lparr>md_issuer = raw_issuer raw, authorization_endpoint = a, token_endpoint = t,
                    jwks_uri = j, userinfo_endpoint = u, revocation_endpoint = r\<rparr>)))))))"

definition discover :: "'w deps \<Rightarrow> url \<Rightarrow> ('w, metadata) act" where
  "discover D expected =
     try_io (lift (ok_or (url_parse D (issuer_text expected @ ''/.well-known/openid-configuration''))
                     (Protocol ''invalid discovery URL''))) (\<lambda>u.
     try_io (http_send D (request_get u)) (\<lambda>response.
     lift (read_metadata D expected response)))"

subsection \<open>The authorization request\<close>

record authorization_parameters =
  ap_client_id :: string
  ap_redirect_uri :: url
  ap_login_hint :: "string option"
  ap_scopes :: "string list"
  ap_pkce_verifier :: string
  ap_state :: string
  ap_nonce :: string

definition RESERVED_PARAMETERS :: "string list" where
  "RESERVED_PARAMETERS =
     [''response_type'', ''client_id'', ''redirect_uri'', ''scope'', ''code_challenge'',
      ''code_challenge_method'', ''state'', ''nonce'', ''login_hint'', ''response_mode'',
      ''request'', ''request_uri'']"

definition valid_scope_token :: "string \<Rightarrow> bool" where
  "valid_scope_token scope \<longleftrightarrow>
     scope \<noteq> [] \<and>
     list_all (\<lambda>b. code b = 0x21 \<or> 0x23 \<le> code b \<and> code b \<le> 0x5B \<or>
        0x5D \<le> code b \<and> code b \<le> 0x7E) scope"

definition valid_pkce_verifier :: "string \<Rightarrow> bool" where
  "valid_pkce_verifier verifier \<longleftrightarrow>
     43 \<le> length verifier \<and> length verifier \<le> 128 \<and>
     list_all (\<lambda>b. is_ascii_alphanumeric b \<or> b \<in> {CHR ''-'', CHR ''.'', CHR ''_'', CHR ''~''}) verifier"

definition valid_request_token :: "string \<Rightarrow> bool" where
  "valid_request_token v \<longleftrightarrow>
     length v = 22 \<and> list_all (\<lambda>b. is_ascii_alphanumeric b \<or> b \<in> {CHR ''-'', CHR ''_''}) v"

definition pkce_challenge :: "'w deps \<Rightarrow> string \<Rightarrow> string res" where
  "pkce_challenge D verifier = try_res (sha256 D verifier) (\<lambda>digest. Inr (b64_encode D digest))"

fun normalize_scopes :: "string list \<Rightarrow> string list \<Rightarrow> string list res" where
  "normalize_scopes known [] = Inr known"
| "normalize_scopes known (scope # scopes) =
     (if \<not> valid_scope_token scope then Inl (Protocol ''invalid authorization scope'')
      else if scope \<noteq> ''openid'' \<and> scope \<notin> set known
      then normalize_scopes (known @ [scope]) scopes
      else normalize_scopes known scopes)"

definition request_pairs ::
  "authorization_parameters \<Rightarrow> string list \<Rightarrow> string \<Rightarrow> (string \<times> string) list" where
  "request_pairs p scopes challenge =
     [(''response_type'', ''code''), (''client_id'', ap_client_id p),
      (''redirect_uri'', url_text (ap_redirect_uri p)), (''scope'', join_with '' '' scopes),
      (''code_challenge'', challenge), (''code_challenge_method'', ''S256''),
      (''state'', ap_state p), (''nonce'', ap_nonce p)] @
     (case ap_login_hint p of None \<Rightarrow> [] | Some hint \<Rightarrow> [(''login_hint'', hint)])"

definition authorization_url ::
  "'w deps \<Rightarrow> url \<Rightarrow> authorization_parameters \<Rightarrow> url res" where
  "authorization_url D ep p =
     (if list_ex (\<lambda>(name, _). name \<in> set RESERVED_PARAMETERS) (url_pairs ep)
      then Inl (Protocol ''authorization endpoint parameter collision'')
      else if \<not> valid_pkce_verifier (ap_pkce_verifier p) \<or> \<not> valid_request_token (ap_state p) \<or>
              \<not> valid_request_token (ap_nonce p)
      then Inl (Protocol ''invalid authorization request secret'')
      else try_res (normalize_scopes [''openid''] (ap_scopes p)) (\<lambda>scopes.
           try_res (pkce_challenge D (ap_pkce_verifier p)) (\<lambda>challenge.
             Inr (url_append_pairs D ep (request_pairs p scopes challenge)))))"

subsection \<open>Keys\<close>

definition fetch_jwks :: "'w deps \<Rightarrow> url \<Rightarrow> ('w, json) act" where
  "fetch_jwks D u =
     try_io (http_send D (request_get u)) (\<lambda>response.
       lift (if resp_status response \<noteq> 200 then Inl (HttpStatus (resp_status response))
             else try_res (ok_or (parse_value D (resp_body response)) (Protocol ''invalid JWKS''))
               (\<lambda>jwks. if (case array_field jwks ''keys'' of None \<Rightarrow> True | Some keys \<Rightarrow> keys = [])
                 then Inl (Protocol ''JWKS has no keys'') else Inr jwks)))"

definition split_token :: "string \<Rightarrow> (string \<times> string \<times> string) res" where
  "split_token token =
     (case split_char (CHR ''.'') token of
        [hdr, claims, signature] \<Rightarrow>
          if hdr \<noteq> [] \<and> claims \<noteq> [] \<and> signature \<noteq> [] then Inr (hdr, claims, signature)
          else Inl (TokenValidation ''malformed JWT'')
      | _ \<Rightarrow> Inl (TokenValidation ''malformed JWT''))"

definition decode_json :: "'w deps \<Rightarrow> string \<Rightarrow> json res" where
  "decode_json D part =
     try_res (ok_or (b64_decode D part) (TokenValidation ''invalid JWT encoding'')) (\<lambda>bytes.
       ok_or (claims_of D bytes) (TokenValidation ''invalid JWT JSON''))"

definition token_key_info :: "'w deps \<Rightarrow> string \<Rightarrow> (string \<times> string) res" where
  "token_key_info D token =
     try_res (split_token token) (\<lambda>(hdr, _, _).
     try_res (decode_json D hdr) (\<lambda>header_json.
     try_res (ok_or (str_field header_json ''kid'') (TokenValidation ''token has no key ID'')) (\<lambda>kid.
     try_res (ok_or (str_field header_json ''alg'') (TokenValidation ''missing algorithm'')) (\<lambda>algorithm.
       if algorithm \<notin> {''RS256'', ''ES256''}
       then Inl (TokenValidation ''unsupported signing algorithm'')
       else Inr (kid, algorithm)))))"

definition field_matches :: "json \<Rightarrow> string \<Rightarrow> string \<Rightarrow> bool" where
  "field_matches key name expected \<longleftrightarrow> jget key name = None \<or> str_field key name = Some expected"

definition ops_allow_verify :: "json \<Rightarrow> bool" where
  "ops_allow_verify key \<longleftrightarrow>
     (case jget key ''key_ops'' of
        None \<Rightarrow> True
      | Some ops \<Rightarrow>
          (case as_array ops of
             None \<Rightarrow> False
           | Some os \<Rightarrow> list_ex (\<lambda>oper. as_str oper = Some ''verify'') os \<and>
               list_all (\<lambda>oper. as_str oper \<noteq> None) os))"

definition key_eligible :: "json \<Rightarrow> string \<Rightarrow> string \<Rightarrow> bool" where
  "key_eligible key kid algorithm \<longleftrightarrow>
     str_field key ''kid'' = Some kid \<and> field_matches key ''use'' ''sig'' \<and>
     field_matches key ''alg'' algorithm \<and> ops_allow_verify key \<and>
     (if algorithm = ''RS256'' then str_field key ''kty'' = Some ''RSA''
      else if algorithm = ''ES256''
      then str_field key ''kty'' = Some ''EC'' \<and> str_field key ''crv'' = Some ''P-256''
      else False)"

definition jwks_has_eligible_key :: "json \<Rightarrow> string \<Rightarrow> string \<Rightarrow> bool" where
  "jwks_has_eligible_key jwks kid algorithm =
     (case array_field jwks ''keys'' of
        None \<Rightarrow> False | Some keys \<Rightarrow> list_ex (\<lambda>key. key_eligible key kid algorithm) keys)"

subsection \<open>Claims\<close>

definition audience_matches :: "json \<Rightarrow> string \<Rightarrow> bool" where
  "audience_matches claims client =
     (if jget claims ''azp'' \<noteq> None \<and> str_field claims ''azp'' \<noteq> Some client then False
      else (case jget claims ''aud'' of
              Some (JString aud) \<Rightarrow> aud = client
            | Some (JArray aud) \<Rightarrow>
                list_all (\<lambda>item. as_str item \<noteq> None) aud \<and>
                list_ex (\<lambda>item. as_str item = Some client) aud \<and>
                (length aud = 1 \<or> str_field claims ''azp'' = Some client)
            | _ \<Rightarrow> False))"

text \<open>The checks after the clock was read.\<close>

definition timely :: "json \<Rightarrow> string option \<Rightarrow> nat \<Rightarrow> unit res" where
  "timely claims nonce now =
     try_res (ok_or (u64_field claims ''exp'') (TokenValidation ''missing expiry'')) (\<lambda>expiry.
       if expiry \<le> now then Inl (TokenValidation ''token expired'')
       else try_res (case jget claims ''nbf'' of
                None \<Rightarrow> Inr ()
              | Some nbf \<Rightarrow>
                  try_res (ok_or (json_u64 nbf) (TokenValidation ''invalid not-before time'')) (\<lambda>t.
                    if saturating_add now 60 < t
                    then Inl (TokenValidation ''token not yet valid'') else Inr ())) (\<lambda>_.
            try_res (ok_or (u64_field claims ''iat'') (TokenValidation ''missing issued-at time''))
              (\<lambda>issued_at.
                if saturating_add now 60 < issued_at
                then Inl (TokenValidation ''token issued in future'')
                else if (case nonce of None \<Rightarrow> False
                         | Some expected \<Rightarrow> str_field claims ''nonce'' \<noteq> Some expected)
                then Inl (TokenValidation ''nonce mismatch'')
                else if (case str_field claims ''sub'' of None \<Rightarrow> True | Some s \<Rightarrow> s = [])
                then Inl (TokenValidation ''missing subject'')
                else Inr ())))"

definition validate_claims ::
  "'w deps \<Rightarrow> json \<Rightarrow> string \<Rightarrow> string \<Rightarrow> string option \<Rightarrow> ('w, unit) act" where
  "validate_claims D claims issuer client nonce =
     (if str_field claims ''iss'' \<noteq> Some issuer then throw (TokenValidation ''issuer mismatch'')
      else if \<not> audience_matches claims client
      then throw (TokenValidation ''audience mismatch'')
      else try_io (attempt (system_now D) (TokenValidation ''clock before epoch'')) (\<lambda>now.
        lift (timely claims nonce now)))"

text \<open>
  The loop over the eligible keys: whether one verified; wolfCrypt's own failure ends it, any
  other error is a key that does not match.
\<close>

fun try_keys :: "'w deps \<Rightarrow> string \<Rightarrow> string \<Rightarrow> string \<Rightarrow> json list \<Rightarrow> bool res" where
  "try_keys D algorithm message signature [] = Inr False"
| "try_keys D algorithm message signature (key # keys) =
     (case verify D algorithm key message signature of
        Inr _ \<Rightarrow> Inr True
      | Inl e \<Rightarrow>
          if e = Crypto then Inl Crypto else try_keys D algorithm message signature keys)"

text \<open>The part of \<open>verify_id_token\<close> before the claims are checked: the claims, or the error.\<close>

definition signed_claims :: "'w deps \<Rightarrow> string \<Rightarrow> json \<Rightarrow> json res" where
  "signed_claims D token jwks =
     try_res (split_token token) (\<lambda>(hdr, claims, signature).
     try_res (decode_json D hdr) (\<lambda>header_json.
     try_res (decode_json D claims) (\<lambda>claims_json.
     try_res (ok_or (str_field header_json ''alg'') (TokenValidation ''missing algorithm'')) (\<lambda>algorithm.
       if algorithm \<notin> {''RS256'', ''ES256''}
       then Inl (TokenValidation ''unsupported signing algorithm'')
       else try_res (ok_or (str_field header_json ''kid'') (TokenValidation ''missing key ID'')) (\<lambda>kid.
            try_res (ok_or (array_field jwks ''keys'') (TokenValidation ''invalid JWKS'')) (\<lambda>keys.
            try_res (ok_or (b64_decode D signature)
                       (TokenValidation ''invalid signature encoding'')) (\<lambda>sig_bytes.
              let eligible = filter (\<lambda>key. key_eligible key kid algorithm) keys in
              try_res (try_keys D algorithm (hdr @ ''.'' @ claims) sig_bytes eligible)
                (\<lambda>verified.
                  if verified then Inr claims_json
                  else if eligible = []
                  then Inl (TokenValidation
                    (if list_ex (\<lambda>key. str_field key ''kid'' = Some kid) keys
                     then ''JWK not valid for token signature'' else ''unknown key ID''))
                  else Inl (TokenValidation ''invalid signature'')))))))))"

definition verify_id_token ::
  "'w deps \<Rightarrow> string \<Rightarrow> json \<Rightarrow> string \<Rightarrow> string \<Rightarrow> string option \<Rightarrow> ('w, json) act" where
  "verify_id_token D token jwks issuer client nonce =
     try_io (lift (signed_claims D token jwks)) (\<lambda>claims.
     try_io (validate_claims D claims issuer client nonce) (\<lambda>_. ret claims))"

lemma rposition_at: "rposition p xs = Some i \<Longrightarrow> i < length xs \<and> p (xs ! i)"
  by (simp add: rposition_Some_iff)

subsection \<open>What the realm check accepts\<close>

lemma foldl_last_two:
  "foldl (\<lambda>(previous, last_segment) segment. (last_segment, Some segment)) (None, None) segs =
     (if length segs < 2 then None else Some (segs ! (length segs - 2)),
      if segs = [] then None else Some (last segs))"
  by (induction segs rule: rev_induct) (auto simp: nth_append last_conv_nth Suc_diff_Suc)

lemma issuer_realm_iff:
  "issuer_realm path = Some r \<longleftrightarrow> (\<exists>before. segments path = before @ [''realms'', r])"
proof (cases "segments path" rule: rev_cases)
  case Nil
  then show ?thesis by (simp add: issuer_realm_def)
next
  case (snoc ys y)
  then show ?thesis
    by (cases ys rule: rev_cases) (auto simp: issuer_realm_def foldl_last_two)
qed

text \<open>
  The position the code looks for is the last pair; the pairs that qualify have nothing after them
  that could start another realm, so there is at most one and it is the last.
\<close>

lemma endpoint_in_realm_iff:
  "endpoint_in_realm path r \<longleftrightarrow>
     (\<exists>before after. segments path = before @ [''realms'', r] @ after \<and>
        list_all (\<lambda>s. s \<noteq> ''realms'' \<and> CHR ''%'' \<notin> set s) after)"
  (is "_ \<longleftrightarrow> ?split")
proof -
  define segs where "segs = segments path"
  let ?p = "\<lambda>(a, b). a = ''realms'' \<and> b = r"
  let ?ok = "list_all (\<lambda>s. s \<noteq> ''realms'' \<and> CHR ''%'' \<notin> set s)"
  have pair: "i < length (zip segs (tl segs)) \<and> ?p (zip segs (tl segs) ! i) \<longleftrightarrow>
      Suc i < length segs \<and> segs ! i = ''realms'' \<and> segs ! Suc i = r" for i
    by (cases "Suc i < length segs") (auto simp: nth_tl)
  have "endpoint_in_realm path r \<longleftrightarrow>
      (\<exists>i. rposition ?p (zip segs (tl segs)) = Some i \<and> ?ok (drop (i + 2) segs))"
    by (auto simp: endpoint_in_realm_def segs_def Let_def split: option.split)
  also have "\<dots> \<longleftrightarrow> (\<exists>i. Suc i < length segs \<and> segs ! i = ''realms'' \<and> segs ! Suc i = r \<and>
      ?ok (drop (i + 2) segs))"
  proof (intro iffI; elim exE conjE)
    fix i assume at: "rposition ?p (zip segs (tl segs)) = Some i" and ok: "?ok (drop (i + 2) segs)"
    from at have "i < length (zip segs (tl segs)) \<and> ?p (zip segs (tl segs) ! i)"
      by (rule rposition_at)
    then have "Suc i < length segs \<and> segs ! i = ''realms'' \<and> segs ! Suc i = r"
      by (simp only: pair)
    with ok show "\<exists>i. Suc i < length segs \<and> segs ! i = ''realms'' \<and> segs ! Suc i = r \<and>
        ?ok (drop (i + 2) segs)" by blast
  next
    fix i assume i: "Suc i < length segs" "segs ! i = ''realms''" "segs ! Suc i = r"
      and ok: "?ok (drop (i + 2) segs)"
    have free: "segs ! k \<noteq> ''realms''" if kb: "i + 2 \<le> k" "k < length segs" for k
    proof -
      obtain n where k: "k = i + 2 + n" using le_Suc_ex [OF kb(1)] by blast
      then have "segs ! k = drop (i + 2) segs ! n" "n < length (drop (i + 2) segs)"
        using kb by simp_all
      then have "segs ! k \<in> set (drop (i + 2) segs)" by (simp only: nth_mem)
      with ok show ?thesis by (auto simp: list_all_iff)
    qed
    have "\<not> ?p (zip segs (tl segs) ! j)" if j: "i < j" "j < length (zip segs (tl segs))" for j
    proof
      assume "?p (zip segs (tl segs) ! j)"
      with pair [of j] j have s: "Suc j < length segs" "segs ! j = ''realms''" "segs ! Suc j = r"
        by auto
      show False
      proof (cases "j = Suc i")
        case True
        with s i have "segs ! Suc j = ''realms''" by simp
        with free [of "Suc j"] s True show False by simp
      next
        case False
        with j(1) free [of j] s show False by simp
      qed
    qed
    then have "rposition ?p (zip segs (tl segs)) = Some i"
      using pair [of i] i by (auto simp: rposition_Some_iff)
    with ok show "\<exists>i. rposition ?p (zip segs (tl segs)) = Some i \<and> ?ok (drop (i + 2) segs)"
      by blast
  qed
  also have "\<dots> \<longleftrightarrow> ?split"
  proof (intro iffI; elim exE conjE)
    fix i assume i: "Suc i < length segs" "segs ! i = ''realms''" "segs ! Suc i = r"
      "?ok (drop (i + 2) segs)"
    then have "segs = take i segs @ [''realms'', r] @ drop (i + 2) segs"
      by (metis Cons_nth_drop_Suc Suc_lessD add_2_eq_Suc' append_Cons append_Nil append_take_drop_id)
    with i(4) show ?split unfolding segs_def by blast
  next
    fix before after
    assume "segments path = before @ [''realms'', r] @ after" "?ok after"
    then show "\<exists>i. Suc i < length segs \<and> segs ! i = ''realms'' \<and> segs ! Suc i = r \<and>
        ?ok (drop (i + 2) segs)"
      by (intro exI [of _ "length before"]) (simp add: segs_def nth_append)
  qed
  finally show ?thesis .
qed

text \<open>
  C24. The realm boundary, exactly: an endpoint path counts as inside a realm if and only if it
  splits into segments, then \<open>realms\<close> and that realm, then segments none of which is \<open>realms\<close> or
  holds a percent sign, which could hide one; and the realm an issuer names is the segment after
  its final \<open>realms\<close>, at the end of the path.
\<close>

theorem realm_check_exact:
  "(endpoint_in_realm path r \<longleftrightarrow>
     (\<exists>before after. segments path = before @ [''realms'', r] @ after \<and>
        list_all (\<lambda>s. s \<noteq> ''realms'' \<and> CHR ''%'' \<notin> set s) after)) \<and>
   (issuer_realm path = Some r \<longleftrightarrow> (\<exists>before. segments path = before @ [''realms'', r]))"
  using endpoint_in_realm_iff issuer_realm_iff by blast

definition endpoint_ok :: "url \<Rightarrow> url \<Rightarrow> bool" where
  "endpoint_ok issuer u \<longleftrightarrow>
     url_scheme u = ''https'' \<and> url_origin u = url_origin issuer \<and> url_username u = [] \<and>
     url_password u = None \<and> url_fragment u = None \<and>
     (case issuer_realm (url_path issuer) of
        None \<Rightarrow> True | Some rlm \<Rightarrow> endpoint_in_realm (url_path u) rlm)"

lemma endpoint_Inr: "endpoint D raw issuer = Inr u \<Longrightarrow> url_parse D raw = Some u \<and> endpoint_ok issuer u"
  using same_origin_iff [of "url_origin u" "url_origin issuer"]
  by (auto simp: endpoint_def endpoint_ok_def split: option.splits if_splits)

text \<open>
  C22. Discovery cannot redirect the client: the metadata a login works with names exactly the
  expected issuer, and its five endpoints are HTTPS URLs on the issuer's own origin, without
  credentials or fragment, inside the issuer's realm.
\<close>

theorem discover_sound:
  assumes "discover D expected w = (Inr m, w')"
  shows "md_issuer m = issuer_text expected \<and>
    list_all (endpoint_ok expected) [authorization_endpoint m, token_endpoint m, jwks_uri m,
      userinfo_endpoint m, revocation_endpoint m]"
  using assms
  by (auto simp: discover_def read_metadata_def try_io_eq_Inr dest!: endpoint_Inr split: if_splits)

definition realm_metadata :: raw_metadata where
  "realm_metadata = \<lparr>raw_issuer = ''https://kc.test/realms/test'', raw_authorization_endpoint = [],
     raw_token_endpoint = [], raw_jwks_uri = [], raw_userinfo_endpoint = [],
     raw_revocation_endpoint = []\<rparr>"

theorem discover_sound_witness:
  "\<exists>m. discover ((answering \<lparr>resp_status = 200, resp_headers = [], resp_body = [], resp_cookies = []\<rparr>)
       \<lparr>url_parse := (\<lambda>_. Some example_url), parse_metadata := (\<lambda>_. Some realm_metadata)\<rparr>)
       example_url () = (Inr m, ()) \<and>
     md_issuer m = ''https://kc.test/realms/test'' \<and> endpoint_ok example_url (token_endpoint m)"
proof -
  let ?D = "(answering \<lparr>resp_status = 200, resp_headers = [], resp_body = [], resp_cookies = []\<rparr>)
       \<lparr>url_parse := (\<lambda>_. Some example_url), parse_metadata := (\<lambda>_. Some realm_metadata)\<rparr>"
  have segs: "segments ''/realms/test'' = [''realms'', ''test'']" by (simp add: segments_def)
  have "endpoint_in_realm ''/realms/test'' ''test''"
    unfolding endpoint_in_realm_iff segs by (intro exI [of _ "[]"]) simp
  moreover have "issuer_realm ''/realms/test'' = Some ''test''"
    unfolding issuer_realm_iff segs by simp
  moreover have "issuer_text example_url = ''https://kc.test/realms/test''"
    by (simp add: issuer_text_def trim_end_matches_def example_url_def)
  ultimately obtain m where m: "discover ?D example_url () = (Inr m, ())"
    by (simp add: discover_def try_io_def read_metadata_def answering_def realm_metadata_def
        endpoint_def example_url_def)
  from discover_sound [OF m] m \<open>issuer_text example_url = _\<close> show ?thesis by auto
qed

subsection \<open>Who a token is for\<close>

text \<open>
  The audience rule, exactly: a token is for this client if and only if its authorized party
  is absent or this client, and its audience is this client alone, as a text or a list of one, or
  a list of texts containing this client with this client as the authorized party.
\<close>

theorem audience_exact:
  "audience_matches claims client \<longleftrightarrow>
     (jget claims ''azp'' = None \<or> jget claims ''azp'' = Some (JString client)) \<and>
     (jget claims ''aud'' = Some (JString client) \<or>
      jget claims ''aud'' = Some (JArray [JString client]) \<or>
      (\<exists>auds. jget claims ''aud'' = Some (JArray (map JString auds)) \<and> client \<in> set auds \<and>
         jget claims ''azp'' = Some (JString client)))"
proof -
  have str: "as_str v = Some s \<longleftrightarrow> v = JString s" for v s by (cases v) auto
  have field: "str_field claims ''azp'' = Some client \<longleftrightarrow> jget claims ''azp'' = Some (JString client)"
    by (cases "jget claims ''azp''") (simp_all add: str_field_def str)
  have strings: "list_all (\<lambda>item. as_str item \<noteq> None) vs \<longleftrightarrow> (\<exists>ss. vs = map JString ss)" for vs
  proof (induction vs)
    case (Cons v vs)
    have "as_str v \<noteq> None \<longleftrightarrow> (\<exists>s. v = JString s)" by (cases v) auto
    with Cons show ?case by (auto simp: Cons_eq_map_conv)
  qed simp
  have contains: "list_ex (\<lambda>item. as_str item = Some client) (map JString ss) \<longleftrightarrow> client \<in> set ss" for ss
    by (auto simp: list_ex_iff)
  have array: "list_all (\<lambda>item. as_str item \<noteq> None) vs \<and>
      list_ex (\<lambda>item. as_str item = Some client) vs \<and> (length vs = 1 \<or> P) \<longleftrightarrow>
      vs = [JString client] \<or> (\<exists>auds. vs = map JString auds \<and> client \<in> set auds \<and> P)" for vs P
  proof
    assume l: "list_all (\<lambda>item. as_str item \<noteq> None) vs \<and>
      list_ex (\<lambda>item. as_str item = Some client) vs \<and> (length vs = 1 \<or> P)"
    then obtain ss where "vs = map JString ss" unfolding strings by blast
    with l contains show "vs = [JString client] \<or>
        (\<exists>auds. vs = map JString auds \<and> client \<in> set auds \<and> P)"
      by (auto simp: length_Suc_conv)
  next
    assume "vs = [JString client] \<or> (\<exists>auds. vs = map JString auds \<and> client \<in> set auds \<and> P)"
    then show "list_all (\<lambda>item. as_str item \<noteq> None) vs \<and>
        list_ex (\<lambda>item. as_str item = Some client) vs \<and> (length vs = 1 \<or> P)"
      using contains by (auto simp: list_all_iff)
  qed
  show ?thesis
  proof (cases "jget claims ''aud''")
    case None
    then show ?thesis by (simp add: audience_matches_def)
  next
    case (Some v)
    show ?thesis
    proof (cases "\<exists>vs. v = JArray vs")
      case True
      then obtain vs where vs: "v = JArray vs" by blast
      have "audience_matches claims client \<longleftrightarrow>
          (jget claims ''azp'' = None \<or> jget claims ''azp'' = Some (JString client)) \<and>
          (list_all (\<lambda>item. as_str item \<noteq> None) vs \<and>
           list_ex (\<lambda>item. as_str item = Some client) vs \<and>
           (length vs = 1 \<or> jget claims ''azp'' = Some (JString client)))"
        unfolding audience_matches_def field Some vs option.case json.case by simp
      then show ?thesis unfolding array using Some vs by auto
    next
      case False
      then show ?thesis unfolding audience_matches_def field Some by (cases v) auto
    qed
  qed
qed

subsection \<open>What a verified token guarantees\<close>

lemma try_keys_verified:
  "try_keys D alg message signature keys = Inr True \<Longrightarrow>
   \<exists>key \<in> set keys. verify D alg key message signature = Inr ()"
  by (induction keys) (auto split: sum.splits if_splits)

lemma split_token_Inr:
  "split_token token = Inr (h, c, s) \<Longrightarrow> split_char (CHR ''.'') token = [h, c, s]"
  by (auto simp: split_token_def split: list.splits if_splits)

definition properly_signed :: "'w deps \<Rightarrow> string \<Rightarrow> json \<Rightarrow> json \<Rightarrow> bool" where
  "properly_signed D token jwks claims \<longleftrightarrow>
     (\<exists>h c s hj alg kid keys key sig_bytes.
        split_char (CHR ''.'') token = [h, c, s] \<and> decode_json D h = Inr hj \<and>
        decode_json D c = Inr claims \<and> str_field hj ''alg'' = Some alg \<and>
        str_field hj ''kid'' = Some kid \<and> array_field jwks ''keys'' = Some keys \<and>
        key \<in> set keys \<and> key_eligible key kid alg \<and> b64_decode D s = Some sig_bytes \<and>
        verify D alg key (h @ ''.'' @ c) sig_bytes = Inr ())"

lemma signed_claims_Inr:
  assumes "signed_claims D token jwks = Inr claims"
  shows "properly_signed D token jwks claims"
proof -
  from assms obtain h c s hj alg kid keys sig_bytes where
    "split_token token = Inr (h, c, s)" "decode_json D h = Inr hj" "decode_json D c = Inr claims"
    "str_field hj ''alg'' = Some alg" "str_field hj ''kid'' = Some kid"
    "array_field jwks ''keys'' = Some keys" "b64_decode D s = Some sig_bytes"
    "try_keys D alg (h @ ''.'' @ c) sig_bytes (filter (\<lambda>key. key_eligible key kid alg) keys) = Inr True"
    by (auto simp: signed_claims_def Let_def split: if_splits)
  moreover from try_keys_verified [OF this(8)] obtain key where "key \<in> set keys"
    "key_eligible key kid alg" "verify D alg key (h @ ''.'' @ c) sig_bytes = Inr ()"
    by (metis (no_types, lifting) mem_Collect_eq set_filter)
  ultimately show ?thesis unfolding properly_signed_def by (blast dest: split_token_Inr)
qed

lemma timely_iff:
  "timely claims nonce now = Inr () \<longleftrightarrow>
     (\<exists>expiry. u64_field claims ''exp'' = Some expiry \<and> now < expiry) \<and>
     (jget claims ''nbf'' = None \<or>
        (\<exists>t. u64_field claims ''nbf'' = Some t \<and> t \<le> saturating_add now 60)) \<and>
     (\<exists>t. u64_field claims ''iat'' = Some t \<and> t \<le> saturating_add now 60) \<and>
     (nonce = None \<or> str_field claims ''nonce'' = nonce) \<and>
     (\<exists>s. str_field claims ''sub'' = Some s \<and> s \<noteq> [])"
  by (cases "jget claims ''nbf''"; cases nonce; cases "str_field claims ''sub''")
    (auto simp: timely_def u64_field_def not_le not_less split: if_splits)

lemma validate_claims_Inr:
  "validate_claims D claims issuer client nonce w = (Inr u, w') \<longleftrightarrow>
     str_field claims ''iss'' = Some issuer \<and> audience_matches claims client \<and>
     (\<exists>now. system_now D w = (Some now, w') \<and> timely claims nonce now = Inr ())"
  by (auto simp: validate_claims_def try_io_eq_Inr)

text \<open>
  C5. A verified ID token: the claims \<open>verify_id_token\<close> returns are the payload of a three-part
  token whose header and payload are signed, under the algorithm the header names, by a key of the
  JWKS with that key ID that is eligible for it; they name the issuer and this client as audience,
  are unexpired, not from the future beyond a minute by the clock read during the check, carry the
  nonce of this login when it has one, and a non-empty subject.
\<close>

theorem verify_id_token_sound:
  assumes "verify_id_token D token jwks issuer client nonce w = (Inr claims, w')"
  shows "properly_signed D token jwks claims \<and>
    str_field claims ''iss'' = Some issuer \<and> audience_matches claims client \<and>
    (\<exists>now expiry issued. system_now D w = (Some now, w') \<and>
       u64_field claims ''exp'' = Some expiry \<and> now < expiry \<and>
       u64_field claims ''iat'' = Some issued \<and> issued \<le> now + 60 \<and>
       (jget claims ''nbf'' = None \<or> (\<exists>t. u64_field claims ''nbf'' = Some t \<and> t \<le> now + 60))) \<and>
    (nonce = None \<or> str_field claims ''nonce'' = nonce) \<and>
    (\<exists>s. str_field claims ''sub'' = Some s \<and> s \<noteq> [])"
proof -
  have sat: "t \<le> saturating_add now 60 \<Longrightarrow> t \<le> now + 60" for t now
    by (simp add: saturating_add_def)
  from assms have signed: "signed_claims D token jwks = Inr claims"
    and valid: "validate_claims D claims issuer client nonce w = (Inr (), w')"
    by (auto simp: verify_id_token_def try_io_eq_Inr)
  from valid obtain now where "system_now D w = (Some now, w')" "timely claims nonce now = Inr ()"
    and "str_field claims ''iss'' = Some issuer" "audience_matches claims client"
    by (auto simp: validate_claims_Inr)
  then show ?thesis using signed_claims_Inr [OF signed] sat unfolding timely_iff by blast
qed

subsection \<open>A concrete token\<close>

text \<open>
  A signed token for the examples: base64 is replaced by a code with the same lengths on secrets,
  the signature primitives accept.
\<close>

definition example_secret :: "nat \<Rightarrow> string" where
  "example_secret n = replicate ((4 * n + 2) div 3) (CHR ''A'')"

lemma length_example_secret [simp]: "length (example_secret n) = (4 * n + 2) div 3"
  by (simp add: example_secret_def)

lemma example_secret_utf8 [simp]: "valid_utf8 (example_secret n)"
  by (rule valid_utf8_ascii) (simp add: example_secret_def list_all_iff)

text \<open>A 2048-bit modulus.\<close>

definition example_modulus :: string where
  "example_modulus = example_secret 192"

lemma example_modulus [simp]: "length example_modulus = 256" "example_modulus \<noteq> ''h''"
  "example_modulus \<noteq> ''c''"
  by (auto simp: example_modulus_def dest!: arg_cong [of _ _ length])

definition jose_header :: json where
  "jose_header = JObject [(''alg'', JString ''RS256''), (''kid'', JString ''k'')]"

definition id_claims :: json where
  "id_claims = JObject [(''iss'', JString ''https://kc.test/realms/test''), (''aud'', JString ''c''),
     (''exp'', JNumber \<lparr>as_u64 = Some 9, number_text = ''9''\<rparr>),
     (''iat'', JNumber \<lparr>as_u64 = Some 7, number_text = ''7''\<rparr>), (''sub'', JString ''u''),
     (''nonce'', JString (example_secret 16))]"

definition signing_key :: json where
  "signing_key = JObject [(''kty'', JString ''RSA''), (''kid'', JString ''k''),
     (''n'', JString example_modulus), (''e'', JString ''AQAB'')]"

definition signing_jwks :: json where
  "signing_jwks = JObject [(''keys'', JArray [signing_key])]"

definition token_deps :: "unit deps" where
  "token_deps = no_deps\<lparr>b64_encode := (\<lambda>s. example_secret (length s)),
     b64_decode := (\<lambda>s. Some (if s = ''h'' then show_json jose_header
       else if s = ''c'' then show_json id_claims else s)), parse_number := small_number\<rparr>"

lemma token_deps_simps [simp]:
  "b64_encode token_deps s = example_secret (length s)"
  "b64_decode token_deps s = Some (if s = ''h'' then show_json jose_header
     else if s = ''c'' then show_json id_claims else s)"
  "parse_number token_deps = small_number"
  "system_now token_deps = (\<lambda>w. (Some 0, w))" "wolf_init token_deps"
  "wolf_sha256 token_deps = Some" "url_append_pairs token_deps u ps = u"
  by (simp_all add: token_deps_def no_deps_def)

lemma small_number_digit:
  "small_number ''9'' = Some \<lparr>as_u64 = Some 9, number_text = ''9''\<rparr>"
  "small_number ''7'' = Some \<lparr>as_u64 = Some 7, number_text = ''7''\<rparr>"
  by (simp_all add: small_number_def parse_u64_def strip_prefix_def starts_with_def is_digit_def
      digits_value_def)

lemma token_parts_parsed:
  "parse small_number (show_json jose_header) = Some jose_header"
  "parse small_number (show_json id_claims) = Some id_claims"
  by (rule parse_show; auto simp: jose_header_def id_claims_def json_depth.simps max_depth_def
      number_ok_def small_number_digit is_number_char_def is_digit_def
      intro!: valid_utf8_ascii)+

lemma signed_example:
  assumes "b64_decode D = b64_decode token_deps" "parse_number D = small_number" "wolf_init D"
    and "\<And>n m e. rsa_key_ok D n m e" "\<And>n s. rsa_signature_ok D n s"
      "\<And>n m e t s. rsa_verify D n m e t s"
  shows "signed_claims D ''h.c.s'' signing_jwks = Inr id_claims"
proof -
  have b: "b64_decode D s = b64_decode token_deps s" for s by (simp only: assms(1))
  have "split_token ''h.c.s'' = Inr (''h'', ''c'', ''s'')" by (simp add: split_token_def)
  moreover have "decode_json D ''h'' = Inr jose_header" "decode_json D ''c'' = Inr id_claims"
    by (simp_all add: decode_json_def claims_of_def token_parts_parsed b assms(2))
  moreover have "str_field jose_header ''alg'' = Some ''RS256''"
    "str_field jose_header ''kid'' = Some ''k''"
    by (simp_all add: jose_header_def str_field_def)
  moreover have "array_field signing_jwks ''keys'' = Some [signing_key]"
    by (simp add: signing_jwks_def array_field_def)
  moreover have "key_eligible signing_key ''k'' ''RS256''"
    by (simp add: key_eligible_def signing_key_def str_field_def field_matches_def
        ops_allow_verify_def)
  moreover have "verify D ''RS256'' signing_key m s = Inr ()" for m s
    by (simp add: verify_def crypto_init_def verify_rsa_def signing_key_def str_field_def
        jwk_field_def verify_rsa_size_def b assms(3-))
  ultimately show ?thesis by (simp add: signed_claims_def Let_def b)
qed

lemma signed_by_token_deps: "signed_claims token_deps ''h.c.s'' signing_jwks = Inr id_claims"
  by (rule signed_example) (simp_all add: token_deps_def no_deps_def)

lemma timely_example: "timely id_claims (Some (example_secret 16)) 0 = Inr ()"
  by (simp add: timely_def id_claims_def u64_field_def str_field_def saturating_add_def)

lemma audience_example: "audience_matches id_claims ''c''"
  by (simp add: audience_matches_def id_claims_def)

lemma verified_example:
  assumes "system_now D w = (Some 0, w')" "signed_claims D token jwks = Inr id_claims"
  shows "verify_id_token D token jwks ''https://kc.test/realms/test'' ''c''
    (Some (example_secret 16)) w = (Inr id_claims, w')"
proof -
  have "str_field id_claims ''iss'' = Some ''https://kc.test/realms/test''"
    by (simp add: id_claims_def str_field_def)
  with assms show ?thesis
    by (simp add: verify_id_token_def validate_claims_def timely_example audience_example
        try_io_def attempt_def)
qed

theorem verify_id_token_sound_witness:
  "verify_id_token token_deps ''h.c.s'' signing_jwks ''https://kc.test/realms/test'' ''c''
     (Some (example_secret 16)) () = (Inr id_claims, ()) \<and>
   str_field id_claims ''nonce'' = Some (example_secret 16) \<and>
   properly_signed token_deps ''h.c.s'' signing_jwks id_claims"
proof -
  have v: "verify_id_token token_deps ''h.c.s'' signing_jwks ''https://kc.test/realms/test'' ''c''
     (Some (example_secret 16)) () = (Inr id_claims, ())"
    by (rule verified_example) (simp_all add: signed_by_token_deps)
  from verify_id_token_sound [OF v] v show ?thesis by simp
qed

subsection \<open>What the authorization request carries\<close>

lemma normalize_scopes_Inr:
  assumes "normalize_scopes known scopes = Inr ss"
  shows "\<exists>new. ss = known @ new \<and> set new \<subseteq> set scopes - {''openid''} \<and>
    list_all valid_scope_token scopes \<and> set scopes \<subseteq> insert ''openid'' (set ss) \<and>
    (distinct known \<longrightarrow> distinct ss)"
  using assms
proof (induction known scopes rule: normalize_scopes.induct)
  case (2 known scope scopes)
  then show ?case by (fastforce split: if_splits)
qed simp

lemma authorization_url_Inr:
  assumes "authorization_url D ep p = Inr u"
  obtains scopes challenge where
    "normalize_scopes [''openid''] (ap_scopes p) = Inr scopes"
    "pkce_challenge D (ap_pkce_verifier p) = Inr challenge"
    "u = url_append_pairs D ep (request_pairs p scopes challenge)"
    "set (map fst (url_pairs ep)) \<inter> set RESERVED_PARAMETERS = {}"
    "valid_pkce_verifier (ap_pkce_verifier p)" "valid_request_token (ap_state p)"
    "valid_request_token (ap_nonce p)"
  using assms by (auto simp: authorization_url_def list_ex_iff case_prod_beta split: if_splits)

lemma request_pairs_names:
  "distinct (map fst (request_pairs p scopes challenge)) \<and>
   set (map fst (request_pairs p scopes challenge)) \<subseteq> set RESERVED_PARAMETERS"
  by (auto simp: request_pairs_def RESERVED_PARAMETERS_def split: option.splits)

text \<open>
  C23. The login's binding parameters reach Keycloak exactly once: given that the URL library
  appends query pairs at the end, an authorization URL has every parameter the login depends on
  once, whatever the endpoint's own query holds: the code response type, the client and redirect
  URI, this login's state and nonce, and the S256 challenge of its verifier; its scopes are all
  requested ones, each once, \<open>openid\<close> first.
\<close>

theorem authorization_url_binds:
  assumes "authorization_url D ep p = Inr u"
    and "\<And>e ps. url_pairs (url_append_pairs D e ps) = url_pairs e @ ps"
  shows "\<exists>scopes digest.
    filter (\<lambda>(name, _). name \<in> set RESERVED_PARAMETERS) (url_pairs u) =
      [(''response_type'', ''code''), (''client_id'', ap_client_id p),
       (''redirect_uri'', url_text (ap_redirect_uri p)), (''scope'', join_with '' '' scopes),
       (''code_challenge'', b64_encode D digest), (''code_challenge_method'', ''S256''),
       (''state'', ap_state p), (''nonce'', ap_nonce p)] @
      (case ap_login_hint p of None \<Rightarrow> [] | Some hint \<Rightarrow> [(''login_hint'', hint)]) \<and>
    sha256 D (ap_pkce_verifier p) = Inr digest \<and>
    hd scopes = ''openid'' \<and> distinct scopes \<and>
    set scopes = insert ''openid'' (set (ap_scopes p)) \<and>
    list_all valid_scope_token (ap_scopes p) \<and>
    43 \<le> length (ap_pkce_verifier p) \<and> length (ap_state p) = 22 \<and> length (ap_nonce p) = 22"
proof -
  from assms(1) obtain scopes challenge where
    s: "normalize_scopes [''openid''] (ap_scopes p) = Inr scopes"
    and c: "pkce_challenge D (ap_pkce_verifier p) = Inr challenge"
    and u: "u = url_append_pairs D ep (request_pairs p scopes challenge)"
    and free: "set (map fst (url_pairs ep)) \<inter> set RESERVED_PARAMETERS = {}"
    and valid: "valid_pkce_verifier (ap_pkce_verifier p)" "valid_request_token (ap_state p)"
      "valid_request_token (ap_nonce p)"
    by (rule authorization_url_Inr)
  from c obtain digest where d: "sha256 D (ap_pkce_verifier p) = Inr digest"
    "challenge = b64_encode D digest"
    by (auto simp: pkce_challenge_def)
  from normalize_scopes_Inr [OF s] obtain new where n: "scopes = ''openid'' # new"
    "set new \<subseteq> set (ap_scopes p) - {''openid''}" "list_all valid_scope_token (ap_scopes p)"
    "set (ap_scopes p) \<subseteq> insert ''openid'' (set scopes)" "distinct scopes"
    by auto
  have "filter (\<lambda>(name, _). name \<in> set RESERVED_PARAMETERS) (url_pairs ep) = []"
    using free by (force simp: filter_empty_conv)
  moreover have "filter (\<lambda>(name, _). name \<in> set RESERVED_PARAMETERS)
      (request_pairs p scopes challenge) = request_pairs p scopes challenge"
    using request_pairs_names [of p scopes challenge] by (intro filter_True) auto
  ultimately have "filter (\<lambda>(name, _). name \<in> set RESERVED_PARAMETERS) (url_pairs u) =
      request_pairs p scopes (b64_encode D digest)"
    using u assms(2) d by simp
  moreover have "set scopes = insert ''openid'' (set (ap_scopes p))" using n by auto
  ultimately show ?thesis
    using n valid d unfolding request_pairs_def valid_pkce_verifier_def valid_request_token_def
    by (intro exI [of _ scopes] exI [of _ digest]) simp
qed

definition example_parameters :: authorization_parameters where
  "example_parameters = \<lparr>ap_client_id = ''c'', ap_redirect_uri = example_url,
     ap_login_hint = Some ''alice'', ap_scopes = [''profile'', ''openid''],
     ap_pkce_verifier = example_secret 32, ap_state = example_secret 16,
     ap_nonce = example_secret 16\<rparr>"

lemma all_example_secret: "P (CHR ''A'') \<Longrightarrow> list_all P (example_secret n)"
  by (simp add: example_secret_def list_all_iff)

lemma valid_example_secrets:
  "valid_pkce_verifier (example_secret 32)" "valid_request_token (example_secret 16)"
  unfolding valid_pkce_verifier_def valid_request_token_def
  by (intro conjI all_example_secret; simp add: is_ascii_alphanumeric_def is_digit_def)+

lemma example_scopes:
  "normalize_scopes [''openid''] [''profile'', ''openid''] = Inr [''openid'', ''profile'']"
  by (simp add: valid_scope_token_def)

theorem authorization_url_binds_witness:
  "\<exists>u scopes (digest :: string).
     authorization_url (token_deps\<lparr>url_append_pairs := \<lambda>e ps. e\<lparr>url_pairs := url_pairs e @ ps\<rparr>\<rparr>)
       example_url example_parameters = Inr u \<and>
     filter (\<lambda>(name, _). name \<in> set RESERVED_PARAMETERS) (url_pairs u) =
       [(''response_type'', ''code''), (''client_id'', ''c''),
        (''redirect_uri'', url_text example_url), (''scope'', join_with '' '' scopes),
        (''code_challenge'', example_secret (length digest)), (''code_challenge_method'', ''S256''),
        (''state'', example_secret 16), (''nonce'', example_secret 16), (''login_hint'', ''alice'')] \<and>
     set scopes = {''openid'', ''profile''}"
proof -
  let ?D = "token_deps\<lparr>url_append_pairs := \<lambda>e ps. e\<lparr>url_pairs := url_pairs e @ ps\<rparr>\<rparr>"
  have p: "ap_client_id example_parameters = ''c''" "ap_redirect_uri example_parameters = example_url"
    "ap_login_hint example_parameters = Some ''alice''"
    "ap_scopes example_parameters = [''profile'', ''openid'']"
    "ap_pkce_verifier example_parameters = example_secret 32"
    "ap_state example_parameters = example_secret 16"
    "ap_nonce example_parameters = example_secret 16"
    by (simp_all add: example_parameters_def)
  have "is_ok (pkce_challenge ?D (example_secret 32))"
    by (simp add: pkce_challenge_def sha256_def crypto_init_def)
  then obtain challenge where c: "pkce_challenge ?D (example_secret 32) = Inr challenge"
    unfolding is_ok_iff by blast
  have free: "url_pairs example_url = []" by (simp add: example_url_def)
  have u: "authorization_url ?D example_url example_parameters = Inr (url_append_pairs ?D example_url
      (request_pairs example_parameters [''openid'', ''profile''] challenge))"
    unfolding authorization_url_def p free example_scopes c by (simp add: valid_example_secrets)
  have a: "url_pairs (url_append_pairs ?D e ps) = url_pairs e @ ps" for e ps by simp
  have "b64_encode ?D digest = example_secret (length digest)" for digest by simp
  note f = authorization_url_binds [OF u a, unfolded p this option.case append_Cons append_Nil]
  then obtain scopes and digest :: string where g: "set scopes = insert ''openid'' (set [''profile'', ''openid''])"
    "filter (\<lambda>(name, _). name \<in> set RESERVED_PARAMETERS) (url_pairs (url_append_pairs ?D example_url
      (request_pairs example_parameters [''openid'', ''profile''] challenge))) =
       [(''response_type'', ''code''), (''client_id'', ''c''),
        (''redirect_uri'', url_text example_url), (''scope'', join_with '' '' scopes),
        (''code_challenge'', example_secret (length digest)), (''code_challenge_method'', ''S256''),
        (''state'', example_secret 16), (''nonce'', example_secret 16), (''login_hint'', ''alice'')]"
    by (elim exE conjE) (rule that)
  from g(1) have "set scopes = {''openid'', ''profile''}" by auto
  with u g(2) show ?thesis by (intro exI conjI)
qed

end
