(* ===== verification/Flow.thy ===== *)
theory Flow
  imports Factor Token
begin

text \<open>
  The lifecycle of a login, \<open>AuthFlow\<close> of \<open>src/flow/mod.rs\<close>: a login is active until it is
  finished, cancelled, failed or expired, and then stays as it is. A method runs on the login and
  the outside world, whose clock it reads only where the code does, while the login is active.
\<close>

subsection \<open>The state of a login\<close>

datatype flow_state = Active | Cancelled_State | Expired_State | Failed_State | Finished_State

text \<open>\<open>Pending\<close> of \<open>src/flow/driver.rs\<close>: the page waiting on the caller.\<close>

record pending_page =
  pend_kind :: page_kind
  pend_form :: form
  pend_expect :: expect
  pend_queue :: "challenge list"
  pend_answers :: "answer list"

record auth_flow =
  flow_jar :: cookie_jar
  deadline :: nat
  lifecycle :: flow_state
  pkce_verifier :: string
  oauth_state :: string
  flow_nonce :: string
  pending :: "pending_page option"
  flow_client :: string
  login_hint :: "string option"

definition DEFAULT_LOGIN_TIMEOUT :: nat where
  "DEFAULT_LOGIN_TIMEOUT = 30 * 60 * second"

subsection \<open>The methods\<close>

definition random_base64 :: "'w deps \<Rightarrow> nat \<Rightarrow> ('w, string) act" where
  "random_base64 D n = try_io (random_bytes D n) (\<lambda>bytes. ret (b64_encode D bytes))"

definition new_flow :: "'w deps \<Rightarrow> nat \<Rightarrow> ('w, auth_flow) act" where
  "new_flow D time_limit =
     try_io (observe (instant_now D)) (\<lambda>now.
     try_io (random_base64 D 32) (\<lambda>verifier.
     try_io (random_base64 D 16) (\<lambda>st.
     try_io (random_base64 D 16) (\<lambda>nonce.
       ret \<lparr>flow_jar = jar_new, deadline = now + time_limit, lifecycle = Active,
            pkce_verifier = verifier, oauth_state = st, flow_nonce = nonce, pending = None,
            flow_client = [], login_hint = None\<rparr>))))"

definition clear_secrets :: "auth_flow \<Rightarrow> auth_flow" where
  "clear_secrets f = f\<lparr>pkce_verifier := [], oauth_state := [], flow_nonce := []\<rparr>"

definition end_flow :: "flow_state \<Rightarrow> auth_flow \<Rightarrow> auth_flow" where
  "end_flow st f =
     (let f1 = (if lifecycle f = Active then f\<lparr>lifecycle := st\<rparr> else f)
      in clear_secrets (f1\<lparr>flow_jar := jar_new, pending := None\<rparr>))"

definition expire_if_due :: "'w deps \<Rightarrow> auth_flow \<times> 'w \<Rightarrow> auth_flow \<times> 'w" where
  "expire_if_due D = (\<lambda>(f, w).
     if lifecycle f = Active
     then (case instant_now D w of (now, w') \<Rightarrow>
             (if deadline f \<le> now then end_flow Expired_State f else f, w'))
     else (f, w))"

definition cancel :: "'w deps \<Rightarrow> auth_flow \<times> 'w \<Rightarrow> auth_flow \<times> 'w" where
  "cancel D s = (case expire_if_due D s of (f, w) \<Rightarrow> (end_flow Cancelled_State f, w))"

definition is_active :: "'w deps \<Rightarrow> auth_flow \<times> 'w \<Rightarrow> bool \<times> (auth_flow \<times> 'w)" where
  "is_active D s = (let s' = expire_if_due D s in (lifecycle (fst s') = Active, s'))"

fun active_result :: "flow_state \<Rightarrow> unit res" where
  "active_result Active = Inr ()"
| "active_result Cancelled_State = Inl Cancelled"
| "active_result Expired_State = Inl Expired"
| "active_result Failed_State = Inl (Protocol ''login flow failed'')"
| "active_result Finished_State = Inl (Protocol ''login flow already finished'')"

definition ensure_active :: "'w deps \<Rightarrow> (auth_flow \<times> 'w, unit) act" where
  "ensure_active D s = (let s' = expire_if_due D s in (active_result (lifecycle (fst s')), s'))"

definition finish :: "'w deps \<Rightarrow> (auth_flow \<times> 'w, unit) act" where
  "finish D =
     try_io (ensure_active D) (\<lambda>_. modify_state (\<lambda>(f, w). (end_flow Finished_State f, w)))"

definition fail :: "'w deps \<Rightarrow> auth_flow \<times> 'w \<Rightarrow> auth_flow \<times> 'w" where
  "fail D s = (case expire_if_due D s of (f, w) \<Rightarrow> (end_flow Failed_State f, w))"

text \<open>\<open>Drop\<close> of a login: its three secrets are wiped.\<close>

definition flow_dropped :: "auth_flow \<Rightarrow> auth_flow" where
  "flow_dropped f = clear_secrets f"

subsection \<open>Lifecycle order\<close>

text \<open>Being active is below every other state, and nothing else is related: a login only ends.\<close>

instantiation flow_state :: order
begin

definition less_eq_flow_state :: "flow_state \<Rightarrow> flow_state \<Rightarrow> bool" where
  "less_eq_flow_state a b \<longleftrightarrow> a = Active \<or> a = b"

definition less_flow_state :: "flow_state \<Rightarrow> flow_state \<Rightarrow> bool" where
  "less_flow_state a b \<longleftrightarrow> a = Active \<and> b \<noteq> Active"

instance
  by standard (auto simp: less_eq_flow_state_def less_flow_state_def)

end

lemma flow_state_le [simp]: "Active \<le> a" "a \<noteq> Active \<Longrightarrow> a \<le> b \<longleftrightarrow> b = a"
  by (auto simp: less_eq_flow_state_def)

subsection \<open>What the methods do to each field\<close>

definition wiped :: "auth_flow \<Rightarrow> bool" where
  "wiped f \<longleftrightarrow> flow_jar f = [] \<and> pending f = None \<and> pkce_verifier f = [] \<and> oauth_state f = [] \<and>
     flow_nonce f = []"

text \<open>The invariant of a login: nothing of it is left once it ended.\<close>

definition flow_ok :: "auth_flow \<Rightarrow> bool" where
  "flow_ok f \<longleftrightarrow> lifecycle f = Active \<or> wiped f"

lemma end_flow_fields [flow_simps, simp]:
  "lifecycle (end_flow st f) = (if lifecycle f = Active then st else lifecycle f)"
  "flow_jar (end_flow st f) = []" "pending (end_flow st f) = None"
  "pkce_verifier (end_flow st f) = []" "oauth_state (end_flow st f) = []"
  "flow_nonce (end_flow st f) = []" "deadline (end_flow st f) = deadline f"
  "flow_client (end_flow st f) = flow_client f" "login_hint (end_flow st f) = login_hint f"
  by (simp_all add: end_flow_def clear_secrets_def jar_new_def)

lemma end_flow_wiped [simp]: "wiped (end_flow st f)"
  by (simp add: wiped_def)

lemma end_flow_ended:
  assumes "lifecycle f \<noteq> Active" "flow_ok f"
  shows "end_flow st f = f"
  using assms by (auto simp: flow_ok_def wiped_def intro!: auth_flow.equality)

lemma expire_if_due_ended [flow_simps]:
  "lifecycle f \<noteq> Active \<Longrightarrow> expire_if_due D (f, w) = (f, w)"
  by (simp add: expire_if_due_def)

lemma expire_if_due_active [flow_simps]:
  "lifecycle f = Active \<Longrightarrow> instant_now D w = (now, w') \<Longrightarrow>
   expire_if_due D (f, w) = (if deadline f \<le> now then end_flow Expired_State f else f, w')"
  by (simp add: expire_if_due_def)

lemma ensure_active_cases:
  obtains (go) w' now where "lifecycle f = Active" "instant_now D w = (now, w')" "now < deadline f"
      "ensure_active D (f, w) = (Inr (), (f, w'))"
    | (expires) w' now where "lifecycle f = Active" "instant_now D w = (now, w')"
      "deadline f \<le> now" "ensure_active D (f, w) = (Inl Expired, (end_flow Expired_State f, w'))"
    | (ended) e where "lifecycle f \<noteq> Active" "ensure_active D (f, w) = (Inl e, (f, w))"
      "active_result (lifecycle f) = Inl e"
proof (cases "lifecycle f = Active")
  case True
  obtain now w' where i: "instant_now D w = (now, w')" by (cases "instant_now D w")
  show ?thesis
    using go [OF True i] expires [OF True i] True i
    by (cases "deadline f \<le> now")
      (auto simp: ensure_active_def Let_def expire_if_due_active [OF True i])
next
  case False
  then show ?thesis
    using ended by (cases "lifecycle f") (auto simp: ensure_active_def expire_if_due_ended Let_def)
qed

lemma ensure_active_Inr:
  "ensure_active D (f, w) = (Inr u, (f', w')) \<longleftrightarrow>
     lifecycle f = Active \<and> f' = f \<and> (\<exists>now. instant_now D w = (now, w') \<and> now < deadline f)"
  by (rule ensure_active_cases [of f D w]) auto

lemma ensure_active_Inl:
  assumes "ensure_active D (f, w) = (Inl e, (f', w'))" "flow_ok f"
  shows "lifecycle f' \<noteq> Active \<and> wiped f' \<and> active_result (lifecycle f') = Inl e"
  using assms by (cases rule: ensure_active_cases [of f D w]) (auto simp: flow_ok_def)

lemma finish_Inr:
  "finish D (f, w) = (Inr u, (f', w')) \<longleftrightarrow>
     lifecycle f = Active \<and> f' = end_flow Finished_State f \<and>
     (\<exists>now. instant_now D w = (now, w') \<and> now < deadline f)"
  by (auto simp: finish_def try_io_eq_Inr ensure_active_Inr)

lemma finish_Inl:
  "finish D s = (Inl e, s') \<longleftrightarrow> ensure_active D s = (Inl e, s')"
  by (auto simp: finish_def try_io_eq_Inl)

lemma expire_if_due_ok: "flow_ok f \<Longrightarrow> flow_ok (fst (expire_if_due D (f, w)))"
  by (auto simp: expire_if_due_def flow_ok_def split: prod.splits)

lemma fail_ends:
  "fail D (f, w) = (f', w') \<Longrightarrow> lifecycle f' \<noteq> Active \<and> wiped f' \<and> lifecycle f \<le> lifecycle f'"
  by (auto simp: fail_def expire_if_due_def less_eq_flow_state_def split: prod.splits if_splits)

lemma fail_ended:
  "lifecycle f \<noteq> Active \<Longrightarrow> flow_ok f \<Longrightarrow> fail D (f, w) = (f, w)"
  by (simp add: fail_def expire_if_due_ended end_flow_ended)

subsection \<open>A single-use resource behind a guard\<close>

text \<open>
  The guards of the driver and the client: \<open>Step\<close> closes the login unless the step succeeded,
  \<open>EndLogin\<close> closes it in any case. Dropping the future of a step mid-request is the same as an
  error at that point: the guard's \<open>close\<close> runs on the state reached.
\<close>

definition unless_ok :: "('s \<Rightarrow> 's) \<Rightarrow> ('s, 'e, 'a) io \<Rightarrow> ('s, 'e, 'a) io" where
  "unless_ok close m s = (case m s of (r, t) \<Rightarrow> (r, if is_ok r then t else close t))"

definition in_any_case :: "('s \<Rightarrow> 's) \<Rightarrow> ('s, 'e, 'a) io \<Rightarrow> ('s, 'e, 'a) io" where
  "in_any_case close m s = (case m s of (r, t) \<Rightarrow> (r, close t))"

lemma unless_ok_eq:
  "unless_ok close m s = (Inr x, t) \<longleftrightarrow> m s = (Inr x, t)"
  "unless_ok close m s = (Inl e, t) \<longleftrightarrow> (\<exists>t'. m s = (Inl e, t') \<and> t = close t')"
  by (auto simp: unless_ok_def is_ok_def split: prod.splits sum.splits)

lemma in_any_case_eq:
  "in_any_case close m s = (r, t) \<longleftrightarrow> (\<exists>t'. m s = (r, t') \<and> t = close t')"
  by (auto simp: in_any_case_def split: prod.splits)

text \<open>
  What the guards rely on: a gate that lets only live states pass and refuses ended ones without
  touching them, and a \<open>close\<close> that ends and cleans any state. From it, once for every step:
  after an error the resource is ended and clean, and an ended one refuses every gated step.
\<close>

locale single_use =
  fixes gate :: "('s, 'e, unit) io"
    and close :: "'s \<Rightarrow> 's"
    and live :: "'s \<Rightarrow> bool"
    and clean :: "'s \<Rightarrow> bool"
    and sound :: "'s \<Rightarrow> bool"
  assumes ended_clean: "sound s \<Longrightarrow> \<not> live s \<Longrightarrow> clean s"
    and gate_passes: "gate s = (Inr u, t) \<Longrightarrow> live s \<and> live t"
    and gate_refuses: "sound s \<Longrightarrow> gate s = (Inl e, t) \<Longrightarrow> \<not> live t"
    and gate_ended: "\<not> live s \<Longrightarrow> \<exists>e. gate s = (Inl e, s)"
    and gate_sound: "sound s \<Longrightarrow> gate s = (r, t) \<Longrightarrow> sound t"
    and close_ends: "\<not> live (close s) \<and> clean (close s) \<and> sound (close s)"
    and close_ended: "sound s \<Longrightarrow> \<not> live s \<Longrightarrow> close s = s"
begin

lemma error_ends:
  assumes "unless_ok close m s = (Inl e, t)"
  shows "\<not> live t \<and> clean t \<and> sound t"
  using assms close_ends by (auto simp: unless_ok_eq)

lemma guarded_sound:
  assumes "\<And>x t. m s = (Inr x, t) \<Longrightarrow> sound t"
  shows "sound (snd (unless_ok close m s))"
  using assms close_ends by (auto simp: unless_ok_def is_ok_def split: prod.splits sum.splits)

lemma ended_refuses:
  assumes "sound s" "\<not> live s"
  shows "\<exists>e. unless_ok close (try_io gate m) s = (Inl e, s)"
proof -
  from gate_ended [OF assms(2)] obtain e where "gate s = (Inl e, s)" by blast
  then have "try_io gate m s = (Inl e, s)" by (simp add: try_io_def)
  with close_ended [OF assms] show ?thesis by (auto simp: unless_ok_eq)
qed

lemma ended_refuses_always:
  assumes "sound s" "\<not> live s"
  shows "fold (\<lambda>m s. snd (unless_ok close (try_io gate m) s)) ms s = s"
proof (induction ms)
  case (Cons m ms)
  from ended_refuses [OF assms, of m] have "snd (unless_ok close (try_io gate m) s) = s" by auto
  with Cons show ?case by simp
qed simp

lemma completed_ended:
  assumes "in_any_case close m s = (r, t)"
  shows "\<not> live t \<and> clean t \<and> sound t"
  using assms close_ends by (auto simp: in_any_case_eq)

end

text \<open>A login is such a resource, on any outside world.\<close>

interpretation login: single_use "ensure_active D" "fail D" "\<lambda>(f, w). lifecycle f = Active"
  "\<lambda>(f, w). wiped f" "\<lambda>(f, w). flow_ok f"
proof (unfold_locales, goal_cases)
  case (4 s)
  then show ?case
    by (cases s; cases rule: ensure_active_cases [of "fst s" D "snd s"]) auto
next
  case (5 s r t)
  then show ?case
    by (cases s; cases rule: ensure_active_cases [of "fst s" D "snd s"]) (auto simp: flow_ok_def)
next
  case (6 s)
  obtain f w f' w' where "s = (f, w)" "fail D (f, w) = (f', w')" by (cases s; cases "fail D s") auto
  with fail_ends [of D f w f' w'] show ?case by (auto simp: flow_ok_def)
qed (auto simp: ensure_active_Inr fail_ended flow_ok_def dest: ensure_active_Inl)

text \<open>Every method of a login, as the events of its lifecycle.\<close>

datatype flow_event = Ev_Cancel | Ev_Is_Active | Ev_Ensure_Active | Ev_Finish | Ev_Fail

fun flow_event_run :: "'w deps \<Rightarrow> flow_event \<Rightarrow> auth_flow \<times> 'w \<Rightarrow> auth_flow \<times> 'w" where
  "flow_event_run D Ev_Cancel s = cancel D s"
| "flow_event_run D Ev_Is_Active s = snd (is_active D s)"
| "flow_event_run D Ev_Ensure_Active s = snd (ensure_active D s)"
| "flow_event_run D Ev_Finish s = snd (finish D s)"
| "flow_event_run D Ev_Fail s = fail D s"

lemma finish_state:
  "snd (finish D s) = (let s' = expire_if_due D s in
     (if lifecycle (fst s') = Active then (end_flow Finished_State (fst s'), snd s') else s'))"
  by (cases "lifecycle (fst (expire_if_due D s))")
    (simp_all add: finish_def try_io_def ensure_active_def Let_def case_prod_beta)

lemma flow_event_keeps:
  assumes "flow_event_run D ev (f, w) = (f', w')" "flow_ok f"
  shows "flow_ok f' \<and> lifecycle f \<le> lifecycle f' \<and>
    (if lifecycle f = Active then True else f' = f \<and> w' = w)"
proof (cases "lifecycle f = Active")
  case True
  with assms(1) show ?thesis
    by (cases ev) (auto simp: cancel_def is_active_def ensure_active_def finish_state fail_def
        expire_if_due_def flow_ok_def Let_def split: prod.splits if_splits)
next
  case False
  with assms show ?thesis
    by (cases ev) (auto simp: cancel_def is_active_def ensure_active_def finish_state fail_def
        expire_if_due_ended end_flow_ended Let_def split: prod.splits)
qed

text \<open>
  C13. A login is single-use: whatever sequence of its methods is called, its state only moves away
  from active and never back or on to another end state, an ended login keeps no cookie, secret
  or pending page, and every further method, reading no clock, leaves it exactly as it is.
\<close>

theorem login_single_use:
  assumes "fold (flow_event_run D) events (f, w) = (f', w')" "flow_ok f"
  shows "flow_ok f' \<and> lifecycle f \<le> lifecycle f' \<and>
    (if lifecycle f = Active then True else f' = f \<and> w' = w)"
  using assms
proof (induction events arbitrary: f w)
  case (Cons ev events)
  obtain f1 w1 where s: "flow_event_run D ev (f, w) = (f1, w1)" by (cases "flow_event_run D ev (f, w)")
  from flow_event_keeps [OF s Cons.prems(2)] have k: "flow_ok f1" "lifecycle f \<le> lifecycle f1"
    "if lifecycle f = Active then True else f1 = f \<and> w1 = w" by blast+
  from Cons.prems(1) s have "fold (flow_event_run D) events (f1, w1) = (f', w')" by simp
  from Cons.IH [OF this k(1)] k show ?case by (auto split: if_splits)
qed simp

definition example_flow :: auth_flow where
  "example_flow = \<lparr>flow_jar = [(url_origin example_url, [''c''])], deadline = 5, lifecycle = Active,
     pkce_verifier = example_secret 32, oauth_state = example_secret 16,
     flow_nonce = example_secret 16, pending = None, flow_client = ''c'', login_hint = None\<rparr>"

theorem login_single_use_witness:
  "\<exists>f. fold (flow_event_run no_deps) [Ev_Ensure_Active, Ev_Cancel, Ev_Finish, Ev_Fail]
      (example_flow, ()) = (f, ()) \<and> lifecycle f = Cancelled_State \<and> flow_ok f \<and> wiped f"
proof -
  have now: "instant_now no_deps = (\<lambda>w. (0, w))" by (simp add: no_deps_def)
  define f where "f = end_flow Cancelled_State example_flow"
  have "ensure_active no_deps (example_flow, ()) = (Inr (), (example_flow, ()))"
    by (simp add: ensure_active_Inr now example_flow_def)
  moreover have "cancel no_deps (example_flow, ()) = (f, ())"
    by (simp add: cancel_def expire_if_due_def now f_def) (simp add: example_flow_def)
  moreover have ended: "lifecycle f = Cancelled_State" by (simp add: f_def example_flow_def)
  moreover have "wiped f" by (simp add: f_def)
  moreover have "finish no_deps (f, ()) = (Inl Cancelled, (f, ()))"
    using ended by (simp add: finish_Inl ensure_active_def expire_if_due_def Let_def)
  moreover have "fail no_deps (f, ()) = (f, ())"
    using ended \<open>wiped f\<close> by (simp add: fail_ended flow_ok_def)
  ultimately have run: "fold (flow_event_run no_deps)
      [Ev_Ensure_Active, Ev_Cancel, Ev_Finish, Ev_Fail] (example_flow, ()) = (f, ())"
    by simp
  have "flow_ok example_flow" by (simp add: flow_ok_def example_flow_def)
  from login_single_use [OF run this] run ended \<open>wiped f\<close> show ?thesis by blast
qed

subsection \<open>A new login\<close>

lemma random_base64_Inr:
  "random_base64 D n w = (Inr s, w') \<Longrightarrow> \<exists>bytes. length bytes = n \<and> s = b64_encode D bytes"
  by (auto simp: random_base64_def try_io_eq_Inr dest: random_bytes_length)

lemma random_base64_Inl: "random_base64 D n w = (Inl e, w') \<Longrightarrow> e = Crypto"
  by (auto simp: random_base64_def try_io_eq_Inl dest: random_bytes_error)

definition url_safe :: "string \<Rightarrow> bool" where
  "url_safe s \<longleftrightarrow> list_all (\<lambda>b. is_ascii_alphanumeric b \<or> b \<in> {CHR ''-'', CHR ''_''}) s"

definition encoded_length :: "nat \<Rightarrow> nat" where
  "encoded_length n = (4 * n + 2) div 3"

lemma new_flow_Inr:
  assumes "new_flow D time_limit w = (Inr f, w')"
  obtains now w1 where "instant_now D w = (now, w1)" "deadline f = now + time_limit"
    "lifecycle f = Active" "flow_jar f = []" "pending f = None"
    "\<exists>b. length b = 32 \<and> pkce_verifier f = b64_encode D b"
    "\<exists>b. length b = 16 \<and> oauth_state f = b64_encode D b"
    "\<exists>b. length b = 16 \<and> flow_nonce f = b64_encode D b"
  using assms
  by (cases "instant_now D w")
    (auto simp: new_flow_def try_io_eq_Inr jar_new_def dest!: random_base64_Inr, metis)

text \<open>
  A new login can start: given that base64 of \<open>n\<close> bytes has the length of RFC 4648 and the
  URL-safe alphabet, the secrets \<open>AuthFlow::new\<close> draws are a valid PKCE verifier, state and nonce,
  so the authorization request is never refused for them; the login is active, has no cookie and
  no page, and expires exactly the time limit after it was made. The only error is wolfCrypt's.
\<close>

theorem new_flow_ready:
  assumes "\<And>b. url_safe (b64_encode D b) \<and> length (b64_encode D b) = encoded_length (length b)"
  shows "case new_flow D time_limit w of
      (Inl e, _) \<Rightarrow> e = Crypto
    | (Inr f, _) \<Rightarrow> lifecycle f = Active \<and> flow_jar f = [] \<and> pending f = None \<and>
        deadline f = fst (instant_now D w) + time_limit \<and>
        valid_pkce_verifier (pkce_verifier f) \<and> valid_request_token (oauth_state f) \<and>
        valid_request_token (flow_nonce f)"
proof (cases "new_flow D time_limit w")
  case (Pair r w')
  show ?thesis
  proof (cases r)
    case (Inl e)
    with Pair have "e = Crypto"
      by (auto simp: new_flow_def try_io_eq_Inl dest: random_base64_Inl)
    with Pair Inl show ?thesis by simp
  next
    case (Inr f)
    have v: "valid_pkce_verifier (b64_encode D b)" if "length b = 32" for b
      using assms [of b] that
      by (auto simp: valid_pkce_verifier_def url_safe_def encoded_length_def list_all_iff)
    have t: "valid_request_token (b64_encode D b)" if "length b = 16" for b
      using assms [of b] that
      by (auto simp: valid_request_token_def url_safe_def encoded_length_def list_all_iff)
    from Pair Inr have "new_flow D time_limit w = (Inr f, w')" by simp
    then show ?thesis using Pair Inr v t by (elim new_flow_Inr) auto
  qed
qed

theorem new_flow_ready_witness:
  "\<exists>f. new_flow token_deps DEFAULT_LOGIN_TIMEOUT () = (Inr f, ()) \<and> lifecycle f = Active \<and>
     valid_pkce_verifier (pkce_verifier f) \<and> valid_request_token (flow_nonce f)"
proof -
  have "url_safe (b64_encode token_deps b) \<and>
      length (b64_encode token_deps b) = encoded_length (length b)" for b
    by (auto simp: url_safe_def encoded_length_def is_ascii_alphanumeric_def
        intro!: all_example_secret)
  from new_flow_ready [of token_deps "()" DEFAULT_LOGIN_TIMEOUT, OF this] have
    r: "case new_flow token_deps DEFAULT_LOGIN_TIMEOUT () of (Inl e, _) \<Rightarrow> e = Crypto
      | (Inr f, _) \<Rightarrow> lifecycle f = Active \<and> valid_pkce_verifier (pkce_verifier f) \<and>
          valid_request_token (flow_nonce f)"
    by (auto split: prod.splits sum.splits)
  have "\<exists>s. random_base64 token_deps n () = (Inr s, ())" for n
    by (simp add: random_base64_def try_io_def random_bytes_def rng_def crypto_init_def
        attempt_def token_deps_def no_deps_def)
  from this [of 32] this [of 16] have
    "\<exists>f. new_flow token_deps DEFAULT_LOGIN_TIMEOUT () = (Inr f, ())"
    by (auto simp: new_flow_def try_io_def)
  with r show ?thesis by auto
qed

end
