(* ===== verification/Callback.thy ===== *)
theory Callback
  imports Flow
begin

text \<open>
  \<open>callback\<close> (here \<open>login_callback\<close>) and \<open>same_endpoint\<close> of \<open>src/flow/driver.rs\<close>: recognising
  Keycloak's final redirect and reading the authorization code from it. Nothing is sent: the
  function has no transport.
\<close>

definition same_endpoint :: "url \<Rightarrow> url \<Rightarrow> bool" where
  "same_endpoint loc expected \<longleftrightarrow>
     url_scheme loc = url_scheme expected \<and> url_username loc = url_username expected \<and>
     url_password loc = url_password expected \<and> url_host loc = url_host expected \<and>
     url_port loc = url_port expected \<and> url_path loc = url_path expected"

record callback_params =
  cb_code :: "string option"
  cb_state :: "string option"
  cb_error :: "string option"

definition no_params :: callback_params where
  "no_params = \<lparr>cb_code = None, cb_state = None, cb_error = None\<rparr>"

text \<open>The loop over the query pairs; a slot that is filled twice ends it.\<close>

fun read_params :: "callback_params \<Rightarrow> (string \<times> string) list \<Rightarrow> callback_params res" where
  "read_params p [] = Inr p"
| "read_params p ((name, v) # rest) =
     (if name = ''code'' then
        (if cb_code p \<noteq> None then Inl (Protocol ''repeated callback parameter'')
         else read_params (p\<lparr>cb_code := Some v\<rparr>) rest)
      else if name = ''state'' then
        (if cb_state p \<noteq> None then Inl (Protocol ''repeated callback parameter'')
         else read_params (p\<lparr>cb_state := Some v\<rparr>) rest)
      else if name = ''error'' then
        (if cb_error p \<noteq> None then Inl (Protocol ''repeated callback parameter'')
         else read_params (p\<lparr>cb_error := Some v\<rparr>) rest)
      else read_params p rest)"

definition callback_result :: "string \<Rightarrow> (string \<times> string) list \<Rightarrow> string res" where
  "callback_result sent ps =
     try_res (read_params no_params ps) (\<lambda>p.
       if \<not> (case cb_state p of None \<Rightarrow> False | Some st \<Rightarrow> sent \<noteq> [] \<and> st = sent)
       then Inl (Protocol ''callback state mismatch'')
       else (case cb_error p of
               Some e \<Rightarrow>
                 if e = ''access_denied'' then Inl AuthenticationRejected
                 else Inl (Protocol ''authorization error on callback'')
             | None \<Rightarrow>
                 (case cb_code p of
                    None \<Rightarrow> Inl (Protocol ''callback without code'')
                  | Some c \<Rightarrow>
                      if c \<noteq> [] then Inr c else Inl (Protocol ''callback without code''))))"

definition login_callback ::
  "'w deps \<Rightarrow> redirect \<Rightarrow> url \<Rightarrow> (auth_flow \<times> 'w, string option) act" where
  "login_callback D red expected =
     (if \<not> same_endpoint (location red) expected then ret None
      else try_io (ensure_active D) (\<lambda>_ s.
        (try_res (callback_result (oauth_state (fst s)) (url_pairs (location red)))
           (\<lambda>code. Inr (Some code)), s)))"

subsection \<open>Which callbacks are accepted\<close>

definition values_of :: "string \<Rightarrow> (string \<times> string) list \<Rightarrow> string list" where
  "values_of name ps = map snd (filter (\<lambda>(n, _). n = name) ps)"

lemma values_of_simps [simp]:
  "values_of name [] = []"
  "values_of name ((n, v) # ps) = (if n = name then v # values_of name ps else values_of name ps)"
  by (simp_all add: values_of_def)

definition slot :: "string option \<Rightarrow> string list" where
  "slot x = (case x of None \<Rightarrow> [] | Some v \<Rightarrow> [v])"

lemma slot_simps [simp]:
  "slot None = []" "slot (Some v) = [v]" "slot x = [] \<longleftrightarrow> x = None" "slot x = [v] \<longleftrightarrow> x = Some v"
  "slot x \<noteq> v # w # vs" "slot x = slot y \<longleftrightarrow> x = y"
  by (auto simp: slot_def split: option.splits)

text \<open>The loop succeeds exactly when each of the three names occurs at most once in all.\<close>

lemma read_params_Inr:
  "read_params p ps = Inr q \<longleftrightarrow>
     slot (cb_code q) = slot (cb_code p) @ values_of ''code'' ps \<and>
     slot (cb_state q) = slot (cb_state p) @ values_of ''state'' ps \<and>
     slot (cb_error q) = slot (cb_error p) @ values_of ''error'' ps"
proof (induction p ps rule: read_params.induct)
  case (1 p)
  then show ?case by (auto intro: callback_params.equality)
next
  case (2 p name v rest)
  then show ?case
    by (cases "cb_code p"; cases "cb_state p"; cases "cb_error p") auto
qed

lemma callback_result_Inr:
  "callback_result sent ps = Inr c \<longleftrightarrow>
     sent \<noteq> [] \<and> values_of ''state'' ps = [sent] \<and> values_of ''error'' ps = [] \<and>
     values_of ''code'' ps = [c] \<and> c \<noteq> []"
proof
  assume "callback_result sent ps = Inr c"
  then obtain p where "read_params no_params ps = Inr p" "cb_state p = Some sent" "sent \<noteq> []"
    "cb_error p = None" "cb_code p = Some c" "c \<noteq> []"
    by (auto simp: callback_result_def split: option.splits if_splits)
  then show "sent \<noteq> [] \<and> values_of ''state'' ps = [sent] \<and> values_of ''error'' ps = [] \<and>
     values_of ''code'' ps = [c] \<and> c \<noteq> []"
    by (simp add: read_params_Inr no_params_def)
next
  assume r: "sent \<noteq> [] \<and> values_of ''state'' ps = [sent] \<and> values_of ''error'' ps = [] \<and>
     values_of ''code'' ps = [c] \<and> c \<noteq> []"
  then have "read_params no_params ps = Inr \<lparr>cb_code = Some c, cb_state = Some sent, cb_error = None\<rparr>"
    by (simp add: read_params_Inr no_params_def)
  with r show "callback_result sent ps = Inr c" by (simp add: callback_result_def)
qed

lemma callback_Some:
  "login_callback D red expected (f, w) = (Inr (Some c), (f', w')) \<longleftrightarrow>
     same_endpoint (location red) expected \<and> ensure_active D (f, w) = (Inr (), (f', w')) \<and>
     callback_result (oauth_state f') (url_pairs (location red)) = Inr c"
  by (auto simp: login_callback_def try_io_eq_Inr)

lemma callback_None:
  "login_callback D red expected s = (Inr None, t) \<longleftrightarrow>
     \<not> same_endpoint (location red) expected \<and> t = s"
  by (auto simp: login_callback_def try_io_eq_Inr)

text \<open>
  C6. Which redirect completes a login, exactly: the code \<open>c\<close> is taken from a redirect if and only
  if it goes to the registered callback's scheme, credentials, host, port and path, the login is
  active and before its deadline, its query carries the state this login sent exactly once, no
  error, and exactly one code, \<open>c\<close>, which is not empty. Anything else yields no code.
\<close>

theorem callback_exact:
  "(\<exists>s'. login_callback D red expected (f, w) = (Inr (Some c), s')) \<longleftrightarrow>
     same_endpoint (location red) expected \<and>
     lifecycle f = Active \<and> fst (instant_now D w) < deadline f \<and>
     oauth_state f \<noteq> [] \<and> values_of ''state'' (url_pairs (location red)) = [oauth_state f] \<and>
     values_of ''error'' (url_pairs (location red)) = [] \<and>
     values_of ''code'' (url_pairs (location red)) = [c] \<and> c \<noteq> []"
proof -
  obtain now w' where "instant_now D w = (now, w')" by (cases "instant_now D w")
  then show ?thesis
    by (auto simp: callback_Some ensure_active_Inr callback_result_Inr)
qed

end
