(* ===== verification/Client.thy ===== *)
theory Client
  imports Callback
begin

text \<open>
  \<open>src/client.rs\<close>: \<open>PublicClientApplication\<close>. The configuration and the discovered metadata never
  change; the JWKS behind its \<open>RwLock\<close> does, and is a component of the state an operation runs on,
  next to the outside world: \<open>jwks_lock \<times> 'w\<close>, and \<open>auth_flow \<times> jwks_lock \<times> 'w\<close> where a login is
  involved. The operations are sequential, as within one task; tasks that verify on one
  application at the same time are in \<open>Shared_Keys\<close>.
\<close>

subsection \<open>Running an operation on a part of the state\<close>

definition in_world :: "('w, 'a) act \<Rightarrow> ('k \<times> 'w, 'a) act" where
  "in_world m = (\<lambda>(k, w). case m w of (r, w') \<Rightarrow> (r, (k, w')))"

definition on_flow :: "(auth_flow \<times> 'w, 'a) act \<Rightarrow> (auth_flow \<times> 'k \<times> 'w, 'a) act" where
  "on_flow m = (\<lambda>(f, k, w). case m (f, w) of (r, (f', w')) \<Rightarrow> (r, (f', k, w')))"

definition on_jar :: "(cookie_jar \<times> 'w, 'a) act \<Rightarrow> (auth_flow \<times> 'k \<times> 'w, 'a) act" where
  "on_jar m = (\<lambda>(f, k, w). case m (flow_jar f, w) of (r, (j, w')) \<Rightarrow> (r, (f\<lparr>flow_jar := j\<rparr>, k, w')))"

lemma in_world_eq [io_simps]:
  "in_world m (k, w) = (r, (k', w')) \<longleftrightarrow> m w = (r, w') \<and> k' = k"
  by (auto simp: in_world_def split: prod.splits)

lemma on_flow_eq [io_simps]:
  "on_flow m (f, k, w) = (r, (f', k', w')) \<longleftrightarrow> m (f, w) = (r, (f', w')) \<and> k' = k"
  by (auto simp: on_flow_def split: prod.splits)

lemma on_jar_eq [io_simps]:
  "on_jar m (f, k, w) = (r, (f', k', w')) \<longleftrightarrow>
     (\<exists>j. m (flow_jar f, w) = (r, (j, w')) \<and> f' = f\<lparr>flow_jar := j\<rparr> \<and> k' = k)"
  by (auto simp: on_jar_def split: prod.splits)

subsection \<open>The application\<close>

record app =
  app_config :: config
  app_metadata :: metadata

datatype jwks_lock = Keys json | Poisoned

definition read_jwks :: "jwks_lock \<Rightarrow> json res" where
  "read_jwks k = (case k of Keys jwks \<Rightarrow> Inr jwks | Poisoned \<Rightarrow> Inl (Protocol ''JWKS lock poisoned''))"

definition write_jwks :: "json \<Rightarrow> (jwks_lock \<times> 'w, unit) act" where
  "write_jwks fetched = (\<lambda>(k, w).
     (case k of
        Keys _ \<Rightarrow> (Inr (), (Keys fetched, w))
      | Poisoned \<Rightarrow> (Inl (Protocol ''JWKS lock poisoned''), (k, w))))"

definition with_transport :: "'w deps \<Rightarrow> config \<Rightarrow> ('w, app \<times> jwks_lock) act" where
  "with_transport D c =
     try_io (lift (validate c)) (\<lambda>_.
     try_io (lift (issuer_url D c)) (\<lambda>expected.
     try_io (discover D expected) (\<lambda>m.
     try_io (fetch_jwks D (jwks_uri m)) (\<lambda>jwks.
       ret (\<lparr>app_config = c, app_metadata = m\<rparr>, Keys jwks)))))"

text \<open>\<open>backend\<close> is the TLS backend libcurl reports; \<open>D\<close> sends with the transport made here.\<close>

definition with_config :: "string option \<Rightarrow> 'w deps \<Rightarrow> config \<Rightarrow> ('w, app \<times> jwks_lock) act" where
  "with_config backend D c =
     try_io (lift (transport_new backend (ca_bundle c) (timeout c))) (\<lambda>_. with_transport D c)"

definition app_new ::
  "string option \<Rightarrow> 'w deps \<Rightarrow> string \<Rightarrow> string \<Rightarrow> string \<Rightarrow> ('w, app \<times> jwks_lock) act option" where
  "app_new backend D server realm_name client =
     map_option (\<lambda>r. try_io (lift r) (with_config backend D)) (new_config D server realm_name client)"

subsection \<open>Verifying tokens\<close>

definition session_subject :: "app \<Rightarrow> tokens \<Rightarrow> string res" where
  "session_subject a t =
     try_res (ok_or (verified_subject t) (TokenValidation ''unverified session'')) (\<lambda>subject.
       if verified_issuer t \<noteq> Some (md_issuer (app_metadata a)) \<or>
          verified_client_id t \<noteq> Some (client_id (app_config a))
       then Inl (TokenValidation ''session issuer or client mismatch'')
       else Inr subject)"

definition verify_tokens ::
  "'w deps \<Rightarrow> app \<Rightarrow> tokens \<Rightarrow> string option \<Rightarrow> (jwks_lock \<times> 'w, json) act" where
  "verify_tokens D a t nonce =
     try_io (lift (ok_or (id_token t) (TokenValidation ''missing ID token''))) (\<lambda>token.
     try_io (lift (token_key_info D token)) (\<lambda>(kid, algorithm).
     try_io (\<lambda>(k, w). (read_jwks k, (k, w))) (\<lambda>known.
     try_io (if jwks_has_eligible_key known kid algorithm then ret ()
             else try_io (in_world (fetch_jwks D (jwks_uri (app_metadata a)))) write_jwks) (\<lambda>_.
     try_io (\<lambda>(k, w). (read_jwks k, (k, w))) (\<lambda>jwks.
       in_world (verify_id_token D token jwks (md_issuer (app_metadata a))
         (client_id (app_config a)) nonce))))))"

text \<open>The four assignments after a verification: whom the tokens were verified for.\<close>

definition mark_verified :: "app \<Rightarrow> string option \<Rightarrow> tokens \<Rightarrow> tokens" where
  "mark_verified a subject t =
     t\<lparr>verified_subject := subject, verified_issuer := Some (md_issuer (app_metadata a)),
       verified_client_id := Some (client_id (app_config a)),
       verified_refresh_token := refresh_token t\<rparr>"

subsection \<open>Grants\<close>

text \<open>The features compiled in.\<close>

record features =
  password_feature :: bool
  totp_feature :: bool

definition acquire_token_by_password ::
  "'w deps \<Rightarrow> features \<Rightarrow> app \<Rightarrow> string \<Rightarrow> string \<Rightarrow> string option \<Rightarrow> (jwks_lock \<times> 'w, tokens) act" where
  "acquire_token_by_password D cfg a username password totp =
     (if \<not> password_feature cfg then throw UnsupportedFactor
      else if totp \<noteq> None \<and> \<not> totp_feature cfg then throw UnsupportedFactor
      else
        (let fs = [(''grant_type'', ''password''), (''client_id'', client_id (app_config a)),
                   (''scope'', ''openid''), (''username'', username), (''password'', password)] @
                  (case totp of None \<Rightarrow> [] | Some otp \<Rightarrow> [(''totp'', otp)])
         in try_io (in_world (acquire D (token_endpoint (app_metadata a)) fs True)) (\<lambda>t.
            try_io (verify_tokens D a t None) (\<lambda>claims.
              ret (mark_verified a (str_field claims ''sub'') t)))))"

definition check_refreshed ::
  "'w deps \<Rightarrow> app \<Rightarrow> string \<Rightarrow> tokens \<Rightarrow> (jwks_lock \<times> 'w, unit) act" where
  "check_refreshed D a subject t =
     try_io (if id_token t \<noteq> None then verify_tokens D a t None
             else in_world (fetch_userinfo D (userinfo_endpoint (app_metadata a)) (access_token t)))
       (\<lambda>claims. if str_field claims ''sub'' \<noteq> Some subject
          then throw (TokenValidation ''refreshed subject mismatch'') else ret ())"

definition refresh_tokens :: "'w deps \<Rightarrow> app \<Rightarrow> tokens \<Rightarrow> (jwks_lock \<times> 'w, tokens) act" where
  "refresh_tokens D a previous =
     try_io (lift (session_subject a previous)) (\<lambda>subject.
     try_io (lift (ok_or (refresh_token previous) (Protocol ''session has no refresh token''))) (\<lambda>rt.
       if verified_refresh_token previous \<noteq> Some rt
       then throw (TokenValidation ''refresh token changed'')
       else try_io (in_world (acquire D (token_endpoint (app_metadata a))
                [(''grant_type'', ''refresh_token''), (''client_id'', client_id (app_config a)),
                 (''refresh_token'', rt)] False)) (\<lambda>t.
            try_io (check_refreshed D a subject t) (\<lambda>_.
              ret (let t1 = (if refresh_token t = None then t\<lparr>refresh_token := Some rt\<rparr> else t)
                   in mark_verified a (Some subject) t1)))))"

definition revoke_token :: "'w deps \<Rightarrow> app \<Rightarrow> string \<Rightarrow> (jwks_lock \<times> 'w, unit) act" where
  "revoke_token D a token =
     in_world (revoke D (revocation_endpoint (app_metadata a)) (client_id (app_config a)) token)"

definition userinfo :: "'w deps \<Rightarrow> app \<Rightarrow> tokens \<Rightarrow> (jwks_lock \<times> 'w, json) act" where
  "userinfo D a t =
     try_io (lift (session_subject a t)) (\<lambda>subject.
     try_io (if id_token t \<noteq> None
             then try_io (verify_tokens D a t None) (\<lambda>claims.
               if str_field claims ''sub'' \<noteq> Some subject
               then throw (TokenValidation ''session subject mismatch'') else ret ())
             else ret ()) (\<lambda>_.
     try_io (in_world (fetch_userinfo D (userinfo_endpoint (app_metadata a)) (access_token t))) (\<lambda>user.
       if str_field user ''sub'' \<noteq> Some subject
       then throw (TokenValidation ''userinfo subject mismatch'') else ret user)))"

subsection \<open>The authorization code of a login\<close>

record start =
  start_login_hint :: "string option"
  start_scopes :: "string list"

definition app_authorization_url ::
  "'w deps \<Rightarrow> app \<Rightarrow> start \<Rightarrow> (auth_flow \<times> 'w, url) act" where
  "app_authorization_url D a st =
     try_io (ensure_active D) (\<lambda>_ s.
       (authorization_url D (authorization_endpoint (app_metadata a))
          \<lparr>ap_client_id = client_id (app_config a), ap_redirect_uri = redirect_uri (app_config a),
           ap_login_hint = start_login_hint st, ap_scopes = start_scopes st,
           ap_pkce_verifier = pkce_verifier (fst s), ap_state = oauth_state (fst s),
           ap_nonce = flow_nonce (fst s)\<rparr>, s))"

definition redeem_code ::
  "'w deps \<Rightarrow> app \<Rightarrow> string \<Rightarrow> string \<Rightarrow> string \<Rightarrow> (jwks_lock \<times> 'w, tokens) act" where
  "redeem_code D a authorization_code verifier nonce =
     try_io (in_world (acquire D (token_endpoint (app_metadata a))
         [(''grant_type'', ''authorization_code''), (''client_id'', client_id (app_config a)),
          (''code'', authorization_code), (''redirect_uri'', url_text (redirect_uri (app_config a))),
          (''code_verifier'', verifier)] True)) (\<lambda>t.
     try_io (verify_tokens D a t (Some nonce)) (\<lambda>claims.
       ret (mark_verified a (str_field claims ''sub'') t)))"

type_synonym 'w login_state = "auth_flow \<times> jwks_lock \<times> 'w"

definition fail_login :: "'w deps \<Rightarrow> 'w login_state \<Rightarrow> 'w login_state" where
  "fail_login D = (\<lambda>(f, k, w). case fail D (f, w) of (f', w') \<Rightarrow> (f', k, w'))"

text \<open>The body of \<open>exchange_code\<close> under its \<open>EndLogin\<close> guard, which fails the login in any case.\<close>

definition exchange_code ::
  "'w deps \<Rightarrow> app \<Rightarrow> string \<Rightarrow> ('w login_state, tokens) act" where
  "exchange_code D a authorization_code =
     in_any_case (fail_login D)
       (try_io (on_flow (ensure_active D)) (\<lambda>_.
        try_io (\<lambda>(f, s). in_world (redeem_code D a authorization_code (pkce_verifier f) (flow_nonce f))
                  (f, s)) (\<lambda>t.
        try_io (on_flow (finish D)) (\<lambda>_. ret t))))"

definition complete_at_callback ::
  "'w deps \<Rightarrow> app \<Rightarrow> redirect \<Rightarrow> ('w login_state, auth_step option) act" where
  "complete_at_callback D a red =
     try_io (on_flow (ensure_active D)) (\<lambda>_ s.
       (case on_flow (login_callback D red (redirect_uri (app_config a))) s of
          (Inl e, s') \<Rightarrow> (Inl e, fail_login D s')
        | (Inr None, s') \<Rightarrow> (Inr None, s')
        | (Inr (Some authorization_code), s') \<Rightarrow>
            try_io (exchange_code D a authorization_code) (\<lambda>t. ret (Some (Complete t))) s'))"

definition login_client :: "app \<Rightarrow> string" where
  "login_client a = md_issuer (app_metadata a) @ '' '' @ client_id (app_config a) @ '' '' @
     url_text (redirect_uri (app_config a))"

subsection \<open>What a verification does to the keys\<close>

lemma read_jwks_eq [simp]:
  "read_jwks k = Inr jwks \<longleftrightarrow> k = Keys jwks"
  "read_jwks k = Inl e \<longleftrightarrow> k = Poisoned \<and> e = Protocol ''JWKS lock poisoned''"
  by (cases k; auto simp: read_jwks_def)+

lemma write_jwks_eq [simp]:
  "write_jwks fetched (k, w) = (Inr u, (k', w')) \<longleftrightarrow>
     (\<exists>old. k = Keys old) \<and> k' = Keys fetched \<and> w' = w"
  by (cases k) (auto simp: write_jwks_def)

lemma refresh_keys_Inr:
  "(if b then ret () else try_io (in_world m) write_jwks) (k, w) = (Inr u, (k', w1)) \<longleftrightarrow>
     (if b then k' = k \<and> w1 = w
      else \<exists>old keys. k = Keys old \<and> k' = Keys keys \<and> m w = (Inr keys, w1))"
  by (auto simp: try_io_eq_Inr in_world_eq)

lemma verify_tokens_Inr:
  "verify_tokens D a t nonce (k, w) = (Inr claims, (k', w')) \<longleftrightarrow>
     (\<exists>token kid alg known keys w1. id_token t = Some token \<and>
        token_key_info D token = Inr (kid, alg) \<and> k = Keys known \<and> k' = Keys keys \<and>
        (if jwks_has_eligible_key known kid alg then keys = known \<and> w1 = w
         else fetch_jwks D (jwks_uri (app_metadata a)) w = (Inr keys, w1)) \<and>
        verify_id_token D token keys (md_issuer (app_metadata a)) (client_id (app_config a)) nonce w1 =
          (Inr claims, w'))"
proof (cases "id_token t")
  case (Some token)
  show ?thesis
  proof (cases "token_key_info D token")
    case (Inr key)
    then show ?thesis using Some
      by (cases key; cases k)
        (simp_all add: verify_tokens_def try_io_eq_Inr refresh_keys_Inr in_world_eq, auto)
  qed (use Some in \<open>simp add: verify_tokens_def try_io_eq_Inr\<close>)
qed (simp add: verify_tokens_def try_io_eq_Inr)

text \<open>
  When the signing keys are fetched again: a successful verification uses the keys it knew,
  unchanged and without asking the server, if one of them can have signed the token; otherwise
  it fetches the JWKS from the discovered address once, replaces the known keys by it, and
  verifies with exactly those. A poisoned lock refuses.
\<close>

theorem verify_tokens_keys:
  "(\<exists>s'. verify_tokens D a t nonce (Poisoned, w) = (Inr claims, s')) = False \<and>
   (verify_tokens D a t nonce (Keys known, w) = (Inr claims, (k', w')) \<longleftrightarrow>
     (\<exists>token kid alg keys w1. id_token t = Some token \<and>
        token_key_info D token = Inr (kid, alg) \<and> k' = Keys keys \<and>
        (if jwks_has_eligible_key known kid alg then keys = known \<and> w1 = w
         else fetch_jwks D (jwks_uri (app_metadata a)) w = (Inr keys, w1)) \<and>
        verify_id_token D token keys (md_issuer (app_metadata a)) (client_id (app_config a)) nonce w1 =
          (Inr claims, w')))"
  by (auto simp: verify_tokens_Inr)

subsection \<open>Sessions\<close>

text \<open>A session of this client: tokens verified for a subject, and whose refresh token is its own.\<close>

definition session_of :: "app \<Rightarrow> string \<Rightarrow> tokens \<Rightarrow> bool" where
  "session_of a subject t \<longleftrightarrow>
     verified_subject t = Some subject \<and> verified_issuer t = Some (md_issuer (app_metadata a)) \<and>
     verified_client_id t = Some (client_id (app_config a)) \<and>
     verified_refresh_token t = refresh_token t"

lemma session_subject_Inr:
  "session_subject a t = Inr s \<longleftrightarrow>
     verified_subject t = Some s \<and> verified_issuer t = Some (md_issuer (app_metadata a)) \<and>
     verified_client_id t = Some (client_id (app_config a))"
  by (auto simp: session_subject_def)

lemma mark_verified_session [simp]:
  "session_of a s (mark_verified a subject t) \<longleftrightarrow> subject = Some s"
  by (auto simp: session_of_def mark_verified_def)

lemma mark_verified_fields [simp]:
  "access_token (mark_verified a subject t) = access_token t"
  "refresh_token (mark_verified a subject t) = refresh_token t"
  "id_token (mark_verified a subject t) = id_token t"
  by (simp_all add: mark_verified_def)

text \<open>Claims verified for this client by \<open>verify_tokens\<close>, whatever keys it used.\<close>

definition verified_claims :: "'w deps \<Rightarrow> app \<Rightarrow> tokens \<Rightarrow> string option \<Rightarrow> json \<Rightarrow> bool" where
  "verified_claims D a t nonce claims \<longleftrightarrow>
     (\<exists>token keys. id_token t = Some token \<and> properly_signed D token keys claims) \<and>
     str_field claims ''iss'' = Some (md_issuer (app_metadata a)) \<and>
     audience_matches claims (client_id (app_config a)) \<and>
     (nonce = None \<or> str_field claims ''nonce'' = nonce) \<and>
     (\<exists>s. str_field claims ''sub'' = Some s \<and> s \<noteq> [])"

lemma verify_id_token_claims:
  assumes "verify_id_token D token jwks issuer client nonce w = (Inr claims, w')"
  shows "properly_signed D token jwks claims \<and> str_field claims ''iss'' = Some issuer \<and>
    audience_matches claims client \<and> (nonce = None \<or> str_field claims ''nonce'' = nonce) \<and>
    (\<exists>s. str_field claims ''sub'' = Some s \<and> s \<noteq> [])"
  using assms
  by (auto simp: verify_id_token_def try_io_eq_Inr validate_claims_Inr timely_iff
      dest!: signed_claims_Inr)

lemma verify_tokens_claims:
  assumes "verify_tokens D a t nonce (k, w) = (Inr claims, (k', w'))"
  shows "verified_claims D a t nonce claims"
  using assms by (auto simp: verify_tokens_Inr verified_claims_def dest!: verify_id_token_claims)

lemma redeem_code_Inr:
  assumes "redeem_code D a c verifier nonce (k, w) = (Inr t', (k', w'))"
  obtains t claims subject w1 where
    "acquire D (token_endpoint (app_metadata a))
       [(''grant_type'', ''authorization_code''), (''client_id'', client_id (app_config a)),
        (''code'', c), (''redirect_uri'', url_text (redirect_uri (app_config a))),
        (''code_verifier'', verifier)] True w = (Inr t, w1)"
    "verify_tokens D a t (Some nonce) (k, w1) = (Inr claims, (k', w'))"
    "verified_claims D a t (Some nonce) claims"
    "str_field claims ''sub'' = Some subject" "t' = mark_verified a (Some subject) t"
proof -
  from assms obtain t claims w1 where r: "acquire D (token_endpoint (app_metadata a))
       [(''grant_type'', ''authorization_code''), (''client_id'', client_id (app_config a)),
        (''code'', c), (''redirect_uri'', url_text (redirect_uri (app_config a))),
        (''code_verifier'', verifier)] True w = (Inr t, w1)"
    "verify_tokens D a t (Some nonce) (k, w1) = (Inr claims, (k', w'))"
    "t' = mark_verified a (str_field claims ''sub'') t"
    by (auto simp: redeem_code_def try_io_eq_Inr in_world_eq)
  with verify_tokens_claims [OF r(2)] show thesis
    by (auto simp: verified_claims_def intro!: that)
qed

lemma check_refreshed_Inr:
  assumes "check_refreshed D a subject t (k, w) = (Inr u, (k', w'))"
  shows "\<exists>claims. str_field claims ''sub'' = Some subject \<and>
    (if id_token t \<noteq> None then verified_claims D a t None claims
     else k' = k \<and> fetch_userinfo D (userinfo_endpoint (app_metadata a)) (access_token t) w =
       (Inr claims, w'))"
  using assms
  by (auto simp: check_refreshed_def try_io_eq_Inr in_world_eq dest: verify_tokens_claims
      split: if_splits)

lemma refresh_tokens_Inr:
  assumes "refresh_tokens D a previous (k, w) = (Inr t', (k', w'))"
  obtains subject rt t w1 where "session_subject a previous = Inr subject"
    "refresh_token previous = Some rt" "verified_refresh_token previous = Some rt"
    "acquire D (token_endpoint (app_metadata a))
       [(''grant_type'', ''refresh_token''), (''client_id'', client_id (app_config a)),
        (''refresh_token'', rt)] False w = (Inr t, w1)"
    "check_refreshed D a subject t (k, w1) = (Inr (), (k', w'))"
    "t' = mark_verified a (Some subject)
       (if refresh_token t = None then t\<lparr>refresh_token := Some rt\<rparr> else t)"
  using assms
  by (auto simp: refresh_tokens_def try_io_eq_Inr in_world_eq Let_def split: if_splits)

subsection \<open>A concrete server\<close>

text \<open>
  For the examples: a Keycloak that answers a GET with the login page, a posted login form with a
  redirect to the callback, a request with a bearer token with the user's claims, and any other
  post with tokens.
\<close>

definition example_redirect :: url where
  "example_redirect = example_url\<lparr>url_scheme := ''http'', url_path := ''/cb'',
     url_text := ''http://127.0.0.1/cb''\<rparr>"

definition example_callback :: url where
  "example_callback = example_redirect\<lparr>url_pairs := [(''code'', ''x''),
     (''state'', example_secret 16)]\<rparr>"

definition example_app :: app where
  "example_app = \<lparr>app_config = \<lparr>server_url = example_url, realm = ''test'', client_id = ''c'',
       redirect_uri = example_redirect, ca_bundle = None, timeout = 15 * second\<rparr>,
     app_metadata = \<lparr>md_issuer = ''https://kc.test/realms/test'', authorization_endpoint = example_url,
       token_endpoint = example_url, jwks_uri = example_url, userinfo_endpoint = example_url,
       revocation_endpoint = example_url\<rparr>\<rparr>"

definition token_grant :: json where
  "token_grant = JObject [(''access_token'', JString ''at''), (''token_type'', JString ''bearer''),
     (''refresh_token'', JString ''rt''), (''id_token'', JString ''h.c.s'')]"

definition granted :: tokens where
  "granted = \<lparr>access_token = ''at'', refresh_token = Some ''rt'', id_token = Some ''h.c.s'',
     verified_subject = None, verified_issuer = None, verified_client_id = None,
     verified_refresh_token = None\<rparr>"

definition example_answer :: "request \<Rightarrow> response" where
  "example_answer r =
     (if req_method r = Get
      then \<lparr>resp_status = 200, resp_headers = [], resp_body = [], resp_cookies = []\<rparr>
      else if url_path (req_url r) = url_path example_action
      then \<lparr>resp_status = 302, resp_headers = [(''Location'', ''cb'')], resp_body = [],
             resp_cookies = []\<rparr>
      else \<lparr>resp_status = 200, resp_headers = [], resp_body = show_json token_grant,
             resp_cookies = []\<rparr>)"

definition app_deps :: "unit deps" where
  "app_deps = token_deps\<lparr>tokenize := (\<lambda>_. login_tokens),
     url_join := (\<lambda>_ t. Some (if t = ''a'' then example_action else example_callback)),
     http_send := (\<lambda>r w. (Inr (example_answer r), w))\<rparr>"

lemma app_deps_simps [simp]:
  "system_now app_deps = (\<lambda>w. (Some 0, w))" "instant_now app_deps = (\<lambda>w. (0, w))"
  "http_send app_deps = (\<lambda>r w. (Inr (example_answer r), w))"
  "url_join app_deps = (\<lambda>_ t. Some (if t = ''a'' then example_action else example_callback))"
  "tokenize app_deps = (\<lambda>_. login_tokens)" "form_encode app_deps = (\<lambda>_. [])"
  "parse_number app_deps = small_number" "b64_decode app_deps = b64_decode token_deps"
  by (simp_all add: app_deps_def token_deps_def no_deps_def)

lemma example_app_simps [simp]:
  "client_id (app_config example_app) = ''c''"
  "redirect_uri (app_config example_app) = example_redirect"
  "md_issuer (app_metadata example_app) = ''https://kc.test/realms/test''"
  "token_endpoint (app_metadata example_app) = example_url"
  "authorization_endpoint (app_metadata example_app) = example_url"
  by (simp_all add: example_app_def)

lemma token_grant_parsed: "claims_of app_deps (show_json token_grant) = Some token_grant"
  unfolding claims_of_def
  by (rule parse_show) (auto simp: token_grant_def json_depth.simps max_depth_def
      intro!: valid_utf8_ascii)

lemma token_grant_read: "token_response token_grant required = Inr granted"
proof -
  have "eq_ignore_ascii_case ''bearer'' ''bearer''" by (simp add: eq_ignore_ascii_case_def)
  then show ?thesis
    by (simp add: token_response_def token_grant_def str_field_def optional_token_def granted_def)
qed

lemma grant_example:
  assumes "form_size fs \<le> MAX_FORM"
  shows "acquire app_deps example_url fs required () = (Inr granted, ())"
proof -
  have "url_path example_url \<noteq> url_path example_action"
    by (simp add: example_url_def example_action_def)
  moreover have "\<exists>n. form_capacity fs = Some n" using assms by (simp add: form_capacity_eq)
  ultimately show ?thesis
    by (auto simp: acquire_def try_io_def request_form_def example_answer_def read_grant_def
        token_grant_parsed token_grant_read)
qed

lemma timely_without_nonce: "timely claims nonce now = Inr () \<Longrightarrow> timely claims None now = Inr ()"
  by (auto simp: timely_iff)

lemma key_info_example: "token_key_info app_deps ''h.c.s'' = Inr (''k'', ''RS256'')"
proof -
  have "split_token ''h.c.s'' = Inr (''h'', ''c'', ''s'')" by (simp add: split_token_def)
  moreover have "decode_json app_deps ''h'' = Inr jose_header"
    by (simp add: decode_json_def claims_of_def token_parts_parsed)
  moreover have "str_field jose_header ''alg'' = Some ''RS256''"
    "str_field jose_header ''kid'' = Some ''k''"
    by (simp_all add: jose_header_def str_field_def)
  ultimately show ?thesis by (simp add: token_key_info_def)
qed

lemma eligible_example: "jwks_has_eligible_key signing_jwks ''k'' ''RS256''"
  by (simp add: jwks_has_eligible_key_def signing_jwks_def array_field_def key_eligible_def
      signing_key_def str_field_def field_matches_def ops_allow_verify_def)

lemma verify_granted:
  assumes "nonce = None \<or> nonce = Some (example_secret 16)"
  shows "verify_tokens app_deps example_app granted nonce (Keys signing_jwks, ()) =
     (Inr id_claims, (Keys signing_jwks, ()))"
proof -
  have "signed_claims app_deps ''h.c.s'' signing_jwks = Inr id_claims"
    by (rule signed_example) (simp_all add: app_deps_def token_deps_def no_deps_def)
  moreover have "str_field id_claims ''iss'' = Some ''https://kc.test/realms/test''"
    by (simp add: str_field_def id_claims_def)
  ultimately have "verify_id_token app_deps ''h.c.s'' signing_jwks ''https://kc.test/realms/test''
      ''c'' nonce () = (Inr id_claims, ())"
    using timely_without_nonce [OF timely_example] assms
    by (auto simp: verify_id_token_def validate_claims_def timely_example audience_example
        try_io_def attempt_def)
  then show ?thesis
    by (simp add: verify_tokens_Inr key_info_example eligible_example granted_def)
qed

lemma id_claims_sub: "str_field id_claims ''sub'' = Some ''u''"
  by (simp add: str_field_def id_claims_def)

subsection \<open>What a session guarantees\<close>

lemma verified_claims_cong:
  "id_token t = id_token u \<Longrightarrow>
   verified_claims D a t nonce claims \<longleftrightarrow> verified_claims D a u nonce claims"
  by (simp add: verified_claims_def)

text \<open>
  C11. Refreshing keeps the session's identity: it needs a verified session of this client whose
  refresh token is unchanged, sends exactly that token, and returns a session of the same subject,
  issuer and client that again has a refresh token, the new one or the old; the server confirmed
  the subject for the new tokens, by a verified ID token if it sent one and by userinfo otherwise.
\<close>

theorem refresh_keeps_identity:
  assumes "refresh_tokens D a previous (k, w) = (Inr t', (k', w'))"
  shows "\<exists>s rt claims. session_of a s previous \<and> refresh_token previous = Some rt \<and>
    session_of a s t' \<and> str_field claims ''sub'' = Some s \<and>
    (if id_token t' \<noteq> None then verified_claims D a t' None claims
     else \<exists>w1. fetch_userinfo D (userinfo_endpoint (app_metadata a)) (access_token t') w1 =
       (Inr claims, w')) \<and>
    (\<exists>t w1. acquire D (token_endpoint (app_metadata a))
       [(''grant_type'', ''refresh_token''), (''client_id'', client_id (app_config a)),
        (''refresh_token'', rt)] False w = (Inr t, w1) \<and> access_token t' = access_token t \<and>
       refresh_token t' = (case refresh_token t of None \<Rightarrow> Some rt | Some r \<Rightarrow> Some r))"
proof -
  from assms obtain s rt t w1 where r: "session_subject a previous = Inr s"
    "refresh_token previous = Some rt" "verified_refresh_token previous = Some rt"
    "acquire D (token_endpoint (app_metadata a))
       [(''grant_type'', ''refresh_token''), (''client_id'', client_id (app_config a)),
        (''refresh_token'', rt)] False w = (Inr t, w1)"
    "check_refreshed D a s t (k, w1) = (Inr (), (k', w'))"
    "t' = mark_verified a (Some s)
       (if refresh_token t = None then t\<lparr>refresh_token := Some rt\<rparr> else t)"
    by (rule refresh_tokens_Inr)
  from check_refreshed_Inr [OF r(5)] obtain claims where c: "str_field claims ''sub'' = Some s"
    "if id_token t \<noteq> None then verified_claims D a t None claims
     else k' = k \<and> fetch_userinfo D (userinfo_endpoint (app_metadata a)) (access_token t) w1 =
       (Inr claims, w')" by blast
  have f: "id_token t' = id_token t" "access_token t' = access_token t"
    "refresh_token t' = (case refresh_token t of None \<Rightarrow> Some rt | Some r \<Rightarrow> Some r)"
    "session_of a s t'"
    by (simp_all add: r(6) split: option.split)
  have "session_of a s previous" using r by (simp add: session_subject_Inr session_of_def)
  moreover have "if id_token t' \<noteq> None then verified_claims D a t' None claims
      else \<exists>w1. fetch_userinfo D (userinfo_endpoint (app_metadata a)) (access_token t') w1 =
        (Inr claims, w')"
    using c(2) f(1,2) verified_claims_cong [OF f(1)] by (auto split: if_splits)
  ultimately show ?thesis using r(2,4) c(1) f by blast
qed

lemma granted_session: "session_of example_app ''u'' (mark_verified example_app (Some ''u'') granted)"
  by simp

theorem refresh_keeps_identity_witness:
  "\<exists>t. refresh_tokens app_deps example_app (mark_verified example_app (Some ''u'') granted)
       (Keys signing_jwks, ()) = (Inr t, (Keys signing_jwks, ())) \<and> session_of example_app ''u'' t"
proof -
  let ?p = "mark_verified example_app (Some ''u'') granted"
  have rt: "refresh_token granted = Some ''rt''" "id_token granted = Some ''h.c.s''"
    by (simp_all add: granted_def)
  have "session_subject example_app ?p = Inr ''u''"
    by (simp add: session_subject_Inr mark_verified_def)
  moreover have "verified_refresh_token ?p = Some ''rt''" by (simp add: mark_verified_def rt)
  moreover have "acquire app_deps example_url [(''grant_type'', ''refresh_token''),
      (''client_id'', ''c''), (''refresh_token'', ''rt'')] False () = (Inr granted, ())"
    by (rule grant_example) (simp add: MAX_FORM_def)
  moreover have "check_refreshed app_deps example_app ''u'' granted (Keys signing_jwks, ()) =
      (Inr (), (Keys signing_jwks, ()))"
    by (simp add: check_refreshed_def try_io_def rt verify_granted id_claims_sub)
  ultimately have run: "refresh_tokens app_deps example_app ?p (Keys signing_jwks, ()) =
      (Inr (mark_verified example_app (Some ''u'') granted), (Keys signing_jwks, ()))"
    by (simp add: refresh_tokens_def try_io_def in_world_def rt)
  from refresh_keeps_identity [OF run] run granted_session show ?thesis by blast
qed

text \<open>How this client comes by a session, and who it is for: the grants, and refreshes.\<close>

inductive session_history :: "'w deps \<Rightarrow> app \<Rightarrow> string \<Rightarrow> tokens \<Rightarrow> bool"
  for D :: "'w deps" and a :: app where
  by_password: "acquire_token_by_password D cfg a username password totp s = (Inr t, s') \<Longrightarrow>
     verified_subject t = Some subject \<Longrightarrow> session_history D a subject t"
| by_code: "redeem_code D a c verifier nonce s = (Inr t, s') \<Longrightarrow>
     verified_subject t = Some subject \<Longrightarrow> session_history D a subject t"
| by_refresh: "session_history D a subject t \<Longrightarrow> refresh_tokens D a t s = (Inr t', s') \<Longrightarrow>
     session_history D a subject t'"

lemma verified_claims_sub:
  "verified_claims D a t nonce claims \<Longrightarrow> \<exists>s. str_field claims ''sub'' = Some s \<and> s \<noteq> []"
  by (simp add: verified_claims_def)

lemma acquire_token_by_password_Inr:
  assumes "acquire_token_by_password D cfg a username password totp (k, w) = (Inr t', (k', w'))"
  shows "\<exists>t claims s. verified_claims D a t None claims \<and> str_field claims ''sub'' = Some s \<and>
    s \<noteq> [] \<and> t' = mark_verified a (Some s) t"
proof -
  from assms obtain t claims w1 where
    v: "verify_tokens D a t None (k, w1) = (Inr claims, (k', w'))"
    and t: "t' = mark_verified a (str_field claims ''sub'') t"
    by (auto simp: acquire_token_by_password_def try_io_eq_Inr in_world_eq Let_def split: if_splits)
  from verify_tokens_claims [OF v] have c: "verified_claims D a t None claims" .
  from verified_claims_sub [OF c] obtain s where "str_field claims ''sub'' = Some s" "s \<noteq> []"
    by blast
  with c t show ?thesis by (intro exI conjI) simp_all
qed

definition subject_proved :: "'w deps \<Rightarrow> app \<Rightarrow> string \<Rightarrow> bool" where
  "subject_proved D a s \<longleftrightarrow>
     (\<exists>t nonce claims. verified_claims D a t nonce claims \<and> str_field claims ''sub'' = Some s)"

lemma session_history_sound:
  "session_history D a s t \<Longrightarrow> session_of a s t \<and> s \<noteq> [] \<and> subject_proved D a s"
proof (induction rule: session_history.induct)
  case (by_password cfg username password totp s t s' subject)
  obtain k w k' w' where p: "s = (k, w)" "s' = (k', w')" by (cases s; cases s')
  from acquire_token_by_password_Inr [OF by_password(1) [unfolded p]] obtain t0 claims sub where h: "verified_claims D a t0 None claims"
    "str_field claims ''sub'' = Some sub" "sub \<noteq> []" "t = mark_verified a (Some sub) t0" by blast
  with by_password(2) have "sub = subject" by (simp add: mark_verified_def)
  with h show ?case unfolding subject_proved_def by auto
next
  case (by_code c verifier nonce s t s' subject)
  obtain k w k' w' where p: "s = (k, w)" "s' = (k', w')" by (cases s; cases s')
  from by_code(1) [unfolded p] obtain t0 claims sub where h: "verified_claims D a t0 (Some nonce) claims"
    "str_field claims ''sub'' = Some sub" "t = mark_verified a (Some sub) t0"
    by (rule redeem_code_Inr)
  with by_code(2) have "sub = subject" by (simp add: mark_verified_def)
  with h verified_claims_sub [OF h(1)] show ?case unfolding subject_proved_def by auto
next
  case (by_refresh subject t s t' s')
  obtain k w k' w' where p: "s = (k, w)" "s' = (k', w')" by (cases s; cases s')
  from by_refresh(2) [unfolded p] obtain sub t0 where "session_subject a t = Inr sub"
    "t' = mark_verified a (Some sub) t0"
    by (rule refresh_tokens_Inr)
  with by_refresh.IH show ?case by (auto simp: session_subject_Inr session_of_def mark_verified_def)
qed

text \<open>
  C12. A session never changes hands: however it was obtained, by password or by a login's code,
  and however often it was refreshed, it is a session of this client and issuer for the non-empty
  subject of an ID token that was verified for this client at the start.
\<close>

theorem session_identity:
  assumes "session_history D a s t"
  shows "verified_subject t = Some s \<and> s \<noteq> [] \<and> subject_proved D a s \<and>
    verified_issuer t = Some (md_issuer (app_metadata a)) \<and>
    verified_client_id t = Some (client_id (app_config a)) \<and>
    verified_refresh_token t = refresh_token t"
  using session_history_sound [OF assms] by (simp add: session_of_def)

lemma redeem_example:
  "redeem_code app_deps example_app ''x'' (example_secret 32) (example_secret 16)
     (Keys signing_jwks, ()) =
     (Inr (mark_verified example_app (Some ''u'') granted), (Keys signing_jwks, ()))"
proof -
  have "acquire app_deps example_url [(''grant_type'', ''authorization_code''),
      (''client_id'', ''c''), (''code'', ''x''), (''redirect_uri'', url_text example_redirect),
      (''code_verifier'', example_secret 32)] True () = (Inr granted, ())"
    by (rule grant_example) (simp add: MAX_FORM_def example_redirect_def)
  then show ?thesis
    by (simp add: redeem_code_def try_io_def in_world_def verify_granted id_claims_sub)
qed

theorem session_identity_witness:
  "session_history app_deps example_app ''u'' (mark_verified example_app (Some ''u'') granted) \<and>
   verified_subject (mark_verified example_app (Some ''u'') granted) = Some ''u''"
proof -
  have "session_history app_deps example_app ''u'' (mark_verified example_app (Some ''u'') granted)"
    by (rule session_history.by_code [OF redeem_example]) (simp add: mark_verified_def)
  from session_identity [OF this] this show ?thesis by blast
qed

text \<open>
  User information belongs to the session: \<open>userinfo\<close> returns the server's answer only for a
  session verified for this client, if the answer's subject is the session's, and, when the
  session carries an ID token, that token verifies again for the same subject.
\<close>

theorem userinfo_subject:
  assumes "userinfo D a t (k, w) = (Inr user, (k', w'))"
  shows "\<exists>s. session_subject a t = Inr s \<and> str_field user ''sub'' = Some s \<and>
    (\<exists>w1. fetch_userinfo D (userinfo_endpoint (app_metadata a)) (access_token t) w1 = (Inr user, w')) \<and>
    (if id_token t = None then True
     else \<exists>claims. verified_claims D a t None claims \<and> str_field claims ''sub'' = Some s)"
proof -
  from assms obtain s k1 w1 where s: "session_subject a t = Inr s" "str_field user ''sub'' = Some s"
    and f: "fetch_userinfo D (userinfo_endpoint (app_metadata a)) (access_token t) w1 = (Inr user, w')"
    and v: "if id_token t = None then True else (\<exists>claims.
      verify_tokens D a t None (k, w) = (Inr claims, (k1, w1)) \<and> str_field claims ''sub'' = Some s)"
    by (fastforce simp: userinfo_def try_io_eq_Inr in_world_eq split: if_splits)
  from v have "if id_token t = None then True
     else \<exists>claims. verified_claims D a t None claims \<and> str_field claims ''sub'' = Some s"
    by (auto dest: verify_tokens_claims split: if_splits)
  with s f show ?thesis by blast
qed

theorem userinfo_subject_witness:
  "userinfo (app_deps\<lparr>http_send := \<lambda>_ w. (Inr \<lparr>resp_status = 200, resp_headers = [],
       resp_body = show_json id_claims, resp_cookies = []\<rparr>, w)\<rparr>) example_app
     (mark_verified example_app (Some ''u'') (granted\<lparr>id_token := None\<rparr>)) (Keys signing_jwks, ()) =
     (Inr id_claims, (Keys signing_jwks, ())) \<and>
   str_field id_claims ''sub'' = Some ''u''"
proof -
  let ?D = "app_deps\<lparr>http_send := \<lambda>_ w. (Inr \<lparr>resp_status = 200, resp_headers = [],
       resp_body = show_json id_claims, resp_cookies = []\<rparr>, w)\<rparr>"
  let ?t = "mark_verified example_app (Some ''u'') (granted\<lparr>id_token := None\<rparr>)"
  have s: "session_subject example_app ?t = Inr ''u''"
    by (simp add: session_subject_Inr mark_verified_def)
  have "claims_of ?D (show_json id_claims) = Some id_claims"
    by (simp add: claims_of_def token_parts_parsed)
  then have u: "userinfo ?D example_app ?t (Keys signing_jwks, ()) =
      (Inr id_claims, (Keys signing_jwks, ()))"
    using s id_claims_sub by (simp add: userinfo_def try_io_def in_world_def fetch_userinfo_def)
  obtain subject where "session_subject example_app ?t = Inr subject"
    "str_field id_claims ''sub'' = Some subject"
    using userinfo_subject [OF u] by blast
  with u s show ?thesis by simp
qed

subsection \<open>Completing a login\<close>

lemma fail_login_ends:
  "fail_login D (f, k, w) = (f', k', w') \<Longrightarrow>
   lifecycle f' \<noteq> Active \<and> wiped f' \<and> lifecycle f \<le> lifecycle f' \<and> k' = k"
  by (auto simp: fail_login_def dest!: fail_ends split: prod.splits)

lemma fail_login_ended:
  "lifecycle f \<noteq> Active \<Longrightarrow> flow_ok f \<Longrightarrow> fail_login D (f, k, w) = (f, k, w)"
  by (simp add: fail_login_def fail_ended)

lemma exchange_code_ends:
  assumes "exchange_code D a c (f, k, w) = (r, (f', k', w'))"
  shows "lifecycle f' \<noteq> Active \<and> wiped f'"
proof -
  from assms obtain f1 k1 w1 where "(f', k', w') = fail_login D (f1, k1, w1)"
    by (auto simp: exchange_code_def in_any_case_eq)
  from fail_login_ends [OF this [symmetric]] show ?thesis by blast
qed

lemma exchange_code_Inr:
  assumes "exchange_code D a c (f, k, w) = (Inr t, (f', k', w'))"
  shows "lifecycle f = Active \<and> lifecycle f' = Finished_State \<and> wiped f' \<and>
    (\<exists>w1 k2 w2 now. redeem_code D a c (pkce_verifier f) (flow_nonce f) (k, w1) = (Inr t, (k2, w2)) \<and>
       now < deadline f \<and> instant_now D w2 = (now, w') \<and> w1 = snd (instant_now D w) \<and> k' = k2)"
proof -
  from assms obtain f1 k1 w1 f2 k2 w2 f3 k3 w3 where
    e: "ensure_active D (f, w) = (Inr (), (f1, w1))"
    and r: "redeem_code D a c (pkce_verifier f1) (flow_nonce f1) (k, w1) = (Inr t, (k2, w2))"
    and fin: "finish D (f1, w2) = (Inr (), (f3, w3))"
    and fl: "(f', k', w') = fail_login D (f3, k2, w3)"
    by (auto simp: exchange_code_def in_any_case_eq try_io_eq_Inr on_flow_eq in_world_eq)
  from e have f1: "f1 = f" "lifecycle f = Active" "w1 = snd (instant_now D w)"
    by (auto simp: ensure_active_Inr)
  from fin f1 obtain now where f3: "f3 = end_flow Finished_State f" "instant_now D w2 = (now, w3)"
    "now < deadline f" by (auto simp: finish_Inr)
  have "lifecycle f3 = Finished_State" "flow_ok f3" using f1 f3(1) by (simp_all add: flow_ok_def)
  then have "fail_login D (f3, k2, w3) = (f3, k2, w3)" by (simp add: fail_login_ended)
  with fl have "f' = f3" "w' = w3" "k' = k2" by simp_all
  with f1 f3 r \<open>lifecycle f3 = _\<close> show ?thesis by (auto simp: wiped_def)
qed

text \<open>The three ways a redirect is taken: it completes, it is not the callback, or it is refused.\<close>

lemma complete_at_callback_Some:
  assumes "complete_at_callback D a red (f, k, w) = (Inr (Some step), (f', k', w'))"
  shows "\<exists>t c w1. step = Complete t \<and> lifecycle f = Active \<and>
    same_endpoint (location red) (redirect_uri (app_config a)) \<and>
    callback_result (oauth_state f) (url_pairs (location red)) = Inr c \<and>
    exchange_code D a c (f, k, w1) = (Inr t, (f', k', w')) \<and>
    w1 = snd (instant_now D (snd (instant_now D w)))"
proof -
  from assms obtain f1 w1 where e: "ensure_active D (f, w) = (Inr (), (f1, w1))"
    and rest: "(case on_flow (login_callback D red (redirect_uri (app_config a))) (f1, k, w1) of
          (Inl e, s') \<Rightarrow> (Inl e, fail_login D s')
        | (Inr None, s') \<Rightarrow> (Inr None, s')
        | (Inr (Some authorization_code), s') \<Rightarrow>
            try_io (exchange_code D a authorization_code) (\<lambda>t. ret (Some (Complete t))) s') =
      (Inr (Some step), (f', k', w'))"
    by (auto simp: complete_at_callback_def try_io_eq_Inr on_flow_eq)
  from rest obtain c f2 w2 where cb: "login_callback D red (redirect_uri (app_config a)) (f1, w1) =
      (Inr (Some c), (f2, w2))"
    and x: "try_io (exchange_code D a c) (\<lambda>t. ret (Some (Complete t))) (f2, k, w2) =
      (Inr (Some step), (f', k', w'))"
    by (auto simp: on_flow_def split: prod.splits sum.splits option.splits)
  from e cb have "f1 = f" "f2 = f" "lifecycle f = Active" "w2 = snd (instant_now D (snd (instant_now D w)))"
    by (auto simp: callback_Some ensure_active_Inr)
  with cb x show ?thesis by (auto simp: callback_Some try_io_eq_Inr)
qed

lemma complete_at_callback_None:
  assumes "complete_at_callback D a red (f, k, w) = (Inr None, (f', k', w'))"
  shows "f' = f \<and> k' = k \<and> lifecycle f = Active \<and>
    \<not> same_endpoint (location red) (redirect_uri (app_config a)) \<and> w' = snd (instant_now D w)"
  using assms
  by (auto simp: complete_at_callback_def try_io_eq_Inr on_flow_def ensure_active_Inr callback_None
      split: prod.splits sum.splits option.splits)

end
