(* ===== verification/Shared_Keys.thy ===== *)
theory Shared_Keys
  imports Client
begin

text \<open>
  Several tasks on one \<open>PublicClientApplication\<close>: \<open>verify_tokens\<close> of \<open>src/client.rs\<close> holds the
  \<open>RwLock\<close> of the JWKS only while it looks a key up, while it stores fetched keys and while it
  verifies, and waits for the server in between. Here it is split at these points, so that any
  number of verifications can run interleaved on the same keys; \<open>Client\<close> is the case of one task.
\<close>

subsection \<open>One verification, step by step\<close>

datatype phase = Checking | Fetching | Storing json | Verifying | Verified "json res" | Abandoned

record task =
  tk_tokens :: tokens
  tk_nonce :: "string option"
  tk_phase :: phase

text \<open>Under the first read guard: whether one of the known keys can have signed the token.\<close>

definition check_known :: "'w deps \<Rightarrow> tokens \<Rightarrow> jwks_lock \<Rightarrow> bool res" where
  "check_known D t k =
     try_res (ok_or (id_token t) (TokenValidation ''missing ID token'')) (\<lambda>token.
     try_res (token_key_info D token) (\<lambda>(kid, algorithm).
     try_res (read_jwks k) (\<lambda>known. Inr (jwks_has_eligible_key known kid algorithm))))"

text \<open>Under the second read guard: the checks of the token with the keys of that moment.\<close>

definition verify_known ::
  "'w deps \<Rightarrow> app \<Rightarrow> tokens \<Rightarrow> string option \<Rightarrow> (jwks_lock \<times> 'w, json) act" where
  "verify_known D a t nonce =
     try_io (\<lambda>(k, w). (read_jwks k, (k, w))) (\<lambda>jwks.
       in_world (verify_id_token D (case id_token t of None \<Rightarrow> [] | Some token \<Rightarrow> token) jwks
         (md_issuer (app_metadata a)) (client_id (app_config a)) nonce))"

fun task_step ::
  "'w deps \<Rightarrow> app \<Rightarrow> tokens \<Rightarrow> string option \<Rightarrow> phase \<Rightarrow> jwks_lock \<times> 'w \<Rightarrow>
   phase \<times> jwks_lock \<times> 'w" where
  "task_step D a t nonce Checking s =
     (case check_known D t (fst s) of
        Inl e \<Rightarrow> (Verified (Inl e), s)
      | Inr known \<Rightarrow> (if known then Verifying else Fetching, s))"
| "task_step D a t nonce Fetching s =
     (case in_world (fetch_jwks D (jwks_uri (app_metadata a))) s of
        (Inl e, s') \<Rightarrow> (Verified (Inl e), s')
      | (Inr fetched, s') \<Rightarrow> (Storing fetched, s'))"
| "task_step D a t nonce (Storing fetched) s =
     (case write_jwks fetched s of
        (Inl e, s') \<Rightarrow> (Verified (Inl e), s')
      | (Inr _, s') \<Rightarrow> (Verifying, s'))"
| "task_step D a t nonce Verifying s =
     (case verify_known D a t nonce s of (r, s') \<Rightarrow> (Verified r, s'))"
| "task_step D a t nonce (Verified r) s = (Verified r, s)"
| "task_step D a t nonce Abandoned s = (Abandoned, s)"

fun task_steps ::
  "'w deps \<Rightarrow> app \<Rightarrow> tokens \<Rightarrow> string option \<Rightarrow> nat \<Rightarrow> phase \<Rightarrow> jwks_lock \<times> 'w \<Rightarrow>
   phase \<times> jwks_lock \<times> 'w" where
  "task_steps D a t nonce 0 ph s = (ph, s)"
| "task_steps D a t nonce (Suc n) ph s =
     (case task_step D a t nonce ph s of (ph', s') \<Rightarrow> task_steps D a t nonce n ph' s')"

lemma task_steps_done [simp]:
  "task_steps D a t nonce n (Verified r) s = (Verified r, s)"
  by (induction n) simp_all

lemma task_steps_four:
  "task_steps D a t nonce 4 ph s = (case task_step D a t nonce ph s of (ph1, s1) \<Rightarrow>
     case task_step D a t nonce ph1 s1 of (ph2, s2) \<Rightarrow>
     case task_step D a t nonce ph2 s2 of (ph3, s3) \<Rightarrow> task_step D a t nonce ph3 s3)"
  by (simp add: numeral_eq_Suc split: prod.splits)

lemma read_jwks_simps:
  "read_jwks (Keys jwks) = Inr jwks" "read_jwks Poisoned = Inl (Protocol ''JWKS lock poisoned'')"
  by (simp_all add: read_jwks_def)

text \<open>
  Alone, the steps are the operation: four steps of a task nobody interleaves with end it with
  exactly the result, the keys and the outside world of \<open>verify_tokens\<close>.
\<close>

theorem steps_are_verify_tokens:
  "task_steps D a t nonce 4 Checking s =
     (case verify_tokens D a t nonce s of (r, s') \<Rightarrow> (Verified r, s'))"
proof -
  obtain k w where s: "s = (k, w)" by (cases s)
  note eval = s task_steps_four check_known_def verify_known_def verify_tokens_def try_io_def
    read_jwks_simps write_jwks_def in_world_def
  show ?thesis
  proof (cases "id_token t")
    case token: (Some token)
    show ?thesis
    proof (cases "token_key_info D token")
      case (Inr info)
      obtain kid algorithm where info: "info = (kid, algorithm)" by (cases info)
      show ?thesis
      proof (cases k)
        case (Keys known)
        show ?thesis
        proof (cases "jwks_has_eligible_key known kid algorithm")
          case False
          obtain r w1 where "fetch_jwks D (jwks_uri (app_metadata a)) w = (r, w1)"
            by (cases "fetch_jwks D (jwks_uri (app_metadata a)) w")
          with False Keys Inr info token show ?thesis
            by (cases r) (simp_all add: eval split: prod.split)
        qed (use Keys Inr info token in \<open>simp add: eval split: prod.split\<close>)
      qed (use Inr info token in \<open>simp add: eval\<close>)
    qed (use token in \<open>simp add: eval\<close>)
  qed (simp add: eval)
qed

subsection \<open>Many tasks on the same keys\<close>

text \<open>
  What can happen on an application: a verification starts, one of them makes its next step, one
  is dropped by its caller (before its first poll, or while it waits for the server), and anything else happens outside.
\<close>

datatype shared_event = Starts tokens "string option" | Steps nat | Drops nat | Elsewhere

type_synonym 'w shared = "task list \<times> jwks_lock \<times> 'w"

definition starting :: "tokens \<Rightarrow> string option \<Rightarrow> task" where
  "starting t nonce = \<lparr>tk_tokens = t, tk_nonce = nonce, tk_phase = Checking\<rparr>"

inductive shared_step ::
  "'w deps \<Rightarrow> app \<Rightarrow> shared_event \<Rightarrow> 'w shared \<Rightarrow> 'w shared \<Rightarrow> bool"
  for D :: "'w deps" and a :: app where
  starts: "shared_step D a (Starts t nonce) (ts, s) (ts @ [starting t nonce], s)"
| steps: "i < length ts \<Longrightarrow>
     task_step D a (tk_tokens (ts ! i)) (tk_nonce (ts ! i)) (tk_phase (ts ! i)) s = (ph, s') \<Longrightarrow>
     shared_step D a (Steps i) (ts, s) (ts[i := (ts ! i)\<lparr>tk_phase := ph\<rparr>], s')"
| drops: "i < length ts \<Longrightarrow> tk_phase (ts ! i) \<in> {Checking, Fetching} \<Longrightarrow>
     shared_step D a (Drops i) (ts, s) (ts[i := (ts ! i)\<lparr>tk_phase := Abandoned\<rparr>], s)"
| elsewhere: "shared_step D a Elsewhere (ts, k, w) (ts, k, w')"

inductive_cases shared_stepE: "shared_step D a e (ts, s) (ts', s')"

inductive shared_run ::
  "'w deps \<Rightarrow> app \<Rightarrow> json \<Rightarrow> shared_event list \<Rightarrow> 'w shared \<Rightarrow> bool"
  for D :: "'w deps" and a :: app and known :: json where
  run_start: "shared_run D a known [] ([], Keys known, w)"
| run_step: "shared_run D a known es st \<Longrightarrow> shared_step D a e st st' \<Longrightarrow>
     shared_run D a known (es @ [e]) st'"

text \<open>Keys this client came by: the first ones, or an answer of the discovered JWKS address.\<close>

definition genuine :: "'w deps \<Rightarrow> app \<Rightarrow> json \<Rightarrow> json \<Rightarrow> bool" where
  "genuine D a known keys \<longleftrightarrow> keys = known \<or>
     (\<exists>w w'. fetch_jwks D (jwks_uri (app_metadata a)) w = (Inr keys, w'))"

definition accepted_with ::
  "'w deps \<Rightarrow> app \<Rightarrow> tokens \<Rightarrow> string option \<Rightarrow> json \<Rightarrow> json \<Rightarrow> bool" where
  "accepted_with D a t nonce keys claims \<longleftrightarrow>
     (\<exists>token w w'. id_token t = Some token \<and>
        verify_id_token D token keys (md_issuer (app_metadata a)) (client_id (app_config a)) nonce w =
          (Inr claims, w'))"

definition phase_sound ::
  "'w deps \<Rightarrow> app \<Rightarrow> json \<Rightarrow> tokens \<Rightarrow> string option \<Rightarrow> phase \<Rightarrow> bool" where
  "phase_sound D a known t nonce ph \<longleftrightarrow>
     (case ph of
        Checking \<Rightarrow> True
      | Fetching \<Rightarrow> id_token t \<noteq> None
      | Storing keys \<Rightarrow> id_token t \<noteq> None \<and> genuine D a known keys
      | Verifying \<Rightarrow> id_token t \<noteq> None
      | Verified (Inl e) \<Rightarrow> True
      | Verified (Inr claims) \<Rightarrow>
          \<exists>keys. genuine D a known keys \<and> accepted_with D a t nonce keys claims
      | Abandoned \<Rightarrow> True)"

lemma phase_sound_simps [simp]:
  "phase_sound D a known t nonce Checking"
  "phase_sound D a known t nonce Fetching \<longleftrightarrow> id_token t \<noteq> None"
  "phase_sound D a known t nonce (Storing keys) \<longleftrightarrow> id_token t \<noteq> None \<and> genuine D a known keys"
  "phase_sound D a known t nonce Verifying \<longleftrightarrow> id_token t \<noteq> None"
  "phase_sound D a known t nonce (Verified (Inl e))"
  "phase_sound D a known t nonce (Verified (Inr claims)) \<longleftrightarrow>
     (\<exists>keys. genuine D a known keys \<and> accepted_with D a t nonce keys claims)"
  "phase_sound D a known t nonce Abandoned"
  by (simp_all add: phase_sound_def)

lemma check_known_Inr: "check_known D t k = Inr b \<Longrightarrow> id_token t \<noteq> None"
  by (auto simp: check_known_def)

lemma verify_known_sound:
  assumes "verify_known D a t nonce (Keys keys, w) = (r, (k', w'))" "id_token t \<noteq> None"
    and "genuine D a known keys"
  shows "k' = Keys keys \<and> phase_sound D a known t nonce (Verified r)"
proof -
  obtain token where token: "id_token t = Some token" using assms(2) by auto
  with assms(1) have v: "verify_id_token D token keys (md_issuer (app_metadata a))
      (client_id (app_config a)) nonce w = (r, w')" "k' = Keys keys"
    by (auto simp: verify_known_def try_io_def read_jwks_simps in_world_eq)
  with token assms(3) show ?thesis by (cases r) (auto simp: accepted_with_def)
qed

lemma task_step_sound:
  assumes "task_step D a t nonce ph (Keys keys, w) = (ph', s')"
    and "phase_sound D a known t nonce ph" "genuine D a known keys"
  shows "phase_sound D a known t nonce ph' \<and> (\<exists>keys' w'. s' = (Keys keys', w') \<and> genuine D a known keys')"
proof (cases ph)
  case Checking
  with assms show ?thesis
    by (auto dest: check_known_Inr split: sum.splits if_splits)
next
  case Fetching
  obtain r w1 where f: "fetch_jwks D (jwks_uri (app_metadata a)) w = (r, w1)"
    by (cases "fetch_jwks D (jwks_uri (app_metadata a)) w")
  with Fetching assms show ?thesis
    by (cases r) (auto simp: in_world_def genuine_def)
next
  case (Storing fetched)
  with assms show ?thesis by (auto simp: write_jwks_def)
next
  case Verifying
  obtain r k' w' where v: "verify_known D a t nonce (Keys keys, w) = (r, (k', w'))"
    by (cases "verify_known D a t nonce (Keys keys, w)") auto
  from Verifying assms(2) have "id_token t \<noteq> None" by simp
  from verify_known_sound [OF v this assms(3)] Verifying v assms(1,3) show ?thesis by auto
qed (use assms in auto)

text \<open>The invariant of all tasks together.\<close>

definition shared_sound :: "'w deps \<Rightarrow> app \<Rightarrow> json \<Rightarrow> 'w shared \<Rightarrow> bool" where
  "shared_sound D a known st \<longleftrightarrow>
     (case st of (ts, k, w) \<Rightarrow>
        (\<exists>keys. k = Keys keys \<and> genuine D a known keys) \<and>
        (\<forall>t \<in> set ts. phase_sound D a known (tk_tokens t) (tk_nonce t) (tk_phase t)))"

lemma shared_step_sound:
  assumes "shared_step D a e st st'" "shared_sound D a known st"
  shows "shared_sound D a known st'"
  using assms
proof (cases rule: shared_step.cases)
  case (steps i ts s ph s')
  then obtain keys w where s: "s = (Keys keys, w)" "genuine D a known keys"
    using assms(2) by (cases s) (auto simp: shared_sound_def)
  let ?t = "ts ! i"
  have "phase_sound D a known (tk_tokens ?t) (tk_nonce ?t) (tk_phase ?t)"
    using steps(2,4) assms(2) by (auto simp: shared_sound_def split: prod.splits)
  from task_step_sound [OF steps(5) [unfolded s(1)] this s(2)] steps assms(2)
  show ?thesis
    by (auto simp: shared_sound_def dest!: set_update_subset_insert [THEN subsetD])
qed (auto simp: shared_sound_def starting_def dest!: set_update_subset_insert [THEN subsetD])

lemma shared_run_sound: "shared_run D a known es st \<Longrightarrow> shared_sound D a known st"
proof (induction rule: shared_run.induct)
  case (run_start w)
  then show ?case by (simp add: shared_sound_def genuine_def)
qed (rule shared_step_sound)

text \<open>
  C14. Sharing the keys is safe: however the verifications of any number of tasks interleave, are
  dropped or fail, the application's keys are at every moment its first ones or an answer of the
  discovered JWKS address, whole and never poisoned, and every token accepted was verified, for
  this issuer, client and nonce, with such keys.
\<close>

theorem shared_verification_sound:
  assumes "shared_run D a known es (ts, k, w)"
  shows "(\<exists>keys. k = Keys keys \<and> genuine D a known keys) \<and>
    (\<forall>t \<in> set ts. case tk_phase t of
        Verified (Inr claims) \<Rightarrow> verified_claims D a (tk_tokens t) (tk_nonce t) claims \<and>
          (\<exists>keys. genuine D a known keys \<and>
             accepted_with D a (tk_tokens t) (tk_nonce t) keys claims)
      | _ \<Rightarrow> True)"
proof -
  have sound: "shared_sound D a known (ts, k, w)" by (rule shared_run_sound [OF assms])
  have "verified_claims D a t nonce claims" if "accepted_with D a t nonce keys claims"
    for t nonce keys claims
    using that by (auto simp: accepted_with_def verified_claims_def dest!: verify_id_token_claims)
  then have "case ph of
        Verified (Inr claims) \<Rightarrow> verified_claims D a t nonce claims \<and>
          (\<exists>keys. genuine D a known keys \<and> accepted_with D a t nonce keys claims)
      | _ \<Rightarrow> True" if "phase_sound D a known t nonce ph" for t nonce ph
    using that by (fastforce split: phase.splits sum.splits)
  with sound show ?thesis by (auto simp: shared_sound_def)
qed

subsection \<open>Every task ends\<close>

text \<open>The steps a task has left.\<close>

fun steps_left :: "phase \<Rightarrow> nat" where
  "steps_left Checking = 4"
| "steps_left Fetching = 3"
| "steps_left (Storing keys) = 2"
| "steps_left Verifying = 1"
| "steps_left (Verified r) = 0"
| "steps_left Abandoned = 0"

lemma task_step_left:
  "task_step D a t nonce ph s = (ph', s') \<Longrightarrow> steps_left ph' \<le> steps_left ph - 1"
  by (cases ph) (auto split: sum.splits prod.splits if_splits)

definition taken :: "nat \<Rightarrow> shared_event list \<Rightarrow> nat" where
  "taken i es = count_list es (Steps i)"

lemma taken_snoc [simp]: "taken i (es @ [e]) = taken i es + (if e = Steps i then 1 else 0)"
  by (simp add: taken_def)

definition on_time :: "shared_event list \<Rightarrow> task list \<Rightarrow> bool" where
  "on_time es ts \<longleftrightarrow>
     (\<forall>i < length ts. steps_left (tk_phase (ts ! i)) \<le> 4 - taken i es) \<and>
     (\<forall>i \<ge> length ts. taken i es = 0)"

lemma shared_run_left: "shared_run D a known es st \<Longrightarrow> on_time es (fst st)"
proof (induction rule: shared_run.induct)
  case (run_start w)
  then show ?case by (simp add: taken_def on_time_def)
next
  case (run_step es st e st')
  show ?case using run_step.hyps(2)
  proof (cases rule: shared_step.cases)
    case (steps i ts s ph s')
    have "steps_left ph \<le> steps_left (tk_phase (ts ! i)) - 1" by (rule task_step_left [OF steps(5)])
    also have "\<dots> \<le> 4 - taken i es - 1"
      using run_step.IH steps(2,4) by (intro diff_le_mono) (simp add: on_time_def)
    finally have "steps_left ph \<le> 4 - (taken i es + 1)" by simp
    with steps run_step.IH show ?thesis by (auto simp: on_time_def nth_list_update)
  qed (use run_step.IH in
      \<open>auto simp: on_time_def nth_append nth_list_update starting_def less_Suc_eq not_less\<close>)
qed

text \<open>
  C15. No verification starves: whatever the other tasks do with the keys in between, a task that
  was given four steps of its own has its result or was dropped; it fetches the keys at most once
  and never goes back to wait for them again.
\<close>

theorem shared_tasks_finish:
  assumes "shared_run D a known es (ts, k, w)" "i < length ts" "4 \<le> taken i es"
  shows "(\<exists>r. tk_phase (ts ! i) = Verified r) \<or> tk_phase (ts ! i) = Abandoned"
proof -
  from shared_run_left [OF assms(1)] assms(2) have "steps_left (tk_phase (ts ! i)) \<le> 4 - taken i es"
    by (simp add: on_time_def)
  with assms(3) show ?thesis by (cases "tk_phase (ts ! i)") auto
qed

subsection \<open>A verification among others\<close>

lemma verify_known_granted:
  "verify_known app_deps example_app granted None (Keys signing_jwks, ()) =
     (Inr id_claims, (Keys signing_jwks, ()))"
proof -
  have token: "id_token granted = Some ''h.c.s''" by (simp add: granted_def)
  have "verify_tokens app_deps example_app granted None (Keys signing_jwks, ()) =
      (Inr id_claims, (Keys signing_jwks, ()))" by (rule verify_granted) simp
  with token have "verify_id_token app_deps ''h.c.s'' signing_jwks ''https://kc.test/realms/test''
      ''c'' None () = (Inr id_claims, ())"
    by (auto simp: verify_tokens_Inr key_info_example eligible_example)
  with token show ?thesis
    by (simp add: verify_known_def try_io_def read_jwks_simps in_world_def)
qed

lemma example_steps:
  "task_step app_deps example_app granted None Checking (Keys signing_jwks, ()) =
     (Verifying, (Keys signing_jwks, ()))"
  "task_step app_deps example_app granted None Verifying (Keys signing_jwks, ()) =
     (Verified (Inr id_claims), (Keys signing_jwks, ()))"
proof -
  have "id_token granted = Some ''h.c.s''" by (simp add: granted_def)
  then show "task_step app_deps example_app granted None Checking (Keys signing_jwks, ()) =
     (Verifying, (Keys signing_jwks, ()))"
    by (simp add: check_known_def key_info_example eligible_example read_jwks_simps)
qed (simp add: verify_known_granted)

text \<open>Two verifications on the same keys; the first makes four steps, the second one.\<close>

definition example_events :: "shared_event list" where
  "example_events = [Starts granted None, Starts granted None, Steps 0, Steps 1, Steps 0, Steps 0, Steps 0]"

definition example_tasks :: "task list" where
  "example_tasks = [\<lparr>tk_tokens = granted, tk_nonce = None, tk_phase = Verified (Inr id_claims)\<rparr>,
     \<lparr>tk_tokens = granted, tk_nonce = None, tk_phase = Verifying\<rparr>]"

lemma example_run:
  "shared_run app_deps example_app signing_jwks example_events (example_tasks, Keys signing_jwks, ())"
proof -
  let ?s = "(Keys signing_jwks, ())"
  let ?t = "\<lambda>ph. \<lparr>tk_tokens = granted, tk_nonce = None, tk_phase = ph\<rparr>"
  let ?run = "shared_run app_deps example_app signing_jwks"
  let ?step = "shared_step app_deps example_app"
  have step: "?step (Steps i) (ts, ?s) (ts[i := ?t ph'], ?s)"
    if "i < length ts" "ts ! i = ?t ph"
      "task_step app_deps example_app granted None ph ?s = (ph', ?s)" for i ts ph ph'
    using shared_step.steps [of i ts app_deps example_app ?s ph' ?s] that by simp
  have "?run ([] @ [Starts granted None]) ([?t Checking], ?s)"
    using run_step [OF run_start starts] by (simp add: starting_def)
  from run_step [OF this starts [of _ _ granted None]]
  have "?run [Starts granted None, Starts granted None] ([?t Checking, ?t Checking], ?s)"
    by (simp add: starting_def)
  from run_step [OF this step [of 0 _ Checking, OF _ _ example_steps(1)]]
  have "?run [Starts granted None, Starts granted None, Steps 0] ([?t Verifying, ?t Checking], ?s)"
    by simp
  from run_step [OF this step [of 1 _ Checking, OF _ _ example_steps(1)]]
  have "?run [Starts granted None, Starts granted None, Steps 0, Steps 1]
      ([?t Verifying, ?t Verifying], ?s)" by simp
  from run_step [OF this step [of 0 _ Verifying, OF _ _ example_steps(2)]]
  have "?run [Starts granted None, Starts granted None, Steps 0, Steps 1, Steps 0]
      ([?t (Verified (Inr id_claims)), ?t Verifying], ?s)" by simp
  from run_step [OF this step [of 0 _ "Verified (Inr id_claims)"]]
  have "?run [Starts granted None, Starts granted None, Steps 0, Steps 1, Steps 0, Steps 0]
      ([?t (Verified (Inr id_claims)), ?t Verifying], ?s)" by simp
  from run_step [OF this step [of 0 _ "Verified (Inr id_claims)"]]
  show ?thesis by (simp add: example_events_def example_tasks_def)
qed

theorem shared_verification_sound_witness:
  "shared_run app_deps example_app signing_jwks example_events (example_tasks, Keys signing_jwks, ()) \<and>
   verified_claims app_deps example_app granted None id_claims"
  using example_run shared_verification_sound [OF example_run]
  by (simp add: example_tasks_def)

theorem shared_tasks_finish_witness:
  "taken 0 example_events = 4 \<and>
   ((\<exists>r. tk_phase (example_tasks ! 0) = Verified r) \<or> tk_phase (example_tasks ! 0) = Abandoned)"
proof -
  have "taken 0 example_events = 4" "0 < length example_tasks"
    by (simp_all add: taken_def example_events_def example_tasks_def)
  with shared_tasks_finish [OF example_run, of 0] show ?thesis by simp
qed

subsection \<open>A stale answer can win\<close>

text \<open>
  What the sharing does not promise: each task verifies with the keys of that moment, not with the
  ones it fetched itself. If two tasks both fetch, and the one with the older answer stores last,
  the other verifies with the older keys; a token only the newer keys can verify is then refused.
\<close>

lemma stale_keys_win:
  assumes unknown: "check_known D t (Keys known) = Inr False" "check_known D u (Keys known) = Inr False"
    and old: "fetch_jwks D (jwks_uri (app_metadata a)) w = (Inr old, w1)"
    and new: "fetch_jwks D (jwks_uri (app_metadata a)) w1 = (Inr new, w2)"
    and verdict: "verify_known D a t nonce (Keys old, w2) = (r, (Keys old, w3))"
  shows "\<exists>es. shared_run D a known es
    ([\<lparr>tk_tokens = t, tk_nonce = nonce, tk_phase = Verified r\<rparr>,
      \<lparr>tk_tokens = u, tk_nonce = nonce', tk_phase = Verifying\<rparr>], Keys old, w3)"
proof -
  let ?t = "\<lambda>ph. \<lparr>tk_tokens = t, tk_nonce = nonce, tk_phase = ph\<rparr>"
  let ?u = "\<lambda>ph. \<lparr>tk_tokens = u, tk_nonce = nonce', tk_phase = ph\<rparr>"
  let ?run = "\<lambda>p q s. \<exists>es. shared_run D a known es ([?t p, ?u q], s)"
  have t: "?run p' q s'" if "?run p q s" "task_step D a t nonce p s = (p', s')" for p q p' s s'
    using that run_step [OF _ shared_step.steps [of 0 "[?t p, ?u q]" D a s p' s']] by fastforce
  have u: "?run p q' s'" if "?run p q s" "task_step D a u nonce' q s = (q', s')" for p q q' s s'
    using that run_step [OF _ shared_step.steps [of 1 "[?t p, ?u q]" D a s q' s']] by fastforce
  have "?run Checking Checking (Keys known, w)"
    using run_step [OF run_step [OF run_start [of D a known w] starts [of _ _ t nonce]]
        starts [of _ _ u nonce']] by (auto simp: starting_def)
  then have "?run Fetching Checking (Keys known, w)" by (rule t) (simp add: unknown)
  then have "?run Fetching Fetching (Keys known, w)" by (rule u) (simp add: unknown)
  then have "?run Fetching (Storing old) (Keys known, w1)" by (rule u) (simp add: in_world_def old)
  then have "?run (Storing new) (Storing old) (Keys known, w2)"
    by (rule t) (simp add: in_world_def new)
  then have "?run Verifying (Storing old) (Keys new, w2)" by (rule t) (simp add: write_jwks_def)
  then have "?run Verifying Verifying (Keys old, w2)" by (rule u) (simp add: write_jwks_def)
  then show ?thesis by (rule t) (simp add: verdict)
qed

end
