(* ===== verification/Driver.thy ===== *)
theory Driver
  imports Client
begin

text \<open>
  \<open>src/flow/driver.rs\<close> and the login entry points of \<open>src/client.rs\<close>: a login walks Keycloak's
  pages, answer by answer, until the callback completes it. An operation runs on
  \<open>auth_flow \<times> jwks_lock \<times> 'w\<close>; an error keeps what was changed before it, and the \<open>Step\<close> guard
  then fails the login.
\<close>

subsection \<open>Pages and redirects\<close>

definition MAX_REDIRECTS :: nat where "MAX_REDIRECTS = 5"

text \<open>\<open>present\<close>: the page's first challenge; a page that rejects the answers ends the login.\<close>

definition present :: "'w deps \<Rightarrow> factors \<Rightarrow> page \<Rightarrow> ('w login_state, auth_step) act" where
  "present D factors p =
     try_io (lift (extract_form D p)) (\<lambda>(kind, form).
       (case rejection kind of
          Some reason \<Rightarrow> (\<lambda>s. (Inr (Failed reason), fail_login D s))
        | None \<Rightarrow>
            try_io (lift (ok_or (factors kind) UnsupportedFactor)) (\<lambda>factor.
            try_io (\<lambda>(f, s). (pf_challenges factor kind (login_hint f), (f, s))) (\<lambda>challenges.
              (case challenges of
                 [] \<Rightarrow> throw (Protocol ''page asks no challenge'')
               | first # queue \<Rightarrow>
                   (\<lambda>(f, s). (Inr (Challenge first),
                      (f\<lparr>pending := Some \<lparr>pend_kind = kind, pend_form = form,
                           pend_expect = expect_of first, pend_queue = queue,
                           pend_answers = []\<rparr>\<rparr>, s))))))))"

text \<open>The loop of \<open>resolve\<close>: \<open>hops\<close> is how many redirects may still be followed.\<close>

fun resolve ::
  "'w deps \<Rightarrow> app \<Rightarrow> factors \<Rightarrow> nat \<Rightarrow> bool \<Rightarrow> fetched \<Rightarrow> ('w login_state, auth_step) act" where
  "resolve D a factors hops posted answer =
     try_io (on_flow (ensure_active D)) (\<lambda>_.
       (case answer of
          Page p \<Rightarrow>
            if page_status p \<noteq> 200 then throw (HttpStatus (page_status p)) else present D factors p
        | Redirect red \<Rightarrow>
            if posted \<and> repeats_request (red_kind red)
            then throw (Protocol ''unexpected redirect'')
            else try_io (complete_at_callback D a red) (\<lambda>complete.
              (case complete of
                 Some step \<Rightarrow> ret step
               | None \<Rightarrow>
                   if \<not> red_same_origin red then throw (Protocol ''unexpected redirect'')
                   else (case hops of
                       0 \<Rightarrow> throw (Protocol ''too many redirects'')
                     | Suc n \<Rightarrow>
                         try_io (on_jar (fetch_get D (location red))) (\<lambda>next_answer.
                           resolve D a factors n False next_answer))))))"

declare resolve.simps [simp del]

subsection \<open>Steps\<close>

definition first_page ::
  "'w deps \<Rightarrow> app \<Rightarrow> factors \<Rightarrow> start \<Rightarrow> ('w login_state, auth_step) act" where
  "first_page D a factors st =
     try_io (on_flow (app_authorization_url D a st)) (\<lambda>u.
     try_io (modify_state (\<lambda>(f, s). (f\<lparr>flow_client := login_client a,
         login_hint := start_login_hint st\<rparr>, s))) (\<lambda>_.
     try_io (on_jar (fetch_get D u)) (resolve D a factors MAX_REDIRECTS False)))"

definition post_page ::
  "'w deps \<Rightarrow> factors \<Rightarrow> pending_page \<Rightarrow> (cookie_jar \<times> 'w, fetched) act" where
  "post_page D factors p =
     try_io (lift (ok_or (factors (pend_kind p)) UnsupportedFactor)) (\<lambda>factor.
     try_io (lift (pf_fields factor (pend_kind p) (pend_answers p))) (\<lambda>fs.
       submit D (pend_form p) fs))"

text \<open>\<open>pending.take()\<close>: the page is out of the login while its answer is handled.\<close>

definition take_pending :: "('w login_state, pending_page) act" where
  "take_pending = (\<lambda>(f, s).
     (ok_or (pending f) (Protocol ''no challenge is waiting for an answer''),
      (f\<lparr>pending := None\<rparr>, s)))"

definition answer_page ::
  "'w deps \<Rightarrow> app \<Rightarrow> factors \<Rightarrow> answer \<Rightarrow> ('w login_state, auth_step) act" where
  "answer_page D a factors ans =
     try_io (on_flow (ensure_active D)) (\<lambda>_.
     try_io take_pending (\<lambda>p.
     try_io (get_state (\<lambda>(f, s). flow_client f)) (\<lambda>owner.
       if owner \<noteq> login_client a
       then throw (Protocol ''login flow belongs to another client'')
       else try_io (lift (expect_check (pend_expect p) ans)) (\<lambda>_.
         let p1 = p\<lparr>pend_answers := pend_answers p @ [ans]\<rparr> in
         (case pend_queue p1 of
            next_challenge # rest \<Rightarrow>
              (\<lambda>(f, s). (Inr (Challenge next_challenge),
                 (f\<lparr>pending := Some (p1\<lparr>pend_expect := expect_of next_challenge,
                                        pend_queue := rest\<rparr>)\<rparr>, s)))
          | [] \<Rightarrow>
              try_io (on_jar (post_page D factors p1)) (resolve D a factors MAX_REDIRECTS True))))))"

definition begin_login ::
  "'w deps \<Rightarrow> app \<Rightarrow> factors \<Rightarrow> start \<Rightarrow> ('w login_state, auth_step) act" where
  "begin_login D a factors st = unless_ok (fail_login D) (first_page D a factors st)"

definition advance ::
  "'w deps \<Rightarrow> app \<Rightarrow> factors \<Rightarrow> answer \<Rightarrow> ('w login_state, auth_step) act" where
  "advance D a factors ans = unless_ok (fail_login D) (answer_page D a factors ans)"

subsection \<open>The client's entry points\<close>

definition initiate_with ::
  "'w deps \<Rightarrow> app \<Rightarrow> factors \<Rightarrow> start \<Rightarrow> (jwks_lock \<times> 'w, auth_flow \<times> auth_step) act" where
  "initiate_with D a factors st =
     try_io (in_world (new_flow D DEFAULT_LOGIN_TIMEOUT)) (\<lambda>f s.
       (case begin_login D a factors st (f, s) of
          (Inl e, (f', s')) \<Rightarrow> (Inl e, s')
        | (Inr step, (f', s')) \<Rightarrow> (Inr (f', step), s')))"

definition initiate_auth_flow ::
  "'w deps \<Rightarrow> app \<Rightarrow> start \<Rightarrow> (jwks_lock \<times> 'w, auth_flow \<times> auth_step) act" where
  "initiate_auth_flow D a st = initiate_with D a Builtin st"

definition continue_auth_flow ::
  "'w deps \<Rightarrow> app \<Rightarrow> answer \<Rightarrow> ('w login_state, auth_step) act" where
  "continue_auth_flow D a ans = advance D a Builtin ans"

subsection \<open>What a step leaves behind\<close>

definition outcome_ok :: "error + auth_step \<Rightarrow> auth_flow \<Rightarrow> bool" where
  "outcome_ok r f \<longleftrightarrow>
     (case r of
        Inl e \<Rightarrow> lifecycle f \<noteq> Active \<and> wiped f
      | Inr (Challenge c) \<Rightarrow> lifecycle f = Active \<and>
          (case pending f of None \<Rightarrow> False | Some p \<Rightarrow> pend_expect p = expect_of c)
      | Inr (Complete t) \<Rightarrow> lifecycle f = Finished_State \<and> wiped f
      | Inr (Failed reason) \<Rightarrow> lifecycle f \<in> {Failed_State, Expired_State} \<and> wiped f)"

lemma fail_login_state:
  assumes "lifecycle f = Active"
  shows "fail_login D (f, k, w) = (f', k', w') \<Longrightarrow> lifecycle f' \<in> {Failed_State, Expired_State}"
  using assms by (auto simp: fail_login_def fail_def expire_if_due_def split: prod.splits if_splits)

lemma present_Inr:
  assumes "present D factors p (f, k, w) = (Inr step, (f', k', w'))"
  obtains (rejected) kind form reason where "extract_form D p = Inr (kind, form)"
      "rejection kind = Some reason" "step = Failed reason" "(f', k', w') = fail_login D (f, k, w)"
    | (asks) kind form factor c queue where "extract_form D p = Inr (kind, form)"
      "rejection kind = None" "factors kind = Some factor"
      "pf_challenges factor kind (login_hint f) = Inr (c # queue)" "step = Challenge c"
      "f' = f\<lparr>pending := Some \<lparr>pend_kind = kind, pend_form = form, pend_expect = expect_of c,
         pend_queue = queue, pend_answers = []\<rparr>\<rparr>" "k' = k" "w' = w"
proof -
  from assms obtain kind form where x: "extract_form D p = Inr (kind, form)"
    by (auto simp: present_def try_io_eq_Inr)
  show thesis
  proof (cases "rejection kind")
    case (Some reason)
    with assms x show thesis by (intro rejected) (auto simp: present_def try_io_def)
  next
    case None
    with assms x asks show thesis
      by (auto simp: present_def try_io_eq_Inr neq_Nil_conv split: list.splits)
  qed
qed

lemma resolve_Inr:
  assumes "resolve D a factors hops posted answer (f, k, w) = (Inr step, (f', k', w'))"
  obtains (shows_page) p w1 where "lifecycle f = Active" "answer = Page p" "page_status p = 200"
      "present D factors p (f, k, w1) = (Inr step, (f', k', w'))" "w1 = snd (instant_now D w)"
    | (completes) red w1 where "lifecycle f = Active" "answer = Redirect red"
      "\<not> (posted \<and> repeats_request (red_kind red))"
      "complete_at_callback D a red (f, k, w1) = (Inr (Some step), (f', k', w'))"
      "w1 = snd (instant_now D w)"
    | (follows) red n w1 w2 j w3 next_answer where "lifecycle f = Active" "answer = Redirect red"
      "\<not> (posted \<and> repeats_request (red_kind red))"
      "complete_at_callback D a red (f, k, w1) = (Inr None, (f, k, w2))" "red_same_origin red"
      "hops = Suc n" "fetch_get D (location red) (flow_jar f, w2) = (Inr next_answer, (j, w3))"
      "resolve D a factors n False next_answer (f\<lparr>flow_jar := j\<rparr>, k, w3) = (Inr step, (f', k', w'))"
      "w1 = snd (instant_now D w)" "w2 = snd (instant_now D w1)"
proof -
  from assms obtain w1 where act: "lifecycle f = Active" and w1: "w1 = snd (instant_now D w)" and
    r: "(case answer of
          Page p \<Rightarrow>
            if page_status p \<noteq> 200 then throw (HttpStatus (page_status p)) else present D factors p
        | Redirect red \<Rightarrow>
            if posted \<and> repeats_request (red_kind red)
            then throw (Protocol ''unexpected redirect'')
            else try_io (complete_at_callback D a red) (\<lambda>complete.
              (case complete of
                 Some step \<Rightarrow> ret step
               | None \<Rightarrow>
                   if \<not> red_same_origin red then throw (Protocol ''unexpected redirect'')
                   else (case hops of
                       0 \<Rightarrow> throw (Protocol ''too many redirects'')
                     | Suc n \<Rightarrow>
                         try_io (on_jar (fetch_get D (location red))) (\<lambda>next_answer.
                           resolve D a factors n False next_answer))))) (f, k, w1) =
       (Inr step, (f', k', w'))"
    by (subst (asm) resolve.simps) (auto simp: try_io_eq_Inr on_flow_eq ensure_active_Inr)
  show thesis
  proof (cases answer)
    case (Page p)
    with act r w1 show thesis by (intro shows_page) (auto split: if_splits)
  next
    case (Redirect red)
    with r obtain complete f2 k2 w2 where nr: "\<not> (posted \<and> repeats_request (red_kind red))"
      and c: "complete_at_callback D a red (f, k, w1) = (Inr complete, (f2, k2, w2))"
      and rest: "(case complete of
                 Some step \<Rightarrow> ret step
               | None \<Rightarrow>
                   if \<not> red_same_origin red then throw (Protocol ''unexpected redirect'')
                   else (case hops of
                       0 \<Rightarrow> throw (Protocol ''too many redirects'')
                     | Suc n \<Rightarrow>
                         try_io (on_jar (fetch_get D (location red))) (\<lambda>next_answer.
                           resolve D a factors n False next_answer))) (f2, k2, w2) =
        (Inr step, (f', k', w'))"
      by (auto simp: try_io_eq_Inr split: if_splits)
    show thesis
    proof (cases complete)
      case (Some fin_step)
      with rest c act Redirect nr w1 show thesis by (intro completes) auto
    next
      case None
      with c have same: "f2 = f" "k2 = k" "w2 = snd (instant_now D w1)"
        by (auto dest: complete_at_callback_None)
      from rest None same obtain n j w3 next_answer where "red_same_origin red" "hops = Suc n"
        "fetch_get D (location red) (flow_jar f, w2) = (Inr next_answer, (j, w3))"
        "resolve D a factors n False next_answer (f\<lparr>flow_jar := j\<rparr>, k, w3) = (Inr step, (f', k', w'))"
        by (auto simp: try_io_eq_Inr on_jar_eq split: if_splits nat.splits)
      with follows [OF act Redirect nr _ this w1] c None same show thesis by simp
    qed
  qed
qed

lemma present_outcome:
  assumes "present D factors p (f, k, w) = (Inr step, (f', k', w'))" "lifecycle f = Active"
  shows "outcome_ok (Inr step) f' \<and> (\<forall>t. step \<noteq> Complete t)"
  using assms(1)
proof (cases rule: present_Inr)
  case (rejected kind form reason)
  with fail_login_ends [OF rejected(4) [symmetric]] fail_login_state [OF assms(2) rejected(4) [symmetric]]
  show ?thesis by (auto simp: outcome_ok_def)
qed (use assms(2) in \<open>auto simp: outcome_ok_def\<close>)

text \<open>What completing means: the code was redeemed with this login's own secrets.\<close>

definition completed_by ::
  "'w deps \<Rightarrow> app \<Rightarrow> auth_flow \<Rightarrow> tokens \<Rightarrow> auth_flow \<Rightarrow> bool" where
  "completed_by D a f t f' \<longleftrightarrow>
     (\<exists>(red :: redirect) c. same_endpoint (location red) (redirect_uri (app_config a)) \<and>
        callback_result (oauth_state f) (url_pairs (location red)) = Inr c \<and>
        (\<exists>s s'. redeem_code D a c (pkce_verifier f) (flow_nonce f) s = (Inr t, s'))) \<and>
     lifecycle f' = Finished_State \<and> wiped f'"

lemma complete_completed:
  assumes "complete_at_callback D a red (f, k, w) = (Inr (Some step), (f', k', w'))"
  shows "\<exists>t. step = Complete t \<and> completed_by D a f t f'"
proof -
  from complete_at_callback_Some [OF assms] obtain t c w1 where s: "step = Complete t"
    "same_endpoint (location red) (redirect_uri (app_config a))"
    "callback_result (oauth_state f) (url_pairs (location red)) = Inr c"
    "exchange_code D a c (f, k, w1) = (Inr t, (f', k', w'))" by blast
  from exchange_code_Inr [OF s(4)] s show ?thesis unfolding completed_by_def by blast
qed

lemma completed_by_jar [simp]:
  "completed_by D a (f\<lparr>flow_jar := j\<rparr>) t f' = completed_by D a f t f'"
  by (simp add: completed_by_def)

lemma completed_by_outcome: "completed_by D a f t f' \<Longrightarrow> outcome_ok (Inr (Complete t)) f'"
  by (simp add: completed_by_def outcome_ok_def)

lemma resolve_outcome:
  assumes "resolve D a factors hops posted answer (f, k, w) = (Inr step, (f', k', w'))"
  shows "outcome_ok (Inr step) f' \<and> (\<forall>t. step = Complete t \<longrightarrow> completed_by D a f t f')"
  using assms
proof (induction hops arbitrary: posted answer f k w)
  case 0
  from "0.prems" show ?case
  proof (cases rule: resolve_Inr)
    case (shows_page p w1)
    with present_outcome [OF shows_page(4,1)] show ?thesis by simp
  next
    case (completes red w1)
    with complete_completed [OF completes(4)] show ?thesis by (auto dest: completed_by_outcome)
  qed simp
next
  case (Suc hops)
  from Suc.prems show ?case
  proof (cases rule: resolve_Inr)
    case (shows_page p w1)
    with present_outcome [OF shows_page(4,1)] show ?thesis by simp
  next
    case (completes red w1)
    with complete_completed [OF completes(4)] show ?thesis by (auto dest: completed_by_outcome)
  next
    case (follows red n w1 w2 j w3 next_answer)
    with Suc.IH [of False next_answer "f\<lparr>flow_jar := j\<rparr>" k w3] show ?thesis by simp
  qed
qed

lemma answer_page_Inr:
  assumes "answer_page D a factors ans (f, k, w) = (Inr step, (f', k', w'))"
  obtains (asks_next) p c rest where "lifecycle f = Active" "pending f = Some p"
      "flow_client f = login_client a" "expect_check (pend_expect p) ans = Inr ()"
      "pend_queue p = c # rest" "step = Challenge c" "k' = k"
      "f' = f\<lparr>pending := Some (p\<lparr>pend_answers := pend_answers p @ [ans],
         pend_expect := expect_of c, pend_queue := rest\<rparr>)\<rparr>" "w' = snd (instant_now D w)"
    | (posts) p w1 j w2 answer where "lifecycle f = Active" "pending f = Some p"
      "flow_client f = login_client a" "expect_check (pend_expect p) ans = Inr ()"
      "pend_queue p = []"
      "post_page D factors (p\<lparr>pend_answers := pend_answers p @ [ans]\<rparr>) (flow_jar f, w1) =
         (Inr answer, (j, w2))"
      "resolve D a factors MAX_REDIRECTS True answer (f\<lparr>pending := None, flow_jar := j\<rparr>, k, w2) =
         (Inr step, (f', k', w'))" "w1 = snd (instant_now D w)"
proof -
  from assms obtain p w1 where g: "lifecycle f = Active" "pending f = Some p"
    "flow_client f = login_client a" "expect_check (pend_expect p) ans = Inr ()"
    and w1: "w1 = snd (instant_now D w)"
    and r: "(let p1 = p\<lparr>pend_answers := pend_answers p @ [ans]\<rparr> in
         (case pend_queue p1 of
            next_challenge # rest \<Rightarrow>
              (\<lambda>(f, s). (Inr (Challenge next_challenge),
                 (f\<lparr>pending := Some (p1\<lparr>pend_expect := expect_of next_challenge,
                                        pend_queue := rest\<rparr>)\<rparr>, s)))
          | [] \<Rightarrow>
              try_io (on_jar (post_page D factors p1)) (resolve D a factors MAX_REDIRECTS True)))
        (f\<lparr>pending := None\<rparr>, k, w1) = (Inr step, (f', k', w'))"
    by (auto simp: answer_page_def try_io_eq_Inr on_flow_eq ensure_active_Inr take_pending_def
        split: if_splits)
  show thesis
  proof (cases "pend_queue p")
    case Nil
    with r obtain j w2 answer where
      "post_page D factors (p\<lparr>pend_answers := pend_answers p @ [ans]\<rparr>) (flow_jar f, w1) =
         (Inr answer, (j, w2))"
      "resolve D a factors MAX_REDIRECTS True answer (f\<lparr>pending := None, flow_jar := j\<rparr>, k, w2) =
         (Inr step, (f', k', w'))"
      by (auto simp: Let_def try_io_eq_Inr on_jar_eq)
    with posts [OF g Nil _ _ w1] show thesis by blast
  next
    case (Cons c rest)
    with r w1 asks_next [OF g Cons] show thesis by (auto simp: Let_def)
  qed
qed

lemma first_page_Inr:
  assumes "first_page D a factors st (f, k, w) = (Inr step, (f', k', w'))"
  obtains answer j w2 where "lifecycle f = Active"
    "resolve D a factors MAX_REDIRECTS False answer
       (f\<lparr>flow_client := login_client a, login_hint := start_login_hint st, flow_jar := j\<rparr>, k, w2) =
         (Inr step, (f', k', w'))"
  using assms
  by (auto simp: first_page_def try_io_eq_Inr on_flow_eq on_jar_eq app_authorization_url_def
      ensure_active_Inr)

lemma completed_by_fields [simp]:
  "completed_by D a (f\<lparr>pending := p\<rparr>) t f' = completed_by D a f t f'"
  "completed_by D a (f\<lparr>flow_client := c\<rparr>) t f' = completed_by D a f t f'"
  "completed_by D a (f\<lparr>login_hint := h\<rparr>) t f' = completed_by D a f t f'"
  by (simp_all add: completed_by_def)

lemma unless_ok_error_ends:
  assumes "unless_ok (fail_login D) m s = (Inl e, (f', k', w'))"
  shows "outcome_ok (Inl e) f'"
proof -
  from assms obtain f k w where "(f', k', w') = fail_login D (f, k, w)"
    by (auto simp: unless_ok_eq)
  from fail_login_ends [OF this [symmetric]] show ?thesis by (simp add: outcome_ok_def)
qed

lemma advance_outcome:
  assumes "advance D a factors ans (f, k, w) = (r, (f', k', w'))"
  shows "outcome_ok r f' \<and> (\<forall>t. r = Inr (Complete t) \<longrightarrow> completed_by D a f t f')"
proof (cases r)
  case (Inl e)
  with unless_ok_error_ends [OF assms [unfolded advance_def Inl]] show ?thesis by simp
next
  case (Inr step)
  with assms have "answer_page D a factors ans (f, k, w) = (Inr step, (f', k', w'))"
    by (simp add: advance_def unless_ok_eq)
  then show ?thesis
  proof (cases rule: answer_page_Inr)
    case (asks_next p c rest)
    with Inr show ?thesis by (simp add: outcome_ok_def)
  next
    case (posts p w1 j w2 answer)
    with resolve_outcome [OF posts(7)] Inr show ?thesis by simp
  qed
qed

lemma begin_outcome:
  assumes "begin_login D a factors st (f, k, w) = (r, (f', k', w'))"
  shows "outcome_ok r f' \<and> (\<forall>t. r = Inr (Complete t) \<longrightarrow> completed_by D a f t f')"
proof (cases r)
  case (Inl e)
  with unless_ok_error_ends [OF assms [unfolded begin_login_def Inl]] show ?thesis by simp
next
  case (Inr step)
  with assms have "first_page D a factors st (f, k, w) = (Inr step, (f', k', w'))"
    by (simp add: begin_login_def unless_ok_eq)
  then show ?thesis
    by (rule first_page_Inr) (use Inr in \<open>auto dest!: resolve_outcome\<close>)
qed

text \<open>
  C7. What every step of a login leaves behind, for any page and any server: after an error the
  login is over and nothing of it is left; a returned challenge is the one the active login now
  waits for; a completed login is finished and wiped; and a login Keycloak rejected is failed, or
  expired, and wiped.
\<close>

theorem step_outcome:
  "(case advance D a factors ans (f, k, w) of (r, (f', s')) \<Rightarrow> outcome_ok r f') \<and>
   (case begin_login D a factors st (f, k, w) of (r, (f', s')) \<Rightarrow> outcome_ok r f')"
  using advance_outcome [of D a factors ans f k w] begin_outcome [of D a factors st f k w]
  by (auto split: prod.splits)

subsection \<open>A concrete login\<close>

definition waiting_page :: pending_page where
  "waiting_page = \<lparr>pend_kind = UsernamePassword None, pend_form = login_form,
     pend_expect = Expect_Password, pend_queue = [], pend_answers = [Username ''u'']\<rparr>"

definition waiting_flow :: auth_flow where
  "waiting_flow = \<lparr>flow_jar = [], deadline = 5, lifecycle = Active,
     pkce_verifier = example_secret 32, oauth_state = example_secret 16,
     flow_nonce = example_secret 16, pending = Some waiting_page,
     flow_client = login_client example_app, login_hint = None\<rparr>"

definition callback_arrived :: redirect where
  "callback_arrived = \<lparr>location = example_callback, red_same_origin = True, red_kind = Found\<rparr>"

lemma post_example:
  "post_page app_deps Builtin (waiting_page\<lparr>pend_answers := [Username ''u'', Password ''p'']\<rparr>) ([], ()) =
     (Inr (Redirect callback_arrived), ([], ()))"
proof -
  have "answers_fit login_form [(''username'', ''u''), (''password'', ''p'')]"
    by (simp add: answers_fit_def login_form_def)
  then have sub: "submit app_deps login_form [(''username'', ''u''), (''password'', ''p'')] ([], ()) =
      post_form app_deps example_action (filled login_form [(''username'', ''u''), (''password'', ''p'')])
        ([], ())"
    by (simp add: submit_accepted) (simp add: login_form_def)
  have "\<exists>c. form_capacity (filled login_form [(''username'', ''u''), (''password'', ''p'')]) = Some c"
    by (simp add: form_capacity_eq filled_def login_form_def MAX_FORM_def)
  then obtain r where r: "request_form app_deps example_action
      (filled login_form [(''username'', ''u''), (''password'', ''p'')]) = Inr r"
    "req_method r = Post" "req_url r = example_action"
    by (auto simp: request_form_def)
  have ans: "example_answer (r\<lparr>req_cookies := c\<rparr>) =
      \<lparr>resp_status = 302, resp_headers = [(''Location'', ''cb'')], resp_body = [], resp_cookies = []\<rparr>" for c
    using r by (simp add: example_answer_def)
  have "header \<lparr>resp_status = 302, resp_headers = [(''Location'', ''cb'')], resp_body = [],
      resp_cookies = []\<rparr> ''Location'' = Some ''cb''"
    by (simp add: header_def eq_ignore_ascii_case_def)
  then have "fetch_send app_deps r ([], ()) = (Inr (Redirect callback_arrived), ([], ()))"
    using r(3) ans
    by (simp add: fetch_send_def allowed_scheme_def unix_now_def read_response_def from_status_def
        replace_at_def callback_arrived_def example_action_def example_url_def example_callback_def
        example_redirect_def)
  then show ?thesis
    using r(1) sub
    by (simp add: post_page_def waiting_page_def Builtin_def PasswordFactor_def password_fields_def
        try_io_def post_form_def)
qed

lemma callback_example:
  assumes "lifecycle f = Active" "0 < deadline f" "oauth_state f = example_secret 16"
    "pkce_verifier f = example_secret 32" "flow_nonce f = example_secret 16"
  shows "complete_at_callback app_deps example_app callback_arrived (f, Keys signing_jwks, ()) =
    (Inr (Some (Complete (mark_verified example_app (Some ''u'') granted))),
     (end_flow Finished_State f, Keys signing_jwks, ()))"
proof -
  have e: "ensure_active app_deps (f, ()) = (Inr (), (f, ()))"
    using assms by (simp add: ensure_active_Inr)
  have "callback_result (oauth_state f) (url_pairs example_callback) = Inr ''x''"
    using assms by (simp add: callback_result_Inr example_callback_def example_secret_def)
  moreover have "same_endpoint example_callback example_redirect"
    by (simp add: same_endpoint_def example_callback_def)
  ultimately have cb: "login_callback app_deps callback_arrived example_redirect (f, ()) =
      (Inr (Some ''x''), (f, ()))"
    using e by (simp add: callback_Some callback_arrived_def)
  have "finish app_deps (f, ()) = (Inr (), (end_flow Finished_State f, ()))"
    using assms by (simp add: finish_Inr)
  moreover have "fail_login app_deps (end_flow Finished_State f, Keys signing_jwks, ()) =
      (end_flow Finished_State f, Keys signing_jwks, ())"
    using assms by (intro fail_login_ended) (auto simp: flow_ok_def)
  ultimately have "exchange_code app_deps example_app ''x'' (f, Keys signing_jwks, ()) =
      (Inr (mark_verified example_app (Some ''u'') granted),
       (end_flow Finished_State f, Keys signing_jwks, ()))"
    using e assms redeem_example
    by (simp add: exchange_code_def in_any_case_def try_io_def on_flow_def in_world_def)
  with e cb show ?thesis by (simp add: complete_at_callback_def try_io_def on_flow_def)
qed

lemma login_example:
  "advance app_deps example_app Builtin (Password ''p'') (waiting_flow, Keys signing_jwks, ()) =
     (Inr (Complete (mark_verified example_app (Some ''u'') granted)),
      (end_flow Finished_State (waiting_flow\<lparr>pending := None\<rparr>), Keys signing_jwks, ()))"
proof -
  let ?f = "waiting_flow\<lparr>pending := None\<rparr>"
  have f: "lifecycle ?f = Active" "0 < deadline ?f" "oauth_state ?f = example_secret 16"
    "pkce_verifier ?f = example_secret 32" "flow_nonce ?f = example_secret 16" "flow_jar ?f = []"
    "pending waiting_flow = Some waiting_page" "flow_client ?f = login_client example_app"
    by (simp_all add: waiting_flow_def)
  have same: "?f\<lparr>flow_jar := []\<rparr> = ?f" by (simp add: waiting_flow_def)
  have p: "pend_queue waiting_page = []" "pend_expect waiting_page = Expect_Password"
    "pend_answers waiting_page = [Username ''u'']" by (simp_all add: waiting_page_def)
  have e: "ensure_active app_deps (waiting_flow, ()) = (Inr (), (waiting_flow, ()))"
    "ensure_active app_deps (?f, ()) = (Inr (), (?f, ()))"
    by (simp_all add: ensure_active_Inr waiting_flow_def)
  have "resolve app_deps example_app Builtin MAX_REDIRECTS True (Redirect callback_arrived)
      (?f, Keys signing_jwks, ()) =
      (Inr (Complete (mark_verified example_app (Some ''u'') granted)),
       (end_flow Finished_State ?f, Keys signing_jwks, ()))"
    using e(2) callback_example [OF f(1-5)]
    by (subst resolve.simps)
      (simp add: try_io_def on_flow_def callback_arrived_def repeats_request_def)
  then show ?thesis
    using e post_example f p
    by (simp add: advance_def unless_ok_def answer_page_def try_io_def on_flow_def take_pending_def
        on_jar_def Let_def same)
qed

subsection \<open>Refused answers\<close>

text \<open>An answer the waiting login accepts, and one that is the last its page asked for.\<close>

definition answer_accepted :: "'w deps \<Rightarrow> app \<Rightarrow> auth_flow \<Rightarrow> 'w \<Rightarrow> answer \<Rightarrow> bool" where
  "answer_accepted D a f w ans \<longleftrightarrow>
     lifecycle f = Active \<and> fst (instant_now D w) < deadline f \<and> flow_client f = login_client a \<and>
     (case pending f of None \<Rightarrow> False | Some p \<Rightarrow> is_ok (expect_check (pend_expect p) ans))"

definition last_answer :: "auth_flow \<Rightarrow> bool" where
  "last_answer f \<longleftrightarrow> (case pending f of None \<Rightarrow> False | Some p \<Rightarrow> pend_queue p = [])"

lemma ensure_active_send [simp]:
  "ensure_active (D\<lparr>http_send := send\<rparr>) = ensure_active D"
  by (rule ext) (simp add: ensure_active_def expire_if_due_def cong: if_cong)

lemma fail_login_send [simp]: "fail_login (D\<lparr>http_send := send\<rparr>) = fail_login D"
  by (simp add: fail_login_def fail_def expire_if_due_def cong: if_cong)

lemma answer_page_refused:
  assumes "\<not> answer_accepted D a f w ans"
  shows "\<exists>e s'. \<forall>send. answer_page (D\<lparr>http_send := send\<rparr>) a factors ans (f, k, w) = (Inl e, s')"
proof (cases rule: ensure_active_cases [of f D w])
  case (go w' now)
  show ?thesis
  proof (cases "pending f")
    case None
    with go show ?thesis
      by (simp add: answer_page_def try_io_def on_flow_def take_pending_def)
  next
    case (Some p)
    with assms go consider "flow_client f \<noteq> login_client a" |
      e where "flow_client f = login_client a" "expect_check (pend_expect p) ans = Inl e"
      by (cases "expect_check (pend_expect p) ans") (auto simp: answer_accepted_def)
    then show ?thesis
      by cases (use Some go in \<open>simp_all add: answer_page_def try_io_def on_flow_def take_pending_def\<close>)
  qed
qed (simp_all add: answer_page_def try_io_def on_flow_def)

lemma answer_page_not_last:
  assumes "answer_accepted D a f w ans" "\<not> last_answer f"
  shows "\<exists>c s'. \<forall>send. answer_page (D\<lparr>http_send := send\<rparr>) a factors ans (f, k, w) =
    (Inr (Challenge c), s')"
proof -
  from assms obtain p c rest where p: "pending f = Some p" "pend_queue p = c # rest"
    "expect_check (pend_expect p) ans = Inr ()" "flow_client f = login_client a"
    by (auto simp: answer_accepted_def last_answer_def is_ok_iff neq_Nil_conv split: option.splits)
  from assms(1) have "lifecycle f = Active" "\<not> deadline f \<le> fst (instant_now D w)"
    by (auto simp: answer_accepted_def)
  then obtain w' where "ensure_active D (f, w) = (Inr (), (f, w'))"
    by (auto intro: ensure_active_cases [of f D w])
  with p show ?thesis
    by (simp add: answer_page_def try_io_def on_flow_def take_pending_def Let_def)
qed

text \<open>
  C10. A refused answer sends nothing: unless the login is active and in time, was begun by this
  client, waits for an answer and the answer is one its challenge accepts, \<open>advance\<close> is an error,
  and unless it is also the page's last answer, what \<open>advance\<close> does is the same whatever the
  server would have replied: the request is never made.
\<close>

theorem refused_answer_sends_nothing:
  "(if answer_accepted D a f w ans then True
    else \<exists>e s'. advance D a factors ans (f, k, w) = (Inl e, s')) \<and>
   (if answer_accepted D a f w ans \<and> last_answer f then True
    else \<forall>send. advance (D\<lparr>http_send := send\<rparr>) a factors ans (f, k, w) =
      advance D a factors ans (f, k, w))"
proof (cases "answer_accepted D a f w ans")
  case False
  from answer_page_refused [OF this, of factors k] obtain e s' where
    r: "\<And>send. answer_page (D\<lparr>http_send := send\<rparr>) a factors ans (f, k, w) = (Inl e, s')" by blast
  from r [of "http_send D"] have "answer_page D a factors ans (f, k, w) = (Inl e, s')" by simp
  with r False show ?thesis
    by (cases "fail_login D s'") (simp add: advance_def unless_ok_def)
next
  case acc: True
  show ?thesis
  proof (cases "last_answer f")
    case False
    from answer_page_not_last [OF acc False, of factors k] obtain c s' where
      r: "\<And>send. answer_page (D\<lparr>http_send := send\<rparr>) a factors ans (f, k, w) = (Inr (Challenge c), s')"
      by blast
    from r [of "http_send D"] have "answer_page D a factors ans (f, k, w) = (Inr (Challenge c), s')"
      by simp
    with r acc show ?thesis by (simp add: advance_def unless_ok_def)
  qed (use acc in simp)
qed

subsection \<open>Whole logins\<close>

text \<open>
  The login behind the driver's guards is a single-use resource too; every step of \<open>advance\<close>
  passes its gate first.
\<close>

interpretation guarded: single_use "on_flow (ensure_active D)" "fail_login D"
  "\<lambda>(f, k, w). lifecycle f = Active" "\<lambda>(f, k, w). wiped f" "\<lambda>(f, k, w). flow_ok f"
proof (unfold_locales, goal_cases)
  case (3 s e t)
  obtain f k w f' k' w' where "s = (f, k, w)" "t = (f', k', w')" by (cases s; cases t)
  with 3 show ?case by (auto simp: on_flow_eq dest: ensure_active_Inl)
next
  case (4 s)
  obtain f k w where "s = (f, k, w)" by (cases s)
  with 4 show ?case by (cases rule: ensure_active_cases [of f D w]) (auto simp: on_flow_def)
next
  case (5 s r t)
  obtain f k w where "s = (f, k, w)" by (cases s)
  with 5 show ?case
    by (cases rule: ensure_active_cases [of f D w]) (auto simp: on_flow_def flow_ok_def)
next
  case (6 s)
  obtain f k w f' k' w' where s: "s = (f, k, w)" "fail_login D (f, k, w) = (f', k', w')"
    by (cases s; cases "fail_login D s") auto
  from fail_login_ends [OF s(2)] s show ?case by (simp add: flow_ok_def)
qed (auto simp: on_flow_eq ensure_active_Inr fail_login_ended flow_ok_def)

lemma ended_advance:
  assumes "lifecycle f \<noteq> Active" "flow_ok f"
  shows "\<exists>e. advance D a factors ans (f, k, w) = (Inl e, (f, k, w))"
  unfolding advance_def answer_page_def by (rule guarded.ended_refuses) (use assms in auto)

text \<open>
  What can happen to a login between its first page and its end: answers, by any client of the
  realm or elsewhere, cancelling, asking whether it is active, the future of a step dropped
  mid-request (its guard fails the login from whatever state was reached), and anything that
  happens to the keys and the outside world.
\<close>

inductive login_step ::
  "'w deps \<Rightarrow> factors \<Rightarrow> 'w login_state \<Rightarrow> (error + auth_step) option \<Rightarrow> 'w login_state \<Rightarrow> bool"
  for D :: "'w deps" and factors :: factors where
  answered: "advance D a factors ans s = (r, s') \<Longrightarrow> login_step D factors s (Some r) s'"
| cancelled: "cancel D (f, w) = (f', w') \<Longrightarrow> login_step D factors (f, k, w) None (f', k, w')"
| checked: "is_active D (f, w) = (b, (f', w')) \<Longrightarrow> login_step D factors (f, k, w) None (f', k, w')"
| dropped: "lifecycle f = Active \<Longrightarrow>
     login_step D factors (f, k, w) None (fail_login D (f1, k1, w1))"
| outside: "login_step D factors (f, k, w) None (f, k', w')"

inductive_cases visible_step: "login_step D factors s (Some r) s'"
inductive_cases silent_step: "login_step D factors (f, k, w) None (f', k', w')"

text \<open>The outcomes of the answers given so far, and the state they led to.\<close>

inductive login_trace ::
  "'w deps \<Rightarrow> factors \<Rightarrow> 'w login_state \<Rightarrow> (error + auth_step) list \<Rightarrow> 'w login_state \<Rightarrow> bool"
  for D :: "'w deps" and factors :: factors and s0 :: "'w login_state" where
  start: "login_trace D factors s0 [] s0"
| visible: "login_trace D factors s0 rs s \<Longrightarrow> login_step D factors s (Some r) s' \<Longrightarrow>
     login_trace D factors s0 (rs @ [r]) s'"
| silent: "login_trace D factors s0 rs s \<Longrightarrow> login_step D factors s None s' \<Longrightarrow>
     login_trace D factors s0 rs s'"

lemma cancel_keeps:
  assumes "cancel D (f, w) = (f', w')" "flow_ok f"
  shows "flow_ok f' \<and> lifecycle f \<le> lifecycle f'"
  using flow_event_keeps [of D Ev_Cancel f w f' w'] assms by simp

lemma is_active_keeps:
  assumes "is_active D (f, w) = (b, (f', w'))" "flow_ok f"
  shows "flow_ok f' \<and> lifecycle f \<le> lifecycle f'"
  using flow_event_keeps [of D Ev_Is_Active f w f' w'] assms by simp

lemma silent_step_keeps:
  assumes "login_step D factors (f, k, w) None (f', k', w')" "flow_ok f"
  shows "flow_ok f' \<and> lifecycle f \<le> lifecycle f'"
  using assms
  by (elim silent_step)
    (auto simp: flow_ok_def [of f'] dest: cancel_keeps is_active_keeps fail_login_ends [OF sym])

lemma visible_step_outcome:
  assumes "login_step D factors (f, k, w) (Some r) (f', k', w')" "flow_ok f"
  shows "outcome_ok r f' \<and> (if lifecycle f = Active then True else f' = f \<and> \<not> is_ok r)"
proof -
  from assms(1) obtain a ans where "advance D a factors ans (f, k, w) = (r, (f', k', w'))"
    by (elim visible_step)
  with advance_outcome [OF this] ended_advance [of f D a factors ans k w] assms(2) show ?thesis
    by (auto simp: is_ok_def)
qed

definition is_challenge :: "error + auth_step \<Rightarrow> bool" where
  "is_challenge r \<longleftrightarrow> (case r of Inr (Challenge c) \<Rightarrow> True | _ \<Rightarrow> False)"

lemma outcome_cases:
  assumes "outcome_ok r f"
  obtains (asks) c where "r = Inr (Challenge c)" "lifecycle f = Active"
    | (ends) "\<not> is_challenge r" "lifecycle f \<noteq> Active" "wiped f"
  using assms
  by (cases r rule: sum.exhaust; cases "projr r")
    (auto simp: outcome_ok_def is_challenge_def split: sum.splits auth_step.splits)

text \<open>The shape of a login: challenges, then at most one outcome that is none, then errors.\<close>

definition login_shape :: "(error + auth_step) list \<Rightarrow> auth_flow \<Rightarrow> bool" where
  "login_shape rs f \<longleftrightarrow>
     (\<exists>cs ends. rs = map (\<lambda>c. Inr (Challenge c)) cs @ ends \<and>
        list_all (\<lambda>r. \<not> is_challenge r) ends \<and> list_all (\<lambda>r. \<not> is_ok r) (tl ends) \<and>
        (ends = [] \<or> lifecycle f \<noteq> Active))"

lemma trace_shape:
  assumes "login_trace D factors s0 rs s" "flow_ok (fst s0)"
  shows "flow_ok (fst s) \<and> login_shape rs (fst s)"
  using assms(1)
proof (induction rule: login_trace.induct)
  case start
  show ?case using assms(2) by (auto simp: login_shape_def)
next
  case (silent rs s s')
  obtain f k w f' k' w' where s: "s = (f, k, w)" "s' = (f', k', w')" by (cases s; cases s')
  with silent silent_step_keeps [of D factors f k w f' k' w']
  have "flow_ok f'" "lifecycle f \<le> lifecycle f'" by auto
  moreover from silent s obtain cs ends where "rs = map (\<lambda>c. Inr (Challenge c)) cs @ ends"
    "list_all (\<lambda>r. \<not> is_challenge r) ends" "list_all (\<lambda>r. \<not> is_ok r) (tl ends)"
    "ends = [] \<or> lifecycle f \<noteq> Active" by (auto simp: login_shape_def)
  ultimately show ?case
    unfolding s login_shape_def fst_conv less_eq_flow_state_def by metis
next
  case (visible rs s r s')
  obtain f k w f' k' w' where s: "s = (f, k, w)" "s' = (f', k', w')" by (cases s; cases s')
  with visible visible_step_outcome [of D factors f k w r f' k' w']
  have o: "outcome_ok r f'" "if lifecycle f = Active then True else f' = f \<and> \<not> is_ok r"
    by auto
  from visible s obtain cs ends where sh: "rs = map (\<lambda>c. Inr (Challenge c)) cs @ ends"
    "list_all (\<lambda>r. \<not> is_challenge r) ends" "list_all (\<lambda>r. \<not> is_ok r) (tl ends)"
    "ends = [] \<or> lifecycle f \<noteq> Active" by (auto simp: login_shape_def)
  from o(1) show ?case
  proof (cases rule: outcome_cases)
    case (asks c)
    with o(2) have "lifecycle f = Active" by (auto split: if_splits)
    with sh have "ends = []" by simp
    with sh asks have "rs @ [r] = map (\<lambda>c. Inr (Challenge c)) (cs @ [c]) @ []" by simp
    then have "login_shape (rs @ [r]) f'"
      unfolding login_shape_def by (intro exI [of _ "cs @ [c]"] exI [of _ "[]"]) simp
    with asks s show ?thesis by (simp add: flow_ok_def)
  next
    case ends
    have "list_all (\<lambda>r. \<not> is_ok r) (tl (ends @ [r]))"
      using sh(3,4) o(2) by (cases ends) (auto split: if_splits)
    moreover have "rs @ [r] = map (\<lambda>c. Inr (Challenge c)) cs @ (ends @ [r])" by (simp add: sh(1))
    ultimately show ?thesis
      using sh(2) ends s unfolding login_shape_def
      by (intro conjI exI [of _ cs] exI [of _ "ends @ [r]"]) (auto simp: flow_ok_def)
  qed
qed

text \<open>
  C2. A login ends once: in whatever order it is answered, cancelled, asked about, dropped in the
  middle of a request or left waiting, from its first page on, its answers get challenges, then at
  most one outcome that is not a challenge (tokens, a rejection or an error), and after it only
  errors, so tokens are handed out at most once; and whenever it is not active, none of its
  cookies, secrets and pages are left.
\<close>

theorem login_ends_once:
  assumes "login_trace D factors (f0, k0, w0) rs (f, k, w)"
    and "flow_ok f0"
  shows "(\<exists>cs ends. rs = map (\<lambda>c. Inr (Challenge c)) cs @ ends \<and>
      list_all (\<lambda>r. \<not> is_challenge r) ends \<and> list_all (\<lambda>r. \<not> is_ok r) (tl ends) \<and>
      (ends = [] \<or> lifecycle f \<noteq> Active)) \<and>
    (lifecycle f = Active \<or> wiped f)"
  using trace_shape [OF assms(1)] assms(2) by (simp add: login_shape_def flow_ok_def)

theorem login_ends_once_witness:
  "\<exists>t f. login_trace app_deps Builtin (waiting_flow, Keys signing_jwks, ())
       [Inr (Complete t)] (f, Keys signing_jwks, ()) \<and> lifecycle f = Finished_State \<and> wiped f"
proof -
  let ?f = "end_flow Finished_State (waiting_flow\<lparr>pending := None\<rparr>)"
  let ?t = "mark_verified example_app (Some ''u'') granted"
  have "login_step app_deps Builtin (waiting_flow, Keys signing_jwks, ())
      (Some (Inr (Complete ?t))) (?f, Keys signing_jwks, ())"
    by (rule login_step.answered [OF login_example])
  then have tr: "login_trace app_deps Builtin (waiting_flow, Keys signing_jwks, ())
      ([] @ [Inr (Complete ?t)]) (?f, Keys signing_jwks, ())"
    by (rule login_trace.visible [OF login_trace.start])
  have fin: "lifecycle ?f = Finished_State" by (simp add: waiting_flow_def)
  have "flow_ok waiting_flow" by (simp add: flow_ok_def waiting_flow_def)
  from login_ends_once [OF tr this] have "lifecycle ?f = Active \<or> wiped ?f" by blast
  then have "wiped ?f" by (simp only: fin flow_state.distinct simp_thms)
  show ?thesis
    using tr unfolding append_Nil
    by (intro exI [of _ ?t] exI [of _ ?f] conjI) (rule fin \<open>wiped ?f\<close> | assumption)+
qed

end
