(* ===== verification/Traffic.thy ===== *)
theory Traffic
  imports Driver
begin

text \<open>
  How many requests one step of a login may make, whatever the server answers: a bound over the
  definitions of \<open>Standard\<close>, \<open>Token\<close>, \<open>Fetch\<close>, \<open>Form\<close>, \<open>Client\<close> and \<open>Driver\<close> together.
\<close>

text \<open>
  \<open>T\<close> counts what was sent in an outside world: sending adds at most one, and the clocks nothing.
\<close>

definition counts_requests :: "'w deps \<Rightarrow> ('w \<Rightarrow> nat) \<Rightarrow> bool" where
  "counts_requests D T \<longleftrightarrow>
     (\<forall>r w. T (snd (http_send D r w)) \<le> T w + 1) \<and> (\<forall>w. T (snd (instant_now D w)) \<le> T w) \<and>
     (\<forall>w. T (snd (system_now D w)) \<le> T w)"

text \<open>A computation that sends at most \<open>n\<close> requests, on a state whose world \<open>v\<close> reads.\<close>

definition sends_at_most :: "('s \<Rightarrow> nat) \<Rightarrow> nat \<Rightarrow> ('s, 'e, 'a) io \<Rightarrow> bool" where
  "sends_at_most v n m \<longleftrightarrow> (\<forall>s. v (snd (m s)) \<le> v s + n)"

lemma sendsD: "sends_at_most v n m \<Longrightarrow> m s = (r, t) \<Longrightarrow> v t \<le> v s + n"
  by (metis sends_at_most_def snd_conv)

lemma sendsI: "(\<And>s r t. m s = (r, t) \<Longrightarrow> v t \<le> v s + n) \<Longrightarrow> sends_at_most v n m"
  by (metis prod.collapse sends_at_most_def)

lemma sends_pure [inv_intros]:
  "sends_at_most v 0 (lift r)" "sends_at_most v 0 (ret x)" "sends_at_most v 0 (throw e)"
  by (simp_all add: sends_at_most_def)

lemma sends_try_io:
  assumes "sends_at_most v n m" "\<And>x. sends_at_most v k (f x)"
  shows "sends_at_most v (n + k) (try_io m f)"
  unfolding sends_at_most_def
proof
  fix s
  obtain r t where rt: "try_io m f s = (r, t)" by (cases "try_io m f s")
  then show "v (snd (try_io m f s)) \<le> v s + (n + k)"
  proof (cases rule: try_io_cases)
    case (error e)
    from sendsD [OF assms(1) error(1)] rt show ?thesis by simp
  next
    case (go x s')
    from sendsD [OF assms(1) go(1)] sendsD [OF assms(2) go(2)] rt show ?thesis by simp
  qed
qed

lemma sends_prod [inv_intros]:
  "(\<And>x y. sends_at_most v n (g x y)) \<Longrightarrow> sends_at_most v n (case z of (x, y) \<Rightarrow> g x y)"
  by (simp split: prod.split)

lemma sends_mono: "sends_at_most v n m \<Longrightarrow> n \<le> k \<Longrightarrow> sends_at_most v k m"
  by (force simp: sends_at_most_def intro: order_trans)

lemma sends_lifted:
  "sends_at_most T n m \<Longrightarrow> sends_at_most (\<lambda>s. T (snd s)) n (in_world m)"
  "sends_at_most (\<lambda>s. T (snd s)) n m' \<Longrightarrow> sends_at_most (\<lambda>s. T (snd (snd s))) n (on_flow m')"
  "sends_at_most (\<lambda>s. T (snd s)) n m'' \<Longrightarrow> sends_at_most (\<lambda>s. T (snd (snd s))) n (on_jar m'')"
  by (intro sendsI, clarsimp simp: in_world_def on_flow_def on_jar_def split: prod.splits,
      drule (1) sendsD, simp)+

lemma clock_sends:
  assumes "counts_requests D T"
  shows "instant_now D w = (x, w') \<Longrightarrow> T w' \<le> T w" "system_now D w = (y, w'') \<Longrightarrow> T w'' \<le> T w"
  using assms unfolding counts_requests_def by (metis snd_conv)+

lemma send_sends: "counts_requests D T \<Longrightarrow> sends_at_most T 1 (http_send D r)"
  by (simp add: counts_requests_def sends_at_most_def)

subsection \<open>The client's requests\<close>

lemma acquire_sends: "counts_requests D T \<Longrightarrow> sends_at_most T 1 (acquire D u fs required)"
  unfolding acquire_def
  by (rule sends_mono [OF sends_try_io [OF sends_pure(1) sends_try_io [OF send_sends sends_pure(1)]]])
    simp_all

lemma fetch_jwks_sends: "counts_requests D T \<Longrightarrow> sends_at_most T 1 (fetch_jwks D u)"
  unfolding fetch_jwks_def
  by (rule sends_mono [OF sends_try_io [OF send_sends sends_pure(1)]]) simp_all

lemma verify_id_token_sends:
  assumes "counts_requests D T"
  shows "sends_at_most T 0 (verify_id_token D token jwks issuer client nonce)"
proof -
  have "sends_at_most T 0 (attempt (system_now D) e)" for e :: error
    using clock_sends(2) [OF assms] by (auto simp: sends_at_most_def attempt_def)
      (metis prod.collapse)
  then have "sends_at_most T (0 + 0) (try_io (attempt (system_now D) (TokenValidation ''clock before epoch''))
      (\<lambda>now. lift (timely claims nonce now)))" for claims
    by (rule sends_try_io) (rule sends_pure)
  then have "sends_at_most T 0 (validate_claims D claims issuer client nonce)" for claims
    by (auto simp: validate_claims_def intro: sends_pure)
  then have "sends_at_most T (0 + (0 + 0)) (verify_id_token D token jwks issuer client nonce)"
    unfolding verify_id_token_def by (intro sends_try_io sends_pure)
  then show ?thesis by simp
qed

lemma verify_tokens_sends:
  assumes "counts_requests D T"
  shows "sends_at_most (\<lambda>s. T (snd s)) 1 (verify_tokens D a t nonce)"
proof -
  have r: "sends_at_most (\<lambda>s. T (snd s)) 0 (\<lambda>(k, w). (read_jwks k, (k, w)))"
    by (simp add: sends_at_most_def split: prod.split)
  have wr: "sends_at_most (\<lambda>s. T (snd s)) 0 (write_jwks fetched)" for fetched
    by (simp add: sends_at_most_def write_jwks_def split: prod.split jwks_lock.split)
  have "sends_at_most (\<lambda>s. T (snd s)) (1 + 0)
      (try_io (in_world (fetch_jwks D (jwks_uri (app_metadata a)))) write_jwks)"
    by (intro sends_try_io sends_lifted(1) fetch_jwks_sends assms wr)
  then have f: "sends_at_most (\<lambda>s. T (snd s)) 1 (if b then ret ()
      else try_io (in_world (fetch_jwks D (jwks_uri (app_metadata a)))) write_jwks)" for b
    by (auto intro: sends_mono [OF sends_pure(2)])
  have "sends_at_most (\<lambda>s. T (snd s)) (0 + (0 + (0 + (1 + (0 + 0))))) (verify_tokens D a t nonce)"
    unfolding verify_tokens_def
    by (intro sends_try_io sends_pure sends_prod r f
        sends_lifted(1) verify_id_token_sends assms)
  then show ?thesis by simp
qed

lemma redeem_code_sends:
  assumes "counts_requests D T"
  shows "sends_at_most (\<lambda>s. T (snd s)) 2 (redeem_code D a c verifier nonce)"
proof -
  have "sends_at_most (\<lambda>s. T (snd s)) (1 + (1 + 0)) (redeem_code D a c verifier nonce)"
    unfolding redeem_code_def
    by (intro sends_try_io sends_lifted(1) acquire_sends verify_tokens_sends sends_pure assms)
  then show ?thesis by (simp add: numeral_2_eq_2)
qed

subsection \<open>The login's requests\<close>

lemma expire_sends:
  assumes "counts_requests D T"
  shows "T (snd (expire_if_due D (f, w))) \<le> T w"
  using clock_sends(1) [OF assms] by (auto simp: expire_if_due_def split: prod.split)

lemma lifecycle_sends:
  assumes "counts_requests D T"
  shows "sends_at_most (\<lambda>s. T (snd s)) 0 (ensure_active D)"
    "sends_at_most (\<lambda>s. T (snd s)) 0 (finish D)"
    "T (snd (snd (fail_login D s))) \<le> T (snd (snd s))"
proof -
  show e: "sends_at_most (\<lambda>s. T (snd s)) 0 (ensure_active D)"
    using expire_sends [OF assms] by (auto simp: sends_at_most_def ensure_active_def Let_def)
  have "sends_at_most (\<lambda>s. T (snd s)) 0
      (modify_state (\<lambda>(f, w). (end_flow Finished_State f, w)) :: (auth_flow \<times> _, unit) act)"
    by (simp add: sends_at_most_def split: prod.split)
  with e have "sends_at_most (\<lambda>s. T (snd s)) (0 + 0) (finish D)"
    unfolding finish_def by (rule sends_try_io)
  then show "sends_at_most (\<lambda>s. T (snd s)) 0 (finish D)" by simp
  obtain f k w where "s = (f, k, w)" by (cases s)
  then show "T (snd (snd (fail_login D s))) \<le> T (snd (snd s))"
    using expire_sends [OF assms, of f w]
    by (auto simp: fail_login_def fail_def split: prod.splits)
qed

lemma unix_now_sends:
  assumes "counts_requests D T"
  shows "unix_now D w = (t, w') \<Longrightarrow> T w' \<le> T w"
  using clock_sends(2) [OF assms] by (auto simp: unix_now_def split: prod.splits)

lemma fetch_sends:
  assumes "counts_requests D T"
  shows "sends_at_most (\<lambda>s. T (snd s)) 1 (fetch_send D r)"
proof (rule sendsI)
  fix s res t
  assume run: "fetch_send D r s = (res, t)"
  obtain jar w where s: "s = (jar, w)" by (cases s)
  obtain now w1 where u: "unix_now D w = (now, w1)" by (cases "unix_now D w")
  obtain res2 w2 where h: "http_send D (r\<lparr>req_cookies := lines_at jar (req_url r) now\<rparr>) w1 =
      (res2, w2)" by (rule prod.exhaust)
  obtain now' w3 where u': "unix_now D w2 = (now', w3)" by (cases "unix_now D w2")
  from unix_now_sends [OF assms u] sendsD [OF send_sends [OF assms] h] unix_now_sends [OF assms u']
  show "T (snd t) \<le> T (snd s) + 1"
    using run s u h u' by (auto simp: fetch_send_def split: if_splits sum.splits)
qed

lemma submit_sends:
  assumes "counts_requests D T"
  shows "sends_at_most (\<lambda>s. T (snd s)) 1 (submit D f answers)"
proof -
  have "sends_at_most (\<lambda>s. T (snd s)) (0 + (0 + 1)) (submit D f answers)"
    unfolding submit_def post_form_def by (intro sends_try_io sends_pure fetch_sends assms)
  then show ?thesis by simp
qed

lemma in_any_case_sends:
  assumes "sends_at_most v n m" "\<And>s. v (close s) \<le> v s"
  shows "sends_at_most v n (in_any_case close m)"
  using assms by (auto simp: in_any_case_def sends_at_most_def split: prod.split)
    (metis le_trans snd_conv)

lemma exchange_code_sends:
  assumes "counts_requests D T"
  shows "sends_at_most (\<lambda>s. T (snd (snd s))) 2 (exchange_code D a c)"
proof -
  have r: "sends_at_most (\<lambda>s. T (snd (snd s))) 2
      (\<lambda>(f, s). in_world (redeem_code D a c (pkce_verifier f) (flow_nonce f)) (f, s))"
    by (intro sendsI, clarsimp simp: in_world_def split: prod.splits,
        drule sendsD [OF redeem_code_sends [OF assms]], simp)
  have "sends_at_most (\<lambda>s. T (snd (snd s))) (0 + (2 + (0 + 0)))
      (try_io (on_flow (ensure_active D)) (\<lambda>_.
        try_io (\<lambda>(f, s). in_world (redeem_code D a c (pkce_verifier f) (flow_nonce f)) (f, s)) (\<lambda>t.
        try_io (on_flow (finish D)) (\<lambda>_. ret t))))"
    by (intro sends_try_io sends_lifted(2) lifecycle_sends assms r sends_pure)
  then show ?thesis
    unfolding exchange_code_def by (intro in_any_case_sends lifecycle_sends(3) assms)
      (simp add: numeral_2_eq_2)
qed

lemma on_flow_sends:
  "counts_requests D T \<Longrightarrow> sends_at_most (\<lambda>s. T (snd (snd s))) 0 (on_flow (ensure_active D))"
  by (intro sends_lifted lifecycle_sends)

text \<open>Only a redirect that completes the login sends anything, and then two requests at most.\<close>

lemma complete_sends:
  assumes "counts_requests D T" "complete_at_callback D a red s = (r, t)"
  shows "T (snd (snd t)) \<le> T (snd (snd s)) + (if r = Inr None then 0 else 2)"
proof -
  from assms(2) obtain r1 s1 where e: "on_flow (ensure_active D) s = (r1, s1)"
    by (cases "on_flow (ensure_active D) s")
  note b1 = sendsD [OF on_flow_sends [OF assms(1)] e]
  have "sends_at_most (\<lambda>s. T (snd s)) 0 (login_callback D red u)" for u
  proof -
    have "sends_at_most (\<lambda>s. T (snd s)) (0 + 0) (try_io (ensure_active D) (\<lambda>_ s.
        (try_res (callback_result (oauth_state (fst s)) (url_pairs (location red)))
           (\<lambda>code. Inr (Some code)), s)))"
      by (intro sends_try_io lifecycle_sends assms) (simp add: sends_at_most_def)
    then show ?thesis by (auto simp: login_callback_def intro: sends_pure)
  qed
  then have cb: "sends_at_most (\<lambda>s. T (snd (snd s))) 0 (on_flow (login_callback D red u))" for u
    by (rule sends_lifted)
  show ?thesis
  proof (cases r1)
    case (Inl e1)
    with assms(2) e b1 show ?thesis by (simp add: complete_at_callback_def try_io_def)
  next
    case (Inr u1)
    obtain r2 s2 where c: "on_flow (login_callback D red (redirect_uri (app_config a))) s1 = (r2, s2)"
      by (cases "on_flow (login_callback D red (redirect_uri (app_config a))) s1")
    note b2 = sendsD [OF cb c]
    consider (err) e2 where "r2 = Inl e2" | (none) "r2 = Inr None" | (code) c2 where "r2 = Inr (Some c2)"
      by (metis not_None_eq sum.exhaust)
    then show ?thesis
    proof cases
      case err
      with assms(2) e c Inr b1 b2 lifecycle_sends(3) [OF assms(1), of s2] show ?thesis
        by (auto simp: complete_at_callback_def try_io_def)
    next
      case none
      with assms(2) e c Inr b1 b2 show ?thesis by (auto simp: complete_at_callback_def try_io_def)
    next
      case code
      have "sends_at_most (\<lambda>s. T (snd (snd s))) (2 + 0)
          (try_io (exchange_code D a c2) (\<lambda>t. ret (Some (Complete t))))"
        by (intro sends_try_io exchange_code_sends assms sends_pure)
      moreover have x: "try_io (exchange_code D a c2) (\<lambda>t. ret (Some (Complete t))) s2 = (r, t)"
        using assms(2) e c Inr code by (simp add: complete_at_callback_def try_io_def)
      moreover have "r \<noteq> Inr None"
        using x by (cases r) (auto simp: try_io_eq_Inr)
      ultimately show ?thesis using b1 b2 by (auto dest: sendsD)
    qed
  qed
qed

lemma present_sends:
  assumes "counts_requests D T"
  shows "sends_at_most (\<lambda>s. T (snd (snd s))) 0 (present D factors p)"
proof (rule sendsI)
  fix s r t
  assume run: "present D factors p s = (r, t)"
  obtain f k w where s: "s = (f, k, w)" by (cases s)
  have "t = fail_login D s \<or> snd t = snd s"
    using run s
    by (auto simp: present_def try_io_def split: sum.splits option.splits list.splits)
  with lifecycle_sends(3) [OF assms, of s] show "T (snd (snd t)) \<le> T (snd (snd s)) + 0" by auto
qed

lemma resolve_sends_step:
  assumes "counts_requests D T"
    and rec: "\<And>n next_answer. hops = Suc n \<Longrightarrow>
      sends_at_most (\<lambda>s. T (snd (snd s))) (n + 2) (resolve D a factors n False next_answer)"
  shows "sends_at_most (\<lambda>s. T (snd (snd s))) (hops + 2) (resolve D a factors hops posted answer)"
proof -
  let ?v = "\<lambda>s :: _ login_state. T (snd (snd s))"
  let ?follow = "\<lambda>red. if \<not> red_same_origin red then throw (Protocol ''unexpected redirect'')
    else (case hops of 0 \<Rightarrow> throw (Protocol ''too many redirects'')
      | Suc n \<Rightarrow> try_io (on_jar (fetch_get D (location red))) (\<lambda>next_answer.
          resolve D a factors n False next_answer))"
  have fetch: "sends_at_most ?v 1 (on_jar (fetch_get D u))" for u
    unfolding fetch_get_def by (intro sends_lifted(3) fetch_sends assms)
  have follow: "sends_at_most ?v (hops + 2) (?follow red)" for red :: redirect
  proof (cases hops)
    case 0
    then show ?thesis by (auto intro: sends_mono [OF sends_pure(3)])
  next
    case (Suc n)
    have "sends_at_most ?v (1 + (n + 2)) (try_io (on_jar (fetch_get D (location red)))
        (\<lambda>next_answer. resolve D a factors n False next_answer))"
      by (intro sends_try_io fetch rec Suc)
    with Suc show ?thesis by (auto intro: sends_mono [OF sends_pure(3)])
  qed
  have redirected: "sends_at_most ?v (hops + 2) (try_io (complete_at_callback D a red)
      (\<lambda>complete. case complete of Some step \<Rightarrow> ret step | None \<Rightarrow> ?follow red))" for red :: redirect
  proof (rule sendsI)
    fix s r t
    assume run: "try_io (complete_at_callback D a red)
      (\<lambda>complete. case complete of Some step \<Rightarrow> ret step | None \<Rightarrow> ?follow red) s = (r, t)"
    obtain r1 s1 where c: "complete_at_callback D a red s = (r1, s1)"
      by (cases "complete_at_callback D a red s")
    note b = complete_sends [OF assms(1) c]
    consider (stops) "r1 \<noteq> Inr None" "t = s1" | (goes) "r1 = Inr None" "?follow red s1 = (r, t)"
      using run c by (cases r1) (auto simp: try_io_def split: option.splits)
    then show "?v t \<le> ?v s + (hops + 2)"
    proof cases
      case goes
      with b sendsD [OF follow goes(2)] show ?thesis by simp
    qed (use b in simp)
  qed
  have body: "sends_at_most ?v (hops + 2) (case answer of
      Page p \<Rightarrow> if page_status p \<noteq> 200 then throw (HttpStatus (page_status p)) else present D factors p
    | Redirect red \<Rightarrow> if posted \<and> repeats_request (red_kind red)
        then throw (Protocol ''unexpected redirect'')
        else try_io (complete_at_callback D a red)
          (\<lambda>complete. case complete of Some step \<Rightarrow> ret step | None \<Rightarrow> ?follow red))"
  proof (cases answer)
    case (Page p)
    then show ?thesis
      by (auto intro: sends_mono [OF sends_pure(3)] sends_mono [OF present_sends [OF assms(1)]])
  next
    case (Redirect red)
    show ?thesis
    proof (cases "posted \<and> repeats_request (red_kind red)")
      case True
      with Redirect show ?thesis by (auto intro: sends_mono [OF sends_pure(3)])
    next
      case False
      show ?thesis unfolding Redirect fetched.case if_not_P [OF False] by (rule redirected)
    qed
  qed
  have "sends_at_most ?v (0 + (hops + 2)) (resolve D a factors hops posted answer)"
    by (subst resolve.simps) (rule sends_try_io [OF on_flow_sends [OF assms(1)] body])
  then show ?thesis by simp
qed

lemma resolve_sends:
  "counts_requests D T \<Longrightarrow>
   sends_at_most (\<lambda>s. T (snd (snd s))) (hops + 2) (resolve D a factors hops posted answer)"
proof (induction hops arbitrary: posted answer)
  case 0
  show ?case by (rule resolve_sends_step [OF 0]) simp
next
  case (Suc hops)
  show ?case by (rule resolve_sends_step [OF Suc.prems]) (use Suc in auto)
qed

lemma unless_ok_sends:
  assumes "sends_at_most v n m" "\<And>s. v (close s) \<le> v s"
  shows "sends_at_most v n (unless_ok close m)"
proof (rule sendsI)
  fix s r t
  assume "unless_ok close m s = (r, t)"
  then obtain t1 where "m s = (r, t1)" "t = t1 \<or> t = close t1"
    by (auto simp: unless_ok_def split: prod.splits)
  with sendsD [OF assms(1) this(1)] assms(2) [of t1] show "v t \<le> v s + n" by auto
qed

lemma post_page_sends:
  assumes "counts_requests D T"
  shows "sends_at_most (\<lambda>s. T (snd s)) 1 (post_page D factors p)"
proof -
  have "sends_at_most (\<lambda>s. T (snd s)) (0 + (0 + 1)) (post_page D factors p)"
    unfolding post_page_def by (intro sends_try_io sends_pure submit_sends assms)
  then show ?thesis by simp
qed

lemma get_state_sends: "sends_at_most v 0 (get_state g)"
  by (simp add: sends_at_most_def)

lemma answer_page_sends:
  assumes "counts_requests D T"
  shows "sends_at_most (\<lambda>s. T (snd (snd s))) 8 (answer_page D a factors ans)"
proof -
  let ?v = "\<lambda>s :: _ login_state. T (snd (snd s))"
  have take: "sends_at_most ?v 0 take_pending"
    by (simp add: sends_at_most_def take_pending_def split: prod.split)
  have "sends_at_most ?v (1 + (MAX_REDIRECTS + 2))
      (try_io (on_jar (post_page D factors p)) (resolve D a factors MAX_REDIRECTS True))" for p
    by (intro sends_try_io sends_lifted(3) post_page_sends resolve_sends assms)
  then have post: "sends_at_most ?v 8
      (try_io (on_jar (post_page D factors p)) (resolve D a factors MAX_REDIRECTS True))" for p
    by (simp add: MAX_REDIRECTS_def)
  have next_page: "sends_at_most ?v 8 (\<lambda>(f, s). (Inr (Challenge c), (g f, s)))" for c g
    by (simp add: sends_at_most_def split: prod.split)
  have checked: "sends_at_most ?v 8 (let p1 = p\<lparr>pend_answers := pend_answers p @ [ans]\<rparr> in
         (case pend_queue p1 of
            next_challenge # rest \<Rightarrow>
              (\<lambda>(f, s). (Inr (Challenge next_challenge),
                 (f\<lparr>pending := Some (p1\<lparr>pend_expect := expect_of next_challenge,
                                        pend_queue := rest\<rparr>)\<rparr>, s)))
          | [] \<Rightarrow>
              try_io (on_jar (post_page D factors p1)) (resolve D a factors MAX_REDIRECTS True)))" for p
    by (cases "pend_queue p") (simp_all add: Let_def post next_page)
  have owned: "sends_at_most ?v 8 (if b then throw e else try_io (lift r) (\<lambda>_. m))"
    if "sends_at_most ?v 8 m" for b e r m
    using sends_try_io [OF sends_pure(1) that] by (auto intro: sends_mono [OF sends_pure(3)])
  have "sends_at_most ?v (0 + (0 + (0 + 8))) (answer_page D a factors ans)"
    unfolding answer_page_def
    by (intro sends_try_io on_flow_sends assms take get_state_sends owned checked)
  then show ?thesis by simp
qed

lemma first_page_sends:
  assumes "counts_requests D T"
  shows "sends_at_most (\<lambda>s. T (snd (snd s))) 8 (first_page D a factors st)"
proof -
  let ?v = "\<lambda>s :: _ login_state. T (snd (snd s))"
  have "sends_at_most (\<lambda>s. T (snd s)) (0 + 0) (app_authorization_url D a st)"
    unfolding app_authorization_url_def
    by (intro sends_try_io lifecycle_sends assms) (simp add: sends_at_most_def)
  then have u: "sends_at_most ?v 0 (on_flow (app_authorization_url D a st))"
    by (intro sends_lifted(2)) simp
  have "sends_at_most ?v (0 + (0 + (1 + (MAX_REDIRECTS + 2)))) (first_page D a factors st)"
    unfolding first_page_def fetch_get_def
    by (intro sends_try_io u sends_lifted(3) fetch_sends resolve_sends assms)
      (simp add: sends_at_most_def split: prod.split)
  then show ?thesis by (simp add: MAX_REDIRECTS_def)
qed

text \<open>
  C16. A step's requests are bounded: whatever Keycloak answers, beginning a login or answering a
  challenge makes at most eight requests, the page or the post, five redirects, the token grant
  and at most one fetch of the signing keys; a server cannot keep a login busy with redirects.
\<close>

theorem step_requests_bounded:
  assumes "counts_requests D T"
  shows "T (snd (snd (snd (advance D a factors ans s)))) \<le> T (snd (snd s)) + 8 \<and>
    T (snd (snd (snd (begin_login D a factors st s)))) \<le> T (snd (snd s)) + 8"
proof -
  have "sends_at_most (\<lambda>s. T (snd (snd s))) 8 (advance D a factors ans)"
    "sends_at_most (\<lambda>s. T (snd (snd s))) 8 (begin_login D a factors st)"
    unfolding advance_def begin_login_def
    by (intro unless_ok_sends answer_page_sends first_page_sends lifecycle_sends(3) assms)+
  then show ?thesis unfolding sends_at_most_def by blast
qed

text \<open>An outside world that is the number of requests made, with a server that redirects forever.\<close>

definition looping_deps :: "nat deps" where
  "looping_deps = \<lparr>url_parse = (\<lambda>_. None), url_join = (\<lambda>_ _. Some example_url),
     url_append_pairs = (\<lambda>u _. u), url_push_segments = (\<lambda>_ _. None), form_encode = (\<lambda>_. []),
     origin_text = (\<lambda>_. []), parse_number = (\<lambda>_. None), parse_value = (\<lambda>_. None),
     parse_metadata = (\<lambda>_. None), parse_members = (\<lambda>_. None), b64_encode = (\<lambda>s. s),
     b64_decode = Some, tokenize = (\<lambda>_. []), wolf_init = True, wolf_sha256 = Some,
     wolf_rng_new = (\<lambda>w. (True, w)), wolf_random = (\<lambda>n w. (None, w)), rsa_key_ok = (\<lambda>_ _ _. False),
     rsa_signature_ok = (\<lambda>_ _. False), rsa_verify = (\<lambda>_ _ _ _ _. False),
     p256_signature_ok = (\<lambda>_. False), p256_verify = (\<lambda>_ _ _. False),
     http_send = (\<lambda>_ w. (Inr \<lparr>resp_status = 302, resp_headers = [(''Location'', ''x'')],
       resp_body = [], resp_cookies = []\<rparr>, w + 1)), instant_now = (\<lambda>w. (0, w)),
     system_now = (\<lambda>w. (None, w))\<rparr>"

theorem step_requests_bounded_witness:
  "counts_requests looping_deps id \<and>
   snd (snd (snd (advance looping_deps example_app Builtin (Password ''p'')
     (waiting_flow, Keys signing_jwks, 0)))) \<le> 8"
proof -
  have c: "counts_requests looping_deps id"
    by (simp add: counts_requests_def looping_deps_def)
  from step_requests_bounded [OF c, of example_app Builtin "Password ''p''"
      "(waiting_flow, Keys signing_jwks, 0)"] c show ?thesis by simp
qed

end
