(* ===== verification/Network.thy ===== *)
theory Network
  imports Traffic
begin

text \<open>
  \<open>CurlTransport::send\<close> of \<open>src/transport.rs\<close> as the one call the rest of the program makes, from its
  deadline to the response: \<open>over_curl\<close> is the library operations with this call as \<open>http_send\<close>.
  It is proved to be a run of the pool of \<open>Transport\<close>, and what its transfers guarantee is carried
  to fetched pages and whole logins.

  The Tokio runtime is outside: \<open>'w runtime\<close> says whether there is one with a time driver, how the
  wait for a slot ends, how the wait for the worker ends, and what dropping a permit does. A transfer whose caller gave up goes on
  in the source until libcurl returns; the model takes its effect on the outside world there and
  then, and drops its result as the source does.
\<close>

subsection \<open>One call of send\<close>

datatype slot_wait = Slot_Granted | Slot_Late | Slot_Closed

datatype worker_wait = Worker_Joined | Late_In_Queue | Late_In_Transfer | Worker_Failed

record 'w runtime =
  rt_handle :: bool
  rt_timer :: bool
  rt_slot :: "nat \<Rightarrow> 'w \<Rightarrow> slot_wait \<times> 'w"
  rt_worker :: "nat \<Rightarrow> 'w \<Rightarrow> worker_wait \<times> 'w"
  rt_release :: "'w \<Rightarrow> 'w"     \<comment> \<open>a permit is dropped\<close>

text \<open>The deadline: the clock is read only when the runtime is there.\<close>

definition begin_send :: "'w deps \<Rightarrow> 'w runtime \<Rightarrow> curl_transport \<Rightarrow> ('w, nat) act" where
  "begin_send D R T =
     (if rt_handle R \<and> rt_timer R
      then try_io (observe (instant_now D)) (\<lambda>now. lift (send_deadline True True T now))
      else lift (send_deadline (rt_handle R) (rt_timer R) T 0))"

definition acquire_slot :: "'w runtime \<Rightarrow> nat \<Rightarrow> ('w, unit) act" where
  "acquire_slot R limit =
     (\<lambda>w. case rt_slot R limit w of
        (Slot_Granted, w') \<Rightarrow> (Inr (), w')
      | (Slot_Late, w') \<Rightarrow> (Inl (Transport ''HTTP request timed out''), w')
      | (Slot_Closed, w') \<Rightarrow> (Inl (Transport ''HTTP capacity unavailable''), w'))"

text \<open>The blocking closure, holding its permit and request; the permit is dropped when it ends.\<close>

definition run_worker ::
  "'w deps \<Rightarrow> 'w runtime \<Rightarrow> 'w curl \<Rightarrow> curl_transport \<Rightarrow> request \<Rightarrow> nat \<Rightarrow> ('w, response) act" where
  "run_worker D R C T request limit =
     in_any_case (rt_release R)
       (try_io (observe (instant_now D)) (\<lambda>now.
         (case curl_timeout (limit - now) of
            None \<Rightarrow> lift timed_out
          | Some remaining \<Rightarrow> send_blocking C request (ct_ca_bundle T) remaining)))"

text \<open>A call; when the closure never runs, its permit is dropped with the abandoned job.\<close>

definition curl_send ::
  "'w deps \<Rightarrow> 'w runtime \<Rightarrow> 'w curl \<Rightarrow> curl_transport \<Rightarrow> request \<Rightarrow> ('w, response) act" where
  "curl_send D R C T request =
     try_io (begin_send D R T) (\<lambda>limit.
     try_io (acquire_slot R limit) (\<lambda>_ w.
       (case rt_worker R limit w of
          (Worker_Joined, w') \<Rightarrow> run_worker D R C T request limit w'
        | (Late_In_Queue, w') \<Rightarrow> (timed_out, rt_release R w')
        | (Late_In_Transfer, w') \<Rightarrow> (timed_out, snd (run_worker D R C T request limit w'))
        | (Worker_Failed, w') \<Rightarrow> (Inl (Transport ''HTTP worker failed''), rt_release R w'))))"

definition over_curl :: "'w deps \<Rightarrow> 'w runtime \<Rightarrow> 'w curl \<Rightarrow> curl_transport \<Rightarrow> 'w deps" where
  "over_curl D R C T = D\<lparr>http_send := curl_send D R C T\<rparr>"

lemma over_curl_simps [simp]:
  "http_send (over_curl D R C T) = curl_send D R C T"
  "instant_now (over_curl D R C T) = instant_now D"
  "system_now (over_curl D R C T) = system_now D"
  by (simp_all add: over_curl_def)

lemma run_worker_cases:
  obtains (late) "run_worker D R C T request limit w = (timed_out, rt_release R (snd (instant_now D w)))"
      "curl_timeout (limit - fst (instant_now D w)) = None"
  | (sent) remaining r1 w1 where
      "curl_timeout (limit - fst (instant_now D w)) = Some remaining" "1000000 \<le> remaining"
      "send_blocking C request (ct_ca_bundle T) remaining (snd (instant_now D w)) = (r1, w1)"
      "run_worker D R C T request limit w = (r1, rt_release R w1)"
proof (cases "curl_timeout (limit - fst (instant_now D w))")
  case None
  then show thesis by (intro late) (simp_all add: run_worker_def try_io_def in_any_case_def)
next
  case (Some remaining)
  obtain r1 w1 where
    "send_blocking C request (ct_ca_bundle T) remaining (snd (instant_now D w)) = (r1, w1)"
    by (cases "send_blocking C request (ct_ca_bundle T) remaining (snd (instant_now D w))")
  with Some curl_timeout_finite [OF Some] show thesis
    by (intro sent) (simp_all add: run_worker_def try_io_def in_any_case_def)
qed

text \<open>The errors of a call that never came to a transfer of its own.\<close>

definition send_refusals :: "error list" where
  "send_refusals = [Transport ''Tokio runtime required'', Transport ''Tokio time driver required'',
     InvalidConfiguration ''timeout too large'', Transport ''HTTP capacity unavailable'',
     Transport ''HTTP worker failed'']"

lemma send_deadline_errors:
  "send_deadline h t T now = Inl e \<Longrightarrow> e \<in> set send_refusals"
  by (auto simp: send_deadline_def send_refusals_def split: if_splits)

text \<open>Before the wait for a slot, only the clock was read.\<close>

lemma begin_send_cases:
  assumes "begin_send D R T w = (r, w')"
  shows "(w' = w \<or> w' = snd (instant_now D w)) \<and> (\<forall>e. r = Inl e \<longrightarrow> e \<in> set send_refusals)"
  using assms send_deadline_errors
  by (auto simp: begin_send_def try_io_def split: if_splits)

text \<open>How a call can go: where it was refused, or from which world its job went on.\<close>

lemma curl_send_cases:
  assumes "curl_send D R C T request w = (r, w')"
  obtains (refused) e where "r = Inl e" "e \<in> set send_refusals" "w' = w \<or> w' = snd (instant_now D w)"
  | (closed) e limit w1 where "r = Inl e" "e \<in> set send_refusals" "w1 = w \<or> w1 = snd (instant_now D w)"
      "rt_slot R limit w1 = (Slot_Closed, w')"
  | (late) limit w1 where "r = timed_out" "w1 = w \<or> w1 = snd (instant_now D w)"
      "rt_slot R limit w1 = (Slot_Late, w')"
  | (granted) limit w1 w2 ww w3 where "w1 = w \<or> w1 = snd (instant_now D w)"
      "rt_slot R limit w1 = (Slot_Granted, w2)" "rt_worker R limit w2 = (ww, w3)"
      "(r, w') = (case ww of
          Worker_Joined \<Rightarrow> run_worker D R C T request limit w3
        | Late_In_Queue \<Rightarrow> (timed_out, rt_release R w3)
        | Late_In_Transfer \<Rightarrow> (timed_out, snd (run_worker D R C T request limit w3))
        | Worker_Failed \<Rightarrow> (Inl (Transport ''HTTP worker failed''), rt_release R w3))"
proof (cases "begin_send D R T w")
  case b: (Pair br w1)
  note begun = begin_send_cases [OF b]
  show thesis
  proof (cases br)
    case (Inl e)
    with assms b begun refused show thesis by (auto simp: curl_send_def try_io_def)
  next
    case (Inr limit)
    obtain sl w2 where s: "rt_slot R limit w1 = (sl, w2)" by (cases "rt_slot R limit w1")
    obtain ww w3 where ww: "rt_worker R limit w2 = (ww, w3)" by (cases "rt_worker R limit w2")
    show thesis
    proof (cases sl)
      case Slot_Granted
      with assms b Inr s ww have "(r, w') = (case ww of
          Worker_Joined \<Rightarrow> run_worker D R C T request limit w3
        | Late_In_Queue \<Rightarrow> (timed_out, rt_release R w3)
        | Late_In_Transfer \<Rightarrow> (timed_out, snd (run_worker D R C T request limit w3))
        | Worker_Failed \<Rightarrow> (Inl (Transport ''HTTP worker failed''), rt_release R w3))"
        by (simp add: curl_send_def try_io_def acquire_slot_def split: worker_wait.splits)
      with Slot_Granted s ww begun granted show thesis by blast
    next
      case Slot_Late
      with assms b Inr s have "r = timed_out" "w' = w2"
        by (simp_all add: curl_send_def try_io_def acquire_slot_def timed_out_def)
      with Slot_Late s begun late show thesis by blast
    next
      case Slot_Closed
      with assms b Inr s have "r = Inl (Transport ''HTTP capacity unavailable'')" "w' = w2"
        by (simp_all add: curl_send_def try_io_def acquire_slot_def)
      moreover have "Transport ''HTTP capacity unavailable'' \<in> set send_refusals"
        by (simp add: send_refusals_def)
      ultimately show thesis using Slot_Closed s begun closed by blast
    qed
  qed
qed

subsection \<open>A call is a run of the pool\<close>

text \<open>
  What the outside world shows of the calls: \<open>slots\<close> is how many permits the semaphore has left and
  \<open>transferred\<close> the options of every transfer libcurl performed so far. A granted permit is one
  less, a dropped one is one more, and nothing but a transfer adds one.
\<close>

definition watched ::
  "'w deps \<Rightarrow> 'w runtime \<Rightarrow> 'w curl \<Rightarrow> ('w \<Rightarrow> nat) \<Rightarrow> ('w \<Rightarrow> curl_option list list) \<Rightarrow> bool" where
  "watched D R C slots transferred \<longleftrightarrow>
     (\<forall>w. slots (snd (instant_now D w)) = slots w \<and>
        transferred (snd (instant_now D w)) = transferred w) \<and>
     (\<forall>limit w. transferred (snd (rt_slot R limit w)) = transferred w \<and>
        slots w = (if fst (rt_slot R limit w) = Slot_Granted
          then slots (snd (rt_slot R limit w)) + 1 else slots (snd (rt_slot R limit w)))) \<and>
     (\<forall>limit w. slots (snd (rt_worker R limit w)) = slots w \<and>
        transferred (snd (rt_worker R limit w)) = transferred w) \<and>
     (\<forall>w. slots (rt_release R w) = slots w + 1 \<and> transferred (rt_release R w) = transferred w) \<and>
     (\<forall>opts w. slots (snd (curl_perform C opts w)) = slots w \<and>
        transferred (snd (curl_perform C opts w)) = transferred w @ [opts])"

lemma watchedD:
  assumes "watched D R C slots transferred"
  shows "slots (snd (instant_now D w)) = slots w"
    "transferred (snd (instant_now D w)) = transferred w"
    "rt_slot R limit w = (s, w1) \<Longrightarrow> transferred w1 = transferred w \<and>
       slots w = (if s = Slot_Granted then slots w1 + 1 else slots w1)"
    "rt_worker R limit w = (x, w2) \<Longrightarrow> slots w2 = slots w \<and> transferred w2 = transferred w"
    "slots (rt_release R w) = slots w + 1" "transferred (rt_release R w) = transferred w"
    "curl_perform C opts w = (y, w3) \<Longrightarrow> slots w3 = slots w \<and> transferred w3 = transferred w @ [opts]"
  using assms unfolding watched_def by (simp_all, (metis fst_conv snd_conv)+)

text \<open>The transfers libcurl performs for those the pool records: those whose options it takes.\<close>

definition performed ::
  "'w curl \<Rightarrow> curl_transport \<Rightarrow> (nat \<times> request \<times> nat) list \<Rightarrow> curl_option list list" where
  "performed C T ts = concat (map (\<lambda>(i, request, limit).
     (case transfer_options C request (ct_ca_bundle T) limit of Inl e \<Rightarrow> [] | Inr opts \<Rightarrow> [opts])) ts)"

lemma send_blocking_watched:
  assumes "watched D R C slots transferred"
    and "send_blocking C request (ct_ca_bundle T) limit w = (r, w')"
  shows "slots w' = slots w \<and> transferred w' = transferred w @ performed C T [(i, request, limit)]"
proof (cases "transfer_options C request (ct_ca_bundle T) limit")
  case (Inr opts)
  obtain events outcome w1 where p: "curl_perform C opts w = ((events, outcome), w1)"
    by (cases "curl_perform C opts w") auto
  with assms(2) Inr have "w' = w1"
    by (auto simp: send_blocking_def Let_def split: if_splits option.splits sum.splits)
  with watchedD(7) [OF assms(1) p] Inr show ?thesis by (simp add: performed_def)
qed (use assms(2) in \<open>simp add: send_blocking_def performed_def\<close>)

text \<open>The entry a call adds to the pool, and the pool after it returned.\<close>

definition pool_returned ::
  "pool \<Rightarrow> response res \<Rightarrow> (request \<times> nat) option \<Rightarrow> pool \<Rightarrow> bool" where
  "pool_returned p r sent q \<longleftrightarrow>
     slots_free q = slots_free p \<and>
     (\<exists>entry. sends q = sends p @ [entry] \<and> p_caller entry = Returned r) \<and>
     transfers q = transfers p @
       (case sent of None \<Rightarrow> [] | Some (request, limit) \<Rightarrow> [(length (sends p), request, limit)])"

lemmas pool_call_simps = pool_returned_def pending_dropped_def worker_start_def Let_def timed_out_def

lemma pool_unsent:
  "\<exists>q. pool_run [Send request limit, Acquire_Timeout (length (sends p))] p = Some q \<and>
     pool_returned p timed_out None q"
  by (simp add: pool_call_simps)

lemma pool_queued:
  assumes "0 < slots_free p"
  shows "\<exists>q. pool_run [Send request limit, Acquire (length (sends p)),
      Caller_Timeout (length (sends p))] p = Some q \<and> pool_returned p timed_out None q"
  using assms by (simp add: pool_call_simps)

lemma pool_expired:
  assumes "0 < slots_free p" "curl_timeout (limit - now) = None"
  shows "\<exists>q. pool_run [Send request limit, Acquire (length (sends p)),
      Worker_Start (length (sends p)) now, Caller_Join (length (sends p))] p = Some q \<and>
     pool_returned p timed_out None q"
  using assms by (simp add: pool_call_simps)

lemma pool_joined:
  assumes "0 < slots_free p" "curl_timeout (limit - now) = Some remaining"
  shows "\<exists>q. pool_run [Send request limit, Acquire (length (sends p)),
      Worker_Start (length (sends p)) now, Worker_Exit (length (sends p)) r,
      Caller_Join (length (sends p))] p = Some q \<and>
     pool_returned p r (Some (request, remaining)) q"
  using assms by (simp add: pool_call_simps)

lemma pool_given_up:
  assumes "0 < slots_free p" "curl_timeout (limit - now) = Some remaining"
  shows "\<exists>q. pool_run [Send request limit, Acquire (length (sends p)),
      Worker_Start (length (sends p)) now, Caller_Timeout (length (sends p)),
      Worker_Exit (length (sends p)) r] p = Some q \<and>
     pool_returned p timed_out (Some (request, remaining)) q"
  using assms by (simp add: pool_call_simps)

text \<open>
  A call that a run of the pool explains, seen from outside: the run adds one entry, which returns
  the call's result; the permits left outside are the pool's free slots again; and what libcurl
  performed meanwhile is exactly what the pool records, one transfer at most.
\<close>

definition pool_explains ::
  "'w curl \<Rightarrow> curl_transport \<Rightarrow> ('w \<Rightarrow> nat) \<Rightarrow> ('w \<Rightarrow> curl_option list list) \<Rightarrow> request \<Rightarrow>
   pool \<Rightarrow> 'w \<Rightarrow> response res \<Rightarrow> 'w \<Rightarrow> bool" where
  "pool_explains C T slots transferred request p w r w' \<longleftrightarrow>
     (\<exists>events q sent. pool_run events p = Some q \<and> pool_returned p r sent q \<and>
        slots w' = slots_free q \<and>
        transferred w' = transferred w @ performed C T (drop (length (transfers p)) (transfers q)) \<and>
        (case sent of
           None \<Rightarrow> r = timed_out
         | Some (request', limit) \<Rightarrow> request' = request \<and> 0 < limit \<and>
             (\<exists>w1 r1 w2. transferred w1 = transferred w \<and>
                send_blocking C request (ct_ca_bundle T) limit w1 = (r1, w2) \<and>
                (r = r1 \<or> r = timed_out))))"

lemma explains_unsent:
  assumes "\<exists>q. pool_run events p = Some q \<and> pool_returned p timed_out None q"
    and "slots_free p = slots w" "slots w' = slots w" "transferred w' = transferred w"
  shows "pool_explains C T slots transferred request p w timed_out w'"
proof -
  from assms(1) obtain q where q: "pool_run events p = Some q" "pool_returned p timed_out None q"
    by blast
  then have "slots_free q = slots_free p" "transfers q = transfers p" by (simp_all add: pool_returned_def)
  with q assms(2-4) show ?thesis
    by (auto simp: pool_explains_def performed_def intro!: exI [of _ events] exI [of _ q] exI [of _ None])
qed

lemma explains_sent:
  assumes laws: "watched D R C slots transferred"
    and run: "\<exists>q. pool_run events p = Some q \<and> pool_returned p r (Some (request, limit)) q" "0 < limit"
    and sent: "send_blocking C request (ct_ca_bundle T) limit w1 = (r1, w2)" "r = r1 \<or> r = timed_out"
    and before: "slots_free p = slots w1 + 1" "transferred w1 = transferred w"
  shows "pool_explains C T slots transferred request p w r (rt_release R w2)"
proof -
  from run(1) obtain q where q: "pool_run events p = Some q"
    "pool_returned p r (Some (request, limit)) q" by blast
  then have t: "slots_free q = slots_free p" "drop (length (transfers p)) (transfers q) =
      [(length (sends p), request, limit)]" by (simp_all add: pool_returned_def)
  note b = send_blocking_watched [OF laws sent(1), of "length (sends p)"]
  have "slots (rt_release R w2) = slots_free q"
    "transferred (rt_release R w2) = transferred w @
       performed C T (drop (length (transfers p)) (transfers q))"
    using b t before watchedD(5,6) [OF laws] by simp_all
  with q run(2) sent before(2) show ?thesis
    unfolding pool_explains_def
    by (intro exI [of _ events] exI [of _ q] exI [of _ "Some (request, limit)"]) auto
qed

text \<open>
  C21. One call of \<open>send\<close> refines the pool. Seen from outside, through the semaphore's permits and the
  transfers libcurl performs, a call either fails with one of five fixed errors, leaving the permits
  as they were and performing nothing; or it is a run of the pool with one entry, which returns the
  call's own result: afterwards the permits are the pool's free slots, as many as before, so the
  slot came back; libcurl performed exactly the transfer the pool records, with the options of this
  request and its own finite limit, and at most one; and a result other than a timeout is that of
  this one transfer.
\<close>

theorem send_refines_pool:
  assumes "watched D R C slots transferred"
    and "curl_send D R C T request w = (r, w')" and "slots_free p = slots w"
  shows "r \<in> Inl ` set send_refusals \<and> slots w' = slots w \<and> transferred w' = transferred w \<or>
    pool_explains C T slots transferred request p w r w'"
  using assms(2)
proof (cases rule: curl_send_cases)
  case (refused e)
  with watchedD(1,2) [OF assms(1)] show ?thesis by auto
next
  case (closed e limit w1)
  with watchedD(1,2) [OF assms(1)] watchedD(3) [OF assms(1) closed(4)] show ?thesis by auto
next
  case (late limit w1)
  have "slots w' = slots w" "transferred w' = transferred w"
    using late watchedD(1,2) [OF assms(1)] watchedD(3) [OF assms(1) late(3)] by auto
  with explains_unsent [where slots = slots and w = w and
      transferred = transferred, OF pool_unsent assms(3)] late(1) show ?thesis by blast
next
  case (granted limit w1 w2 ww w3)
  have held: "slots w = slots w3 + 1" "transferred w3 = transferred w"
    using granted(1) watchedD(1,2) [OF assms(1)] watchedD(3) [OF assms(1) granted(2)]
      watchedD(4) [OF assms(1) granted(3)] by auto
  then have free: "0 < slots_free p" using assms(3) by simp
  have returned: "slots (rt_release R w3) = slots w" "transferred (rt_release R w3) = transferred w"
    using held watchedD(5,6) [OF assms(1)] by simp_all
  have worked: "pool_explains C T slots transferred request p w r w'"
    if run: "run_worker D R C T request limit w3 = (r1, w')" and r: "r = r1 \<or> r = timed_out \<and> gave_up"
      and joined: "\<not> gave_up \<Longrightarrow> r = r1" for r1 gave_up
  proof (cases rule: run_worker_cases [of D R C T request limit w3])
    case late
    with run r watchedD(1,2,5,6) [OF assms(1)] held have
      "r = timed_out" "slots w' = slots w" "transferred w' = transferred w" by auto
    with explains_unsent [where slots = slots and w = w and
      transferred = transferred, OF pool_expired [OF free late(2)] assms(3)] show ?thesis by blast
  next
    case (sent remaining r2 w4)
    with run have r2: "r2 = r1" "w' = rt_release R w4" by simp_all
    let ?w = "snd (instant_now D w3)"
    have before: "slots_free p = slots ?w + 1" "transferred ?w = transferred w"
      using held assms(3) watchedD(1,2) [OF assms(1)] by simp_all
    have limit: "0 < remaining" using sent(2) by simp
    show ?thesis
    proof (cases "r = r1")
      case True
      with explains_sent [where slots = slots and w = w and
      transferred = transferred, OF assms(1) pool_joined [OF free sent(1)] limit sent(3) _ before] r2
      show ?thesis by blast
    next
      case False
      with r have "r = timed_out" by blast
      with explains_sent [where slots = slots and w = w and
      transferred = transferred, OF assms(1) pool_given_up [OF free sent(1)] limit sent(3) _ before] r2
      show ?thesis by blast
    qed
  qed
  show ?thesis
  proof (cases ww)
    case Worker_Joined
    with granted(4) worked [of r False] show ?thesis by simp
  next
    case Late_In_Queue
    with granted(4) explains_unsent [where slots = slots and w = w and
      transferred = transferred, OF pool_queued [OF free] assms(3) returned] show ?thesis by simp
  next
    case Late_In_Transfer
    obtain r1 w4 where "run_worker D R C T request limit w3 = (r1, w4)"
      by (cases "run_worker D R C T request limit w3")
    with Late_In_Transfer granted(4) worked [of r1 True] show ?thesis by simp
  next
    case Worker_Failed
    have "Transport ''HTTP worker failed'' \<in> set send_refusals" by (simp add: send_refusals_def)
    with Worker_Failed granted(4) returned show ?thesis by simp
  qed
qed

text \<open>A world that is a semaphore's permits and what libcurl performed, and a worker that is joined.\<close>

type_synonym seen = "nat \<times> curl_option list list"

definition ready_runtime :: "seen runtime" where
  "ready_runtime = \<lparr>rt_handle = True, rt_timer = True,
     rt_slot = (\<lambda>_ (n, ts). if n = 0 then (Slot_Late, (n, ts)) else (Slot_Granted, (n - 1, ts))),
     rt_worker = (\<lambda>_ w. (Worker_Joined, w)), rt_release = (\<lambda>(n, ts). (n + 1, ts))\<rparr>"

definition ready_curl :: "seen curl" where
  "ready_curl = \<lparr>curl_refuses = (\<lambda>_. None), curl_append_ok = (\<lambda>_. (True, True)),
     curl_install_status = (\<lambda>_. 0), curl_perform = (\<lambda>opts (n, ts). (([], None), (n, ts @ [opts]))),
     curl_response_code = (\<lambda>_. Inr 200), curl_cookies = (\<lambda>_. Inr [])\<rparr>"

definition example_transport :: curl_transport where
  "example_transport = \<lparr>ct_ca_bundle = None, ct_timeout = 15 * 1000000000\<rparr>"

definition empty_page :: response where
  "empty_page = \<lparr>resp_status = 200, resp_headers = [], resp_body = [], resp_cookies = []\<rparr>"

lemma ready_watched: "watched no_deps ready_runtime ready_curl fst snd"
  by (auto simp: watched_def no_deps_def ready_runtime_def ready_curl_def split: prod.splits)

lemma ready_send:
  "\<exists>opts. curl_send no_deps ready_runtime ready_curl example_transport (request_get example_url)
     (32, []) = (Inr empty_page, (32, [opts]))"
proof -
  have clock: "instant_now no_deps w = (0, w)" for w :: seen by (simp add: no_deps_def)
  obtain opts where o: "transfer_options ready_curl (request_get example_url) None (15 * 1000000000) =
      Inr opts"
    by (simp add: transfer_options_def first_options_def last_options_def header_options_def
        ready_curl_def request_get_def example_url_def)
  then have "send_blocking ready_curl (request_get example_url) None (15 * 1000000000) (31, []) =
      (Inr empty_page, (31, [opts]))"
    by (simp add: send_blocking_def ready_curl_def xfer_new_def Let_def empty_page_def
        request_get_def)
  then show ?thesis
    by (intro exI [of _ opts])
      (simp add: curl_send_def try_io_def begin_send_def ready_runtime_def send_deadline_def
        instant_add_def example_transport_def acquire_slot_def run_worker_def curl_timeout_def
        in_any_case_def clock)
qed

theorem send_refines_pool_witness:
  "watched no_deps ready_runtime ready_curl fst snd \<and>
   (\<exists>opts. pool_explains ready_curl example_transport fst snd (request_get example_url) pool_new
     (32, []) (Inr empty_page) (32, [opts]))"
proof -
  obtain opts where run: "curl_send no_deps ready_runtime ready_curl example_transport
      (request_get example_url) (32, []) = (Inr empty_page, (32, [opts]))" using ready_send by blast
  have "slots_free pool_new = fst (32, [] :: curl_option list list)"
    by (simp add: pool_new_def MAX_BLOCKING_REQUESTS_def)
  from send_refines_pool [OF ready_watched run this] show ?thesis using ready_watched by auto
qed

subsection \<open>Only verified transfers matter\<close>

text \<open>
  The options of a transfer the policy allows: peer and host verified and never switched off, no
  redirect followed, a limit of at least a millisecond and an empty cookie store to start from.
\<close>

definition verified_transfer :: "curl_option list \<Rightarrow> bool" where
  "verified_transfer opts \<longleftrightarrow>
     Opt_Ssl_Verify_Peer True \<in> set opts \<and> Opt_Ssl_Verify_Peer False \<notin> set opts \<and>
     Opt_Ssl_Verify_Host True \<in> set opts \<and> Opt_Ssl_Verify_Host False \<notin> set opts \<and>
     Opt_Follow_Location False \<in> set opts \<and> Opt_Follow_Location True \<notin> set opts \<and>
     Opt_Cookie_File [] \<in> set opts \<and>
     list_ex (\<lambda>opt. case opt of Opt_Timeout limit \<Rightarrow> 1000000 \<le> limit | _ \<Rightarrow> False) opts"

lemma transfer_verified:
  assumes "transfer_options C request ca_file limit = Inr opts" "1000000 \<le> limit"
  shows "verified_transfer opts"
proof -
  obtain hopts where opts: "opts = first_options request ca_file limit @ hopts @ last_options request"
    and h: "header_options C request = Inr hopts"
    by (rule transfer_options_ok [OF assms(1)])
  have "set hopts \<subseteq> range Opt_Http_Header" by (rule header_options_only [OF h])
  moreover have "set (first_options request ca_file limit) \<inter> {Opt_Ssl_Verify_Peer False,
      Opt_Ssl_Verify_Host False, Opt_Follow_Location True} = {}"
    "set (last_options request) \<inter> {Opt_Ssl_Verify_Peer False,
      Opt_Ssl_Verify_Host False, Opt_Follow_Location True} = {}"
    by (auto simp: first_options_def last_options_def split: option.splits)
  moreover have "{Opt_Ssl_Verify_Peer True, Opt_Ssl_Verify_Host True, Opt_Follow_Location False,
      Opt_Cookie_File [], Opt_Timeout limit} \<subseteq> set (first_options request ca_file limit)"
    by (simp add: first_options_def)
  ultimately show ?thesis using assms(2)
    by (fastforce simp: verified_transfer_def opts list_ex_iff intro: bexI [of _ "Opt_Timeout limit"])
qed

abbreviation with_perform ::
  "(curl_option list \<Rightarrow> 'w \<Rightarrow> (curl_event list \<times> string option) \<times> 'w) \<Rightarrow> 'w curl \<Rightarrow> 'w curl" where
  "with_perform f C \<equiv> C\<lparr>curl_perform := f\<rparr>"

lemmas case_congs = option.case_cong sum.case_cong prod.case_cong

lemma set_options_perform: "set_options (with_perform f C) opts = set_options C opts"
  by (induction opts) (simp_all cong: case_congs)

lemma transfer_options_perform:
  "transfer_options (with_perform f C) request ca_file limit =
     transfer_options C request ca_file limit"
  by (simp add: transfer_options_def header_options_def set_options_perform cong: case_congs)

lemma send_blocking_perform:
  assumes "\<And>opts w. verified_transfer opts \<Longrightarrow> f opts w = curl_perform C opts w" "1000000 \<le> limit"
  shows "send_blocking (with_perform f C) request ca_file limit =
    send_blocking C request ca_file limit"
proof
  fix w
  show "send_blocking (with_perform f C) request ca_file limit w =
      send_blocking C request ca_file limit w"
  proof (cases "transfer_options C request ca_file limit")
    case (Inr opts)
    from assms(1) [OF transfer_verified [OF this assms(2)]] Inr show ?thesis
      by (simp add: send_blocking_def transfer_options_perform Let_def cong: case_congs if_cong)
  qed (simp add: send_blocking_def transfer_options_perform)
qed

lemma over_curl_perform:
  assumes "\<And>opts w. verified_transfer opts \<Longrightarrow> f opts w = curl_perform C opts w"
  shows "over_curl D R (with_perform f C) T = over_curl D R C T"
proof -
  have worker: "run_worker D R (with_perform f C) T request limit = run_worker D R C T request limit"
    for request limit
    unfolding run_worker_def
    by (intro arg_cong [of _ _ "in_any_case (rt_release R)"] arg_cong2 [of _ _ _ _ try_io] refl ext)
      (auto simp: send_blocking_perform [OF assms] dest: curl_timeout_finite split: option.splits)
  have "curl_send D R (with_perform f C) T = curl_send D R C T"
    by (rule ext) (simp add: curl_send_def worker cong: case_congs worker_wait.case_cong)
  then show ?thesis by (simp add: over_curl_def)
qed

text \<open>
  C18. A login over libcurl depends on verified transfers only: two libcurls that perform alike
  every transfer with peer and host verification on, redirects off, a fresh cookie store and a
  positive limit make the same login, in its first step and in every answer, whatever either of
  them would do without these options; so no page, key or token is ever fetched any other way.
\<close>

theorem login_over_verified_tls:
  assumes "\<And>opts w. verified_transfer opts \<Longrightarrow> f opts w = curl_perform C opts w"
  shows "begin_login (over_curl D R (C\<lparr>curl_perform := f\<rparr>) T) a factors st =
      begin_login (over_curl D R C T) a factors st \<and>
    advance (over_curl D R (C\<lparr>curl_perform := f\<rparr>) T) a factors ans =
      advance (over_curl D R C T) a factors ans"
  by (simp add: over_curl_perform [OF assms])

theorem login_over_verified_tls_witness:
  "advance (over_curl no_deps ready_runtime (ready_curl\<lparr>curl_perform := (\<lambda>opts (n, ts).
       if verified_transfer opts then (([], None), (n, ts @ [opts]))
       else (([], Some ''insecure''), (n, ts)))\<rparr>)
       example_transport) example_app Builtin (Password ''p'') =
     advance (over_curl no_deps ready_runtime ready_curl example_transport)
       example_app Builtin (Password ''p'')"
proof -
  let ?f = "\<lambda>opts (n, ts). if verified_transfer opts then (([], None), (n, ts @ [opts]))
       else (([], Some ''insecure''), (n, ts))"
  have "?f opts w = curl_perform ready_curl opts w" if "verified_transfer opts" for opts w
    using that by (cases w) (simp add: ready_curl_def)
  from login_over_verified_tls [of ?f ready_curl, OF this] show ?thesis by blast
qed

subsection \<open>What a transport promises its client\<close>

text \<open>
  The interface \<open>HttpTransport\<close> as the page fetcher relies on it: a response's body has a bound and
  its cookie lines are text.
\<close>

locale http_transport =
  fixes D :: "'w deps" and cap :: nat
  assumes within: "http_send D request w = (Inr response, w') \<Longrightarrow>
    length (resp_body response) \<le> cap \<and> list_all valid_utf8 (resp_cookies response)"
begin

lemma fetched_page_within:
  assumes "fetch_send D request st = (Inr (Page p), st')"
  shows "length (page_body p) \<le> cap"
  using assms
  by (cases st) (auto simp: fetch_send_def read_response_def dest!: within
      split: if_splits prod.splits sum.splits option.splits)

end

lemma curl_send_ok:
  assumes "curl_send D R C T request w = (Inr response, w')"
  obtains limit w1 w2 where "1000000 \<le> limit"
    "send_blocking C request (ct_ca_bundle T) limit w1 = (Inr response, w2)"
  using assms
proof (cases rule: curl_send_cases)
  case (granted limit w1 w2 ww w3)
  from granted(4) have "run_worker D R C T request limit w3 = (Inr response, w')"
    by (cases ww) (auto simp: timed_out_def)
  then show thesis
    by (cases rule: run_worker_cases [of D R C T request limit w3])
      (auto simp: timed_out_def intro: that)
qed (auto simp: timed_out_def)

interpretation curl: http_transport "over_curl D R C T" MAX_RESPONSE for D R C T
proof unfold_locales
  fix request w response w'
  assume "http_send (over_curl D R C T) request w = (Inr response, w')"
  then have "curl_send D R C T request w = (Inr response, w')" by simp
  then obtain limit w1 w2 where
    "send_blocking C request (ct_ca_bundle T) limit w1 = (Inr response, w2)"
    by (rule curl_send_ok)
  with send_blocking_bounds [of C request "ct_ca_bundle T" limit w1 "[]" "[]"]
  show "length (resp_body response) \<le> MAX_RESPONSE \<and> list_all valid_utf8 (resp_cookies response)"
    by simp
qed

text \<open>
  A page over libcurl is at most one mebibyte; and what moves a counter of requests is a transfer,
  so the bound on the requests of a step in \<open>Traffic\<close> is one on its libcurl transfers.
\<close>

theorem page_over_curl_bounded:
  assumes "fetch_send (over_curl D R C T) request st = (Inr (Page p), st')"
  shows "length (page_body p) \<le> 1048576"
  using curl.fetched_page_within [OF assms] by (simp add: MAX_RESPONSE_def)

theorem over_curl_counts:
  assumes step: "\<And>opts w. N (snd (curl_perform C opts w)) \<le> N w + 1"
    and clocks: "\<And>w. N (snd (instant_now D w)) \<le> N w" "\<And>w. N (snd (system_now D w)) \<le> N w"
    and waits: "\<And>t w. N (snd (rt_slot R t w)) \<le> N w" "\<And>t w. N (snd (rt_worker R t w)) \<le> N w"
      "\<And>w. N (rt_release R w) \<le> N w"
  shows "counts_requests (over_curl D R C T) N"
proof -
  have blocking: "sends_at_most N 1 (send_blocking C request ca_file limit)" for request ca_file limit
  proof (rule sendsI)
    fix w r t
    assume "send_blocking C request ca_file limit w = (r, t)"
    then have "t = w \<or> (\<exists>opts. t = snd (curl_perform C opts w))"
      by (auto simp: send_blocking_def Let_def split: sum.splits prod.splits option.splits if_splits)
        (metis snd_conv)+
    with step show "N t \<le> N w + 1" by (auto intro: le_SucI)
  qed
  have observed: "sends_at_most N 0 (observe (instant_now D))"
    using clocks(1) by (simp add: sends_at_most_def)
  have "sends_at_most N (0 + 1) (run_worker D R C T request limit)" for request limit
    unfolding run_worker_def
    by (intro in_any_case_sends sends_try_io observed waits(3))
      (simp add: blocking [simplified] sends_mono [OF sends_pure(1)] split: option.split)
  then have worker: "N (snd (run_worker D R C T request limit w)) \<le> N w + 1" for request limit w
    by (simp add: sends_at_most_def)
  have "sends_at_most N (0 + 0) (begin_send D R T)"
    unfolding begin_send_def by (simp add: sends_pure) (intro impI sends_try_io [of _ 0 _ 0, simplified] observed sends_pure)
  moreover have "sends_at_most N 0 (acquire_slot R limit)" for limit
    unfolding sends_at_most_def
  proof
    fix w
    show "N (snd (acquire_slot R limit w)) \<le> N w + 0" using waits(1) [of limit w]
      by (cases "rt_slot R limit w") (simp add: acquire_slot_def split: slot_wait.split)
  qed
  moreover have "N (snd (case rt_worker R limit w of
          (Worker_Joined, w') \<Rightarrow> run_worker D R C T request limit w'
        | (Late_In_Queue, w') \<Rightarrow> (timed_out, rt_release R w')
        | (Late_In_Transfer, w') \<Rightarrow> (timed_out, snd (run_worker D R C T request limit w'))
        | (Worker_Failed, w') \<Rightarrow> (Inl (Transport ''HTTP worker failed''), rt_release R w'))) \<le> N w + 1"
    for limit request w
  proof (cases "rt_worker R limit w")
    case (Pair k w')
    have "N (rt_release R w') \<le> N w" using waits(2) [of limit w] waits(3) [of w'] Pair by simp
    with Pair waits(2) [of limit w] worker [of request limit w'] show ?thesis by (cases k) auto
  qed
  ultimately have "sends_at_most N (0 + 0 + (0 + 1)) (curl_send D R C T request)" for request
    unfolding curl_send_def by (intro sends_try_io) (auto simp: sends_at_most_def)
  then have "N (snd (curl_send D R C T request w)) \<le> N w + 1" for request w
    by (simp add: sends_at_most_def)
  with clocks show ?thesis by (simp add: counts_requests_def)
qed

end
