(* ===== verification/Protocol.thy ===== *)
theory Protocol
  imports Driver
begin

text \<open>
  The contract of a login as an abstract machine, and the driver's refinement of it. The machine
  knows nothing of pages, cookies, redirects, tokens or clocks: a login waits for an answer of some
  kind or is over, an accepted answer is followed by the next challenge or by the one outcome, and
  an answer that is not accepted, or comes too late, ends the login with an error.
\<close>

subsection \<open>The abstract machine\<close>

datatype login_view = Unasked | Waiting expect | Over

datatype login_event = Answered answer "error + auth_step" | Unanswered

inductive contract_step :: "login_view \<Rightarrow> login_event \<Rightarrow> login_view \<Rightarrow> bool" where
  asks_next: "is_ok (expect_check e ans) \<Longrightarrow>
    contract_step (Waiting e) (Answered ans (Inr (Challenge c))) (Waiting (expect_of c))"
| completes: "is_ok (expect_check e ans) \<Longrightarrow>
    contract_step (Waiting e) (Answered ans (Inr (Complete t))) Over"
| rejects: "is_ok (expect_check e ans) \<Longrightarrow>
    contract_step (Waiting e) (Answered ans (Inr (Failed reason))) Over"
| errs: "contract_step v (Answered ans (Inl e)) Over"
| idles: "contract_step v Unanswered v"
| stops: "contract_step v Unanswered Over"

code_pred contract_step .

inductive_simps contract_over [simp]: "contract_step Over ev v"
inductive_simps contract_challenge: "contract_step v (Answered ans (Inr (Challenge c))) v'"

inductive contract_run :: "login_view \<Rightarrow> login_event list \<Rightarrow> login_view \<Rightarrow> bool" for v0 where
  begins: "contract_run v0 [] v0"
| steps: "contract_run v0 evs v \<Longrightarrow> contract_step v ev v' \<Longrightarrow> contract_run v0 (evs @ [ev]) v'"

subsection \<open>The driver's login\<close>

text \<open>What a login is to its caller.\<close>

definition view :: "auth_flow \<Rightarrow> login_view" where
  "view f = (if lifecycle f \<noteq> Active then Over
             else (case pending f of None \<Rightarrow> Unasked | Some p \<Rightarrow> Waiting (pend_expect p)))"

inductive login_run ::
  "'w deps \<Rightarrow> factors \<Rightarrow> 'w login_state \<Rightarrow> login_event list \<Rightarrow> 'w login_state \<Rightarrow> bool"
  for D :: "'w deps" and factors :: factors and s0 :: "'w login_state" where
  starts: "login_run D factors s0 [] s0"
| answers: "login_run D factors s0 evs s \<Longrightarrow> advance D a factors ans s = (r, s') \<Longrightarrow>
    login_run D factors s0 (evs @ [Answered ans r]) s'"
| otherwise: "login_run D factors s0 evs s \<Longrightarrow> login_step D factors s None s' \<Longrightarrow>
    login_run D factors s0 (evs @ [Unanswered]) s'"

lemma outcome_view:
  assumes "outcome_ok r f"
  shows "view f = (case r of Inr (Challenge c) \<Rightarrow> Waiting (expect_of c) | _ \<Rightarrow> Over)"
  using assms
  by (auto simp: outcome_ok_def view_def split: sum.splits auth_step.splits option.splits)

lemma advance_accepts:
  assumes "advance D a factors ans (f, k, w) = (Inr step, s')"
  shows "\<exists>e. view f = Waiting e \<and> is_ok (expect_check e ans)"
proof -
  obtain f' k' w' where s': "s' = (f', k', w')" by (cases s')
  with assms have "answer_page D a factors ans (f, k, w) = (Inr step, (f', k', w'))"
    by (simp add: advance_def unless_ok_eq)
  then show ?thesis by (cases rule: answer_page_Inr) (auto simp: view_def)
qed

lemma advance_contract:
  assumes "advance D a factors ans (f, k, w) = (r, (f', k', w'))"
  shows "contract_step (view f) (Answered ans r) (view f')"
proof -
  have v: "view f' = (case r of Inr (Challenge c) \<Rightarrow> Waiting (expect_of c) | _ \<Rightarrow> Over)"
    by (rule outcome_view) (use advance_outcome [OF assms] in simp)
  show ?thesis
  proof (cases r)
    case (Inl e)
    with v show ?thesis by (simp add: contract_step.errs)
  next
    case (Inr step)
    from advance_accepts [OF assms [unfolded Inr]]
    obtain e where e: "view f = Waiting e" "is_ok (expect_check e ans)" by blast
    from v Inr show ?thesis
      by (cases step) (simp_all add: e contract_step.asks_next contract_step.completes
          contract_step.rejects)
  qed
qed

lemma silent_contract:
  assumes "login_step D factors (f, k, w) None (f', k', w')"
  shows "contract_step (view f) Unanswered (view f')"
proof -
  have over: "lifecycle f' \<noteq> Active \<Longrightarrow> ?thesis"
    by (simp add: view_def [of f'] contract_step.stops)
  from assms show ?thesis
  proof (elim silent_step)
    assume "cancel D (f, w) = (f', w')"
    then show ?thesis
      by (intro over) (auto simp: cancel_def end_flow_def clear_secrets_def Let_def
          split: prod.splits if_splits)
  next
    fix b assume "is_active D (f, w) = (b, (f', w'))"
    then have "f' = f \<or> lifecycle f' \<noteq> Active"
      by (auto simp: is_active_def expire_if_due_def Let_def split: prod.splits if_splits)
    with over show ?thesis by (auto intro: contract_step.idles)
  next
    fix f1 k1 w1 assume "(f', k', w') = fail_login D (f1, k1, w1)"
    from fail_login_ends [OF this [symmetric]] show ?thesis by (intro over) simp
  next
    assume "f' = f"
    then show ?thesis by (simp add: contract_step.idles)
  qed
qed

text \<open>
  C3. The driver refines the contract: every run of a login, with answers from any caller and with
  cancelling, expiry, dropped requests and changes of the outside in between, is a run of the
  abstract machine between the views of its states, answer by answer and outcome by outcome.
\<close>

theorem login_refines_contract:
  assumes "login_run D factors s0 evs s"
  shows "contract_run (view (fst s0)) evs (view (fst s))"
  using assms
proof (induction rule: login_run.induct)
  case starts
  show ?case by (rule contract_run.begins)
next
  case (answers evs s a ans r s')
  obtain f k w f' k' w' where "s = (f, k, w)" "s' = (f', k', w')" by (cases s; cases s')
  with answers show ?case using advance_contract [of D a factors ans f k w r f' k' w']
    by (auto intro: contract_run.steps)
next
  case (otherwise evs s s')
  obtain f k w f' k' w' where "s = (f, k, w)" "s' = (f', k', w')" by (cases s; cases s')
  with otherwise show ?case using silent_contract [of D factors f k w f' k' w']
    by (auto intro: contract_run.steps)
qed

theorem login_refines_contract_witness:
  "\<exists>t s. login_run app_deps Builtin (waiting_flow, Keys signing_jwks, ())
       [Answered (Password ''p'') (Inr (Complete t))] s \<and>
     contract_run (Waiting Expect_Password) [Answered (Password ''p'') (Inr (Complete t))] Over"
proof -
  let ?t = "mark_verified example_app (Some ''u'') granted"
  let ?s = "(end_flow Finished_State (waiting_flow\<lparr>pending := None\<rparr>), Keys signing_jwks, ())"
  have run: "login_run app_deps Builtin (waiting_flow, Keys signing_jwks, ())
      ([] @ [Answered (Password ''p'') (Inr (Complete ?t))]) ?s"
    by (rule login_run.answers [OF login_run.starts login_example])
  have "view waiting_flow = Waiting Expect_Password" "view (fst ?s) = Over"
    by (simp_all add: view_def waiting_flow_def waiting_page_def)
  with login_refines_contract [OF run]
  have "contract_run (Waiting Expect_Password) [Answered (Password ''p'') (Inr (Complete ?t))] Over"
    by simp
  with run show ?thesis unfolding append_Nil by blast
qed

end
