(* ===== verification/Completion.thy ===== *)
theory Completion
  imports Protocol
begin

text \<open>
  What a login does, after all that it never does: factor, form, driver, callback and client
  composed, with a server that keeps to the protocol, turn the right answers into tokens. The
  server is described by what it sends: which responses it gives to which requests, and which
  texts are in them; nothing is assumed of what the client makes of them.
\<close>

text \<open>The login waits for the username and then the password of a login page.\<close>

definition asks_login :: "app \<Rightarrow> auth_flow \<Rightarrow> pending_page \<Rightarrow> bool" where
  "asks_login a f p \<longleftrightarrow>
     lifecycle f = Active \<and> flow_client f = login_client a \<and> pending f = Some p \<and>
     (\<exists>err. pend_kind p = UsernamePassword err) \<and> pend_expect p = Expect_Username \<and>
     pend_queue p = [Ask_Password] \<and> pend_answers p = []"

definition in_time :: "'w deps \<Rightarrow> auth_flow \<Rightarrow> bool" where
  "in_time D f \<longleftrightarrow> (\<forall>w. fst (instant_now D w) < deadline f)"

text \<open>The client took the answers and the code, as it is shown below that it does.\<close>

definition honest ::
  "'w deps \<Rightarrow> app \<Rightarrow> jwks_lock \<Rightarrow> auth_flow \<Rightarrow> form \<Rightarrow> string \<Rightarrow> string \<Rightarrow> tokens \<Rightarrow> bool" where
  "honest D a k f page_form user secret t \<longleftrightarrow>
     {''username'', ''password''} \<subseteq> set (map fst (form_fields page_form)) \<and>
     (\<exists>(red :: redirect) c. same_endpoint (location red) (redirect_uri (app_config a)) \<and>
        \<not> repeats_request (red_kind red) \<and>
        callback_result (oauth_state f) (url_pairs (location red)) = Inr c \<and>
        (\<forall>s. \<exists>s'. post_form D (form_action page_form)
           (filled page_form [(''username'', user), (''password'', secret)]) s = (Inr (Redirect red), s')) \<and>
        (\<forall>w. \<exists>s'. redeem_code D a c (pkce_verifier f) (flow_nonce f) (k, w) = (Inr t, s')))"

text \<open>Beginning a login whose first page asks for a username is such a login.\<close>

lemma begin_asks_login:
  assumes "begin_login D a Builtin st (f0, k0, w0) = (Inr (Challenge Ask_Username), (f, k, w))"
  shows "\<exists>p. asks_login a f p"
proof -
  have step: "\<exists>p. lifecycle f = Active \<and> flow_client f = flow_client f1 \<and> pending f = Some p \<and>
      (\<exists>err. pend_kind p = UsernamePassword err) \<and> pend_expect p = Expect_Username \<and>
      pend_queue p = [Ask_Password] \<and> pend_answers p = []"
    if "resolve D a Builtin hops posted answer (f1, k1, w1) =
      (Inr (Challenge Ask_Username), (f, k, w))" for hops posted answer f1 k1 w1
    using that
  proof (induction hops arbitrary: posted answer f1 k1 w1)
    case (0 posted answer f1 k1 w1)
    from "0.prems" show ?case
    proof (cases rule: resolve_Inr)
      case (shows_page p w2)
      from shows_page(4,1) show ?thesis
        by (cases rule: present_Inr)
          (auto simp: Builtin_def PasswordFactor_def password_challenges_def
            split: page_kind.splits if_splits)
    qed (auto dest: complete_completed)
  next
    case (Suc hops posted answer f1 k1 w1)
    from Suc.prems show ?case
    proof (cases rule: resolve_Inr)
      case (shows_page p w2)
      from shows_page(4,1) show ?thesis
        by (cases rule: present_Inr)
          (auto simp: Builtin_def PasswordFactor_def password_challenges_def
            split: page_kind.splits if_splits)
    next
      case (follows red n w2 w3 j w4 next_answer)
      with Suc.IH [of False next_answer "f1\<lparr>flow_jar := j\<rparr>" k1 w4] show ?thesis by simp
    qed (auto dest: complete_completed)
  qed
  from assms have "first_page D a Builtin st (f0, k0, w0) =
      (Inr (Challenge Ask_Username), (f, k, w))"
    by (simp add: begin_login_def unless_ok_eq)
  then show ?thesis
    by (rule first_page_Inr) (drule step, simp add: asks_login_def)
qed

lemma ensure_active_in_time:
  assumes "in_time D f" "lifecycle f = Active"
  shows "ensure_active D (f, w) = (Inr (), (f, snd (instant_now D w)))"
  using assms unfolding ensure_active_Inr in_time_def
  by (auto intro!: exI [of _ "fst (instant_now D w)"])

lemma complete_honest:
  assumes t: "in_time D f" "lifecycle f = Active"
    and cb: "same_endpoint (location red) (redirect_uri (app_config a))"
      "callback_result (oauth_state f) (url_pairs (location red)) = Inr c"
    and redeems: "\<forall>w. \<exists>s'. redeem_code D a c (pkce_verifier f) (flow_nonce f) (k, w) = (Inr t, s')"
  shows "\<exists>s'. complete_at_callback D a red (f, k, w) =
    (Inr (Some (Complete t)), (end_flow Finished_State f, s'))"
proof -
  note e = ensure_active_in_time [OF t]
  define w1 where "w1 = snd (instant_now D w)"
  define w2 where "w2 = snd (instant_now D w1)"
  define w3 where "w3 = snd (instant_now D w2)"
  have code_read: "login_callback D red (redirect_uri (app_config a)) (f, w1) = (Inr (Some c), (f, w2))"
    using cb e [of w1] by (simp add: callback_Some w2_def)
  from redeems obtain k4 w4 where r:
    "redeem_code D a c (pkce_verifier f) (flow_nonce f) (k, w3) = (Inr t, (k4, w4))"
    by (metis prod.exhaust)
  have fin: "finish D (f, w4) = (Inr (), (end_flow Finished_State f, snd (instant_now D w4)))"
    using t unfolding finish_Inr in_time_def by (auto intro!: exI [of _ "fst (instant_now D w4)"])
  have "fail_login D (end_flow Finished_State f, k4, snd (instant_now D w4)) =
      (end_flow Finished_State f, k4, snd (instant_now D w4))"
    using t(2) by (intro fail_login_ended) (simp_all add: flow_ok_def)
  then have "exchange_code D a c (f, k, w2) =
      (Inr t, (end_flow Finished_State f, k4, snd (instant_now D w4)))"
    using e [of w2] r fin
    by (simp add: exchange_code_def in_any_case_def try_io_def on_flow_def in_world_def w3_def)
  then show ?thesis
    using e [of w] code_read by (simp add: complete_at_callback_def try_io_def on_flow_def w1_def)
qed

lemma username_answered:
  assumes "asks_login a f p" "in_time D f"
  shows "advance D a Builtin (Username user) (f, k, w) =
    (Inr (Challenge Ask_Password), (f\<lparr>pending := Some (p\<lparr>pend_answers := [Username user],
       pend_expect := Expect_Password, pend_queue := []\<rparr>)\<rparr>, k, snd (instant_now D w)))"
  using assms ensure_active_in_time [OF assms(2), of w]
  by (simp add: asks_login_def advance_def unless_ok_def answer_page_def try_io_def on_flow_def
      take_pending_def Let_def)

lemma password_answered:
  assumes "lifecycle f = Active" "flow_client f = login_client a" "pending f = Some p" "in_time D f"
    "pend_kind p = UsernamePassword err" "pend_expect p = Expect_Password" "pend_queue p = []"
    "pend_answers p = [Username user]" "honest D a k f (pend_form p) user secret t"
  shows "\<exists>f' s'. advance D a Builtin (Password secret) (f, k, w) = (Inr (Complete t), (f', s'))"
proof -
  let ?fs = "[(''username'', user), (''password'', secret)]"
  define w1 where "w1 = snd (instant_now D w)"
  from assms(9) obtain red :: redirect and c where
    h: "same_endpoint (location red) (redirect_uri (app_config a))" "\<not> repeats_request (red_kind red)"
      "callback_result (oauth_state f) (url_pairs (location red)) = Inr c"
      "\<forall>s. \<exists>s'. post_form D (form_action (pend_form p)) (filled (pend_form p) ?fs) s =
         (Inr (Redirect red), s')"
      "\<forall>w. \<exists>s'. redeem_code D a c (pkce_verifier f) (flow_nonce f) (k, w) = (Inr t, s')"
    and names: "{''username'', ''password''} \<subseteq> set (map fst (form_fields (pend_form p)))"
    by (auto simp: honest_def)
  from names have "answers_fit (pend_form p) ?fs" by (auto simp: answers_fit_def)
  then have sub: "submit D (pend_form p) ?fs s =
      post_form D (form_action (pend_form p)) (filled (pend_form p) ?fs) s" for s
    by (rule submit_accepted)
  from h(4) obtain j w2 where
    post: "post_form D (form_action (pend_form p)) (filled (pend_form p) ?fs) (flow_jar f, w1) =
      (Inr (Redirect red), (j, w2))" by (metis prod.exhaust)
  let ?f = "f\<lparr>pending := None, flow_jar := j\<rparr>"
  have now: "in_time D ?f" "lifecycle ?f = Active" using assms(1,4) by (simp_all add: in_time_def)
  from complete_honest [OF now h(1), of c k t "snd (instant_now D w2)"] h(3,5) obtain s' where
    fin: "complete_at_callback D a red (?f, k, snd (instant_now D w2)) =
      (Inr (Some (Complete t)), (end_flow Finished_State ?f, s'))" by auto
  have "resolve D a Builtin MAX_REDIRECTS True (Redirect red) (?f, k, w2) =
      (Inr (Complete t), (end_flow Finished_State ?f, s'))"
    using ensure_active_in_time [OF now, of w2] fin h(2)
    by (subst resolve.simps) (simp add: try_io_def on_flow_def)
  then show ?thesis
    using assms(1-3,5-8) ensure_active_in_time [OF assms(4,1), of w] sub post
    by (simp add: advance_def unless_ok_def answer_page_def try_io_def on_flow_def on_jar_def
        take_pending_def Let_def post_page_def Builtin_def PasswordFactor_def password_fields_def w1_def)
qed

lemma honest_completes:
  assumes "asks_login a f p" "in_time D f" "honest D a k f (pend_form p) user secret t"
  shows "\<exists>s1 f2 s2. advance D a Builtin (Username user) (f, k, w) =
      (Inr (Challenge Ask_Password), s1) \<and>
    advance D a Builtin (Password secret) s1 = (Inr (Complete t), (f2, s2)) \<and>
    lifecycle f2 = Finished_State \<and> wiped f2"
proof -
  let ?p = "p\<lparr>pend_answers := [Username user], pend_expect := Expect_Password, pend_queue := []\<rparr>"
  let ?f = "f\<lparr>pending := Some ?p\<rparr>"
  from assms(1) obtain err where kind: "pend_kind p = UsernamePassword err"
    and f: "lifecycle f = Active" "flow_client f = login_client a" by (auto simp: asks_login_def)
  have "in_time D ?f" "honest D a k ?f (pend_form ?p) user secret t"
    using assms(2,3) by (simp_all add: in_time_def honest_def)
  with kind f password_answered [of ?f a ?p D err user k secret t "snd (instant_now D w)"]
  obtain f2 s2 where adv: "advance D a Builtin (Password secret) (?f, k, snd (instant_now D w)) =
      (Inr (Complete t), (f2, s2))" by auto
  then have "lifecycle f2 = Finished_State \<and> wiped f2"
    using advance_outcome [of D a Builtin "Password secret" ?f k "snd (instant_now D w)"]
    by (cases s2) (auto simp: outcome_ok_def)
  with adv username_answered [OF assms(1,2), of user k w] show ?thesis by blast
qed

subsection \<open>A server that keeps to the protocol\<close>

text \<open>A JSON value a server can print: text in UTF-8, no name twice, no deep nesting.\<close>

definition printed :: "'w deps \<Rightarrow> json \<Rightarrow> string \<Rightarrow> bool" where
  "printed D v body_text \<longleftrightarrow>
     body_text = show_json v \<and> wf_json v \<and> json_depth v \<le> 100 \<and> numbers_ok (parse_number D) v"

text \<open>
  The page's form with the username and the password is answered with a redirect to the registered
  callback, with a query that holds this state, one code and no error.
\<close>

definition answers_of :: "form \<Rightarrow> string \<Rightarrow> string \<Rightarrow> (string \<times> string) list" where
  "answers_of form user secret = map (\<lambda>(name, v). (name,
     if name = ''username'' then user else if name = ''password'' then secret else v)) (form_fields form)"

definition takes_password ::
  "'w deps \<Rightarrow> app \<Rightarrow> form \<Rightarrow> string \<Rightarrow> string \<Rightarrow> string \<Rightarrow> string \<Rightarrow> bool" where
  "takes_password D a form user secret sent_state c \<longleftrightarrow>
     {''username'', ''password''} \<subseteq> set (map fst (form_fields form)) \<and>
     url_scheme (form_action form) = ''https'' \<and>
     form_size (answers_of form user secret) \<le> 1048576 \<and>
     (\<exists>status target query ps txt. status \<in> {301, 302, 303} \<and>
        url_join D (form_action form) target = Some ((redirect_uri (app_config a))
          \<lparr>url_query := query, url_pairs := ps, url_text := txt\<rparr>) \<and>
        sent_state \<noteq> [] \<and> map snd (filter (\<lambda>(n, _). n = ''state'') ps) = [sent_state] \<and>
        c \<noteq> [] \<and> map snd (filter (\<lambda>(n, _). n = ''code'') ps) = [c] \<and> ''error'' \<notin> fst ` set ps \<and>
        (\<forall>r w. req_method r = Post \<and> req_url r = form_action form \<and>
           req_body r = form_encode D (answers_of form user secret) \<longrightarrow>
           (\<exists>w' body cookies. http_send D r w = (Inr \<lparr>resp_status = status,
              resp_headers = [(''Location'', target)], resp_body = body, resp_cookies = cookies\<rparr>, w'))))"

text \<open>The code and the verifier are answered with the grant, printed as JSON.\<close>

definition code_fields :: "app \<Rightarrow> string \<Rightarrow> string \<Rightarrow> (string \<times> string) list" where
  "code_fields a c verifier =
     [(''grant_type'', ''authorization_code''), (''client_id'', client_id (app_config a)),
      (''code'', c), (''redirect_uri'', url_text (redirect_uri (app_config a))),
      (''code_verifier'', verifier)]"

definition grants_code :: "'w deps \<Rightarrow> app \<Rightarrow> string \<Rightarrow> string \<Rightarrow> json \<Rightarrow> bool" where
  "grants_code D a c verifier grant \<longleftrightarrow>
     form_size (code_fields a c verifier) \<le> 1048576 \<and>
     (\<forall>r w. req_method r = Post \<and> req_url r = token_endpoint (app_metadata a) \<and>
        req_body r = form_encode D (code_fields a c verifier) \<longrightarrow>
        (\<exists>w' headers body cookies. printed D grant body \<and> http_send D r w = (Inr \<lparr>resp_status = 200,
           resp_headers = headers, resp_body = body, resp_cookies = cookies\<rparr>, w')))"

definition good_grant :: "json \<Rightarrow> string \<Rightarrow> string option \<Rightarrow> string \<Rightarrow> bool" where
  "good_grant grant access refresh idt \<longleftrightarrow>
     jget grant ''access_token'' = Some (JString access) \<and> access \<noteq> [] \<and>
     jget grant ''token_type'' \<in> {Some (JString ''Bearer''), Some (JString ''bearer'')} \<and>
     jget grant ''refresh_token'' = map_option JString refresh \<and>
     jget grant ''id_token'' = Some (JString idt)"

text \<open>An RSA key, published for signatures, under which wolfCrypt accepts the signature.\<close>

definition signs :: "'w deps \<Rightarrow> json \<Rightarrow> string \<Rightarrow> string \<Rightarrow> string \<Rightarrow> bool" where
  "signs D key kid message sig \<longleftrightarrow>
     wolf_init D \<and> jget key ''kid'' = Some (JString kid) \<and> jget key ''kty'' = Some (JString ''RSA'') \<and>
     jget key ''use'' \<in> {None, Some (JString ''sig'')} \<and>
     jget key ''alg'' \<in> {None, Some (JString ''RS256'')} \<and> jget key ''key_ops'' = None \<and>
     (\<exists>n64 n e64 e. jget key ''n'' = Some (JString n64) \<and> b64_decode D n64 = Some n \<and>
        jget key ''e'' = Some (JString e64) \<and> b64_decode D e64 = Some e \<and>
        length n \<in> {256, 384, 512} \<and> rsa_key_ok D (length n) n e \<and>
        rsa_signature_ok D (length n) sig \<and> rsa_verify D (length n) n e message sig)"

text \<open>
  A sound ID token: three dot-separated parts, signed by one of the keys, for this issuer, client
  and nonce, and whenever the clock is read it is issued and not expired.
\<close>

definition good_token ::
  "'w deps \<Rightarrow> app \<Rightarrow> json \<Rightarrow> string \<Rightarrow> string \<Rightarrow> string \<Rightarrow> bool" where
  "good_token D a jwks nonce idt subject \<longleftrightarrow>
     (\<exists>h c s h_text hj c_text claims kid keys key sig expiry issued x y.
        idt = h @ ''.'' @ c @ ''.'' @ s \<and> h \<noteq> [] \<and> c \<noteq> [] \<and> s \<noteq> [] \<and>
        CHR ''.'' \<notin> set (h @ c @ s) \<and>
        b64_decode D h = Some h_text \<and> printed D hj h_text \<and>
        jget hj ''alg'' = Some (JString ''RS256'') \<and> jget hj ''kid'' = Some (JString kid) \<and>
        jget jwks ''keys'' = Some (JArray keys) \<and> key \<in> set keys \<and>
        b64_decode D s = Some sig \<and> signs D key kid (h @ ''.'' @ c) sig \<and>
        b64_decode D c = Some c_text \<and> printed D claims c_text \<and>
        jget claims ''iss'' = Some (JString (md_issuer (app_metadata a))) \<and>
        jget claims ''aud'' = Some (JString (client_id (app_config a))) \<and>
        jget claims ''azp'' \<in> {None, Some (JString (client_id (app_config a)))} \<and>
        jget claims ''nonce'' = Some (JString nonce) \<and>
        jget claims ''sub'' = Some (JString subject) \<and> subject \<noteq> [] \<and>
        jget claims ''exp'' = Some (JNumber x) \<and> as_u64 x = Some expiry \<and>
        jget claims ''iat'' = Some (JNumber y) \<and> as_u64 y = Some issued \<and>
        jget claims ''nbf'' = None \<and>
        (\<forall>w. \<exists>now w'. system_now D w = (Some now, w') \<and> issued \<le> now + 60 \<and> now < expiry \<and>
           now + 60 < 2 ^ 64))"

subsection \<open>The client takes what such a server sends\<close>

lemma str_field_jget: "str_field v k = Some s \<longleftrightarrow> jget v k = Some (JString s)"
proof -
  have "as_str x = Some s \<longleftrightarrow> x = JString s" for x by (cases x) auto
  then show ?thesis by (cases "jget v k") (auto simp: str_field_def)
qed

lemma printed_parsed: "printed D v body_text \<Longrightarrow> claims_of D body_text = Some v"
  using parse_show [of v "parse_number D"]
  by (simp add: printed_def claims_of_def max_depth_def)

lemma answers_of_filled: "answers_of form user secret = filled form [(''username'', user), (''password'', secret)]"
  by (auto simp: answers_of_def filled_def)

lemma form_requested:
  assumes "form_size fs \<le> 1048576"
  obtains r where "request_form D u fs = Inr r" "req_method r = Post" "req_url r = u"
    "req_body r = form_encode D fs"
  using assms that by (auto simp: request_form_ok MAX_FORM_def)

lemma location_read: "header \<lparr>resp_status = status, resp_headers = [(''Location'', target)],
    resp_body = body, resp_cookies = cookies\<rparr> ''Location'' = Some target"
  by (simp add: header_def eq_ignore_ascii_case_def)

lemma password_taken:
  assumes "takes_password D a form user secret sent_state c"
  shows "\<exists>red :: redirect. same_endpoint (location red) (redirect_uri (app_config a)) \<and>
    \<not> repeats_request (red_kind red) \<and>
    callback_result sent_state (url_pairs (location red)) = Inr c \<and>
    (\<forall>s. \<exists>s'. post_form D (form_action form)
       (filled form [(''username'', user), (''password'', secret)]) s = (Inr (Redirect red), s'))"
proof -
  let ?fs = "answers_of form user secret"
  from assms obtain status target query ps loc_text where
    st: "status \<in> {301, 302, 303}" and
    loc: "url_join D (form_action form) target = Some ((redirect_uri (app_config a))
      \<lparr>url_query := query, url_pairs := ps, url_text := loc_text\<rparr>)" (is "_ = Some ?loc") and
    raw: "sent_state \<noteq> []" "map snd (filter (\<lambda>(n, _). n = ''state'') ps) = [sent_state]" "c \<noteq> []"
      "map snd (filter (\<lambda>(n, _). n = ''code'') ps) = [c]" "''error'' \<notin> fst ` set ps" and
    sends: "\<forall>r w. req_method r = Post \<and> req_url r = form_action form \<and>
       req_body r = form_encode D ?fs \<longrightarrow>
       (\<exists>w' body cookies. http_send D r w = (Inr \<lparr>resp_status = status,
          resp_headers = [(''Location'', target)], resp_body = body, resp_cookies = cookies\<rparr>, w'))"
    unfolding takes_password_def by (elim conjE exE) (rule that, assumption+)
  from assms have https: "allowed_scheme (form_action form)" and size: "form_size ?fs \<le> 1048576"
    by (simp_all add: takes_password_def allowed_scheme_def)
  have ps: "sent_state \<noteq> []" "values_of ''state'' ps = [sent_state]" "c \<noteq> []"
      "values_of ''code'' ps = [c]" "values_of ''error'' ps = []"
    using raw by (auto simp: values_of_def filter_empty_conv image_iff)
  from st obtain kind where kind: "from_status status = Some kind" "\<not> repeats_request kind"
    by (auto simp: from_status_def repeats_request_def)
  define red where "red = \<lparr>location = ?loc,
    red_same_origin = same_origin (url_origin ?loc) (url_origin (form_action form)), red_kind = kind\<rparr>"
  obtain r where r: "request_form D (form_action form) ?fs = Inr r" "req_method r = Post"
    "req_url r = form_action form" "req_body r = form_encode D ?fs"
    using form_requested [OF size, of D "form_action form"] by blast
  have "\<exists>s'. fetch_send D r s = (Inr (Redirect red), s')" for s
  proof -
    obtain jar w where s: "s = (jar, w)" by (cases s)
    obtain now w1 where u: "unix_now D w = (now, w1)" by (cases "unix_now D w")
    obtain w2 body cookies where h: "http_send D (r\<lparr>req_cookies := lines_at jar (req_url r) now\<rparr>) w1 =
        (Inr \<lparr>resp_status = status, resp_headers = [(''Location'', target)], resp_body = body,
          resp_cookies = cookies\<rparr>, w2)"
      using sends [rule_format, of "r\<lparr>req_cookies := lines_at jar (req_url r) now\<rparr>" w1] r(2-4) by auto
    obtain now' w3 where u': "unix_now D w2 = (now', w3)" by (cases "unix_now D w2")
    have "read_response D (form_action form) \<lparr>resp_status = status,
        resp_headers = [(''Location'', target)], resp_body = body, resp_cookies = cookies\<rparr> =
        Inr (Redirect red)"
      by (simp add: read_response_def kind(1) location_read loc red_def)
    then show ?thesis using s u h u' https r(3) by (simp add: fetch_send_def)
  qed
  then have "\<forall>s. \<exists>s'. post_form D (form_action form) ?fs s = (Inr (Redirect red), s')"
    using r(1) by (simp add: post_form_def try_io_def)
  moreover have "same_endpoint (location red) (redirect_uri (app_config a))"
    "\<not> repeats_request (red_kind red)" "callback_result sent_state (url_pairs (location red)) = Inr c"
    using ps kind(2) by (simp_all add: red_def same_endpoint_def callback_result_Inr)
  ultimately show ?thesis unfolding answers_of_filled by blast
qed

lemma code_granted:
  assumes "grants_code D a c verifier grant" "good_grant grant access refresh idt"
  shows "\<exists>w'. acquire D (token_endpoint (app_metadata a)) (code_fields a c verifier) True w =
    (Inr \<lparr>access_token = access, refresh_token = refresh, id_token = Some idt,
       verified_subject = None, verified_issuer = None, verified_client_id = None,
       verified_refresh_token = None\<rparr>, w')"
proof -
  let ?fs = "code_fields a c verifier" and ?u = "token_endpoint (app_metadata a)"
  from assms(1) have size: "form_size ?fs \<le> 1048576"
    and sends: "\<And>r w. req_method r = Post \<Longrightarrow> req_url r = ?u \<Longrightarrow> req_body r = form_encode D ?fs \<Longrightarrow>
        (\<exists>w' headers body cookies. printed D grant body \<and> http_send D r w = (Inr \<lparr>resp_status = 200,
           resp_headers = headers, resp_body = body, resp_cookies = cookies\<rparr>, w'))"
    by (auto simp: grants_code_def)
  obtain r where r: "request_form D ?u ?fs = Inr r" "req_method r = Post" "req_url r = ?u"
    "req_body r = form_encode D ?fs" by (rule form_requested [OF size])
  from sends [OF r(2-4)] obtain w' headers body cookies where
    h: "printed D grant body" "http_send D r w = (Inr \<lparr>resp_status = 200,
       resp_headers = headers, resp_body = body, resp_cookies = cookies\<rparr>, w')" by blast
  have rt: "optional_token grant ''refresh_token'' = Inr refresh"
    using assms(2) by (cases refresh) (simp_all add: good_grant_def optional_token_def)
  have "eq_ignore_ascii_case ''Bearer'' ''bearer''" "eq_ignore_ascii_case ''bearer'' ''bearer''"
    by code_simp+
  then have "\<exists>kind. str_field grant ''token_type'' = Some kind \<and> eq_ignore_ascii_case kind ''bearer''"
    using assms(2) by (auto simp: good_grant_def str_field_def)
  then have "token_response grant True = Inr \<lparr>access_token = access, refresh_token = refresh,
      id_token = Some idt, verified_subject = None, verified_issuer = None,
      verified_client_id = None, verified_refresh_token = None\<rparr>"
    using assms(2) rt
    by (auto simp: token_response_def str_field_def good_grant_def optional_token_def)
  with r(1) h printed_parsed [OF h(1)] show ?thesis
    by (simp add: acquire_def try_io_def read_grant_def)
qed

text \<open>With wolfCrypt initialised a key that does not fit is only skipped.\<close>

lemma verify_not_crypto:
  assumes "wolf_init D"
  shows "verify D alg key message sig \<noteq> Inl Crypto"
proof -
  have field: "jwk_field D key name \<noteq> Inl Crypto" for name
    by (simp add: jwk_field_def ok_or_def split: option.splits)
  have "verify_rsa D key message sig \<noteq> Inl Crypto"
    using field [of "''n''"] field [of "''e''"]
    by (cases "jwk_field D key ''n''"; cases "jwk_field D key ''e''")
      (simp_all add: verify_rsa_def verify_rsa_size_def)
  moreover have "verify_ec D key message sig \<noteq> Inl Crypto"
    using field [of "''x''"] field [of "''y''"]
    by (cases "jwk_field D key ''x''"; cases "jwk_field D key ''y''")
      (simp_all add: verify_ec_def Let_def)
  ultimately show ?thesis using assms by (simp add: verify_def crypto_init_def)
qed

lemma try_keys_finds:
  assumes "wolf_init D" "key \<in> set keys" "verify D alg key message sig = Inr ()"
  shows "try_keys D alg message sig keys = Inr True"
  using assms(2,3) verify_not_crypto [OF assms(1)]
  by (induction keys) (auto split: sum.split)

lemma signs_verified:
  assumes "signs D key kid message sig"
  shows "verify D ''RS256'' key message sig = Inr ()" "key_eligible key kid ''RS256''"
proof -
  from assms obtain n64 n e64 e where k: "wolf_init D" "jget key ''n'' = Some (JString n64)"
    "b64_decode D n64 = Some n" "jget key ''e'' = Some (JString e64)" "b64_decode D e64 = Some e"
    "length n \<in> {256, 384, 512}" "rsa_key_ok D (length n) n e" "rsa_signature_ok D (length n) sig"
    "rsa_verify D (length n) n e message sig" "jget key ''kty'' = Some (JString ''RSA'')"
    unfolding signs_def by blast
  then have "jwk_field D key ''n'' = Inr n" "jwk_field D key ''e'' = Inr e"
    "str_field key ''kty'' = Some ''RSA''"
    by (simp_all add: jwk_field_Inr str_field_jget)
  with k show "verify D ''RS256'' key message sig = Inr ()"
    by (auto simp: verify_def crypto_init_def verify_rsa_ok)
  show "key_eligible key kid ''RS256''"
    using assms by (auto simp: signs_def key_eligible_def field_matches_def ops_allow_verify_def
        str_field_jget)
qed

lemma split_three:
  assumes "CHR ''.'' \<notin> set (h @ c @ s)"
  shows "split_char (CHR ''.'') (h @ ''.'' @ c @ ''.'' @ s) = [h, c, s]"
proof -
  have whole: "d \<notin> set p \<Longrightarrow> split_char d p = [p]" for d p by (induction p) auto
  have head: "d \<notin> set p \<Longrightarrow> split_char d (p @ d # q) = p # split_char d q" for d p q
    by (induction p) auto
  from assms show ?thesis using head [of _ h "c @ ''.'' @ s"] head [of _ c s] whole [of _ s] by simp
qed

lemma token_verified:
  assumes "good_token D a jwks nonce idt subject" "id_token t = Some idt"
  shows "\<exists>claims w'. verify_tokens D a t (Some nonce) (Keys jwks, w) = (Inr claims, (Keys jwks, w')) \<and>
    str_field claims ''sub'' = Some subject"
proof -
  from assms(1) obtain h c s h_text hj c_text claims kid keys key sig expiry issued x y where
    parts: "idt = h @ ''.'' @ c @ ''.'' @ s" "h \<noteq> []" "c \<noteq> []" "s \<noteq> []" "CHR ''.'' \<notin> set (h @ c @ s)"
    and hdr: "b64_decode D h = Some h_text" "printed D hj h_text"
      "jget hj ''alg'' = Some (JString ''RS256'')" "jget hj ''kid'' = Some (JString kid)"
    and keys: "jget jwks ''keys'' = Some (JArray keys)" "key \<in> set keys"
      "b64_decode D s = Some sig" "signs D key kid (h @ ''.'' @ c) sig"
    and body: "b64_decode D c = Some c_text" "printed D claims c_text"
    and who: "jget claims ''iss'' = Some (JString (md_issuer (app_metadata a)))"
      "jget claims ''aud'' = Some (JString (client_id (app_config a)))"
      "jget claims ''azp'' \<in> {None, Some (JString (client_id (app_config a)))}"
      "jget claims ''nonce'' = Some (JString nonce)"
      "jget claims ''sub'' = Some (JString subject)" "subject \<noteq> []"
    and times: "jget claims ''exp'' = Some (JNumber x)" "as_u64 x = Some expiry"
      "jget claims ''iat'' = Some (JNumber y)" "as_u64 y = Some issued" "jget claims ''nbf'' = None"
    and clock: "\<forall>w. \<exists>now w'. system_now D w = (Some now, w') \<and> issued \<le> now + 60 \<and> now < expiry \<and>
      now + 60 < 2 ^ 64"
    unfolding good_token_def by blast
  have split: "split_token idt = Inr (h, c, s)"
    using split_three [OF parts(5)] parts(1-4) by (simp add: split_token_def)
  have dec: "decode_json D h = Inr hj" "decode_json D c = Inr claims"
    using hdr(1) body(1) printed_parsed [OF hdr(2)] printed_parsed [OF body(2)]
    by (simp_all add: decode_json_def)
  have fields: "str_field hj ''alg'' = Some ''RS256''" "str_field hj ''kid'' = Some kid"
    using hdr by (simp_all add: str_field_jget)
  have ks: "array_field jwks ''keys'' = Some keys" using keys(1) by (simp add: array_field_def)
  note sv = signs_verified [OF keys(4)]
  have info: "token_key_info D idt = Inr (kid, ''RS256'')"
    by (simp add: token_key_info_def split dec fields)
  have known: "jwks_has_eligible_key jwks kid ''RS256''"
    using ks keys(2) sv(2) by (auto simp: jwks_has_eligible_key_def list_ex_iff)
  have "wolf_init D" using keys(4) by (simp add: signs_def)
  from try_keys_finds [OF this _ sv(1), of "filter (\<lambda>key. key_eligible key kid ''RS256'') keys"]
  have "try_keys D ''RS256'' (h @ ''.'' @ c) sig (filter (\<lambda>key. key_eligible key kid ''RS256'') keys) =
      Inr True" using keys(2) sv(2) by simp
  then have signed: "signed_claims D idt jwks = Inr claims"
    by (simp add: signed_claims_def split dec fields ks keys(3))
  obtain now w' where now: "system_now D w = (Some now, w')" "issued \<le> now + 60" "now < expiry"
    "now + 60 < 2 ^ 64" using clock by blast
  have "timely claims (Some nonce) now = Inr ()"
    using now who times by (simp add: timely_iff u64_field_def str_field_jget saturating_add_def)
  moreover have "audience_matches claims (client_id (app_config a))"
    using who(2,3) by (auto simp: audience_matches_def str_field_jget)
  moreover have "str_field claims ''iss'' = Some (md_issuer (app_metadata a))"
    using who(1) by (simp add: str_field_jget)
  ultimately have "verify_id_token D idt jwks (md_issuer (app_metadata a)) (client_id (app_config a))
      (Some nonce) w = (Inr claims, w')"
    using signed now(1) by (simp add: verify_id_token_def try_io_def validate_claims_def attempt_def)
  then have "verify_tokens D a t (Some nonce) (Keys jwks, w) = (Inr claims, (Keys jwks, w'))"
    using assms(2) info known by (auto simp: verify_tokens_Inr)
  with who(5) show ?thesis by (auto simp: str_field_jget)
qed

lemma server_honest:
  assumes "takes_password D a form user secret (oauth_state f) c"
    and "grants_code D a c (pkce_verifier f) grant" "good_grant grant access refresh idt"
    and "good_token D a jwks (flow_nonce f) idt subject"
  shows "honest D a (Keys jwks) f form user secret (mark_verified a (Some subject)
    \<lparr>access_token = access, refresh_token = refresh, id_token = Some idt, verified_subject = None,
     verified_issuer = None, verified_client_id = None, verified_refresh_token = None\<rparr>)"
proof -
  let ?t = "\<lparr>access_token = access, refresh_token = refresh, id_token = Some idt,
    verified_subject = None, verified_issuer = None, verified_client_id = None,
    verified_refresh_token = None\<rparr>"
  have "\<exists>s'. redeem_code D a c (pkce_verifier f) (flow_nonce f) (Keys jwks, w) =
      (Inr (mark_verified a (Some subject) ?t), s')" for w
  proof -
    from code_granted [OF assms(2,3)] obtain w1 where
      "acquire D (token_endpoint (app_metadata a)) (code_fields a c (pkce_verifier f)) True w =
        (Inr ?t, w1)" by blast
    moreover from token_verified [OF assms(4), of ?t w1] obtain claims w2 where
      "verify_tokens D a ?t (Some (flow_nonce f)) (Keys jwks, w1) = (Inr claims, (Keys jwks, w2))"
      "str_field claims ''sub'' = Some subject" by auto
    ultimately show ?thesis by (simp add: redeem_code_def code_fields_def try_io_def in_world_def)
  qed
  moreover have "{''username'', ''password''} \<subseteq> set (map fst (form_fields form))"
    using assms(1) by (simp add: takes_password_def)
  ultimately show ?thesis using password_taken [OF assms(1)] unfolding honest_def by blast
qed

text \<open>
  C4. An honest login completes. A login waits at a login page, as beginning one leaves it, and its
  deadline does not pass. The server answers the page's form with these credentials by a redirect to
  the callback with the state of this login and a code, and answers that code, with this login's
  verifier, by a grant whose ID token is signed by a published key, names this issuer, client and
  nonce, and is issued and unexpired. Then giving the username asks for the password, and giving the
  password completes with exactly the granted tokens, as a session of the token's subject; the
  login is finished and wiped.
\<close>

theorem honest_login_completes:
  assumes "asks_login a f p" "in_time D f"
    and "takes_password D a (pend_form p) user secret (oauth_state f) c"
    and "grants_code D a c (pkce_verifier f) grant" "good_grant grant access refresh idt"
    and "good_token D a jwks (flow_nonce f) idt subject"
  shows "\<exists>s1 f2 s2. advance D a Builtin (Username user) (f, Keys jwks, w) =
      (Inr (Challenge Ask_Password), s1) \<and>
    advance D a Builtin (Password secret) s1 = (Inr (Complete \<lparr>access_token = access,
      refresh_token = refresh, id_token = Some idt, verified_subject = Some subject,
      verified_issuer = Some (md_issuer (app_metadata a)),
      verified_client_id = Some (client_id (app_config a)),
      verified_refresh_token = refresh\<rparr>), (f2, s2)) \<and>
    lifecycle f2 = Finished_State \<and> wiped f2"
  using honest_completes [OF assms(1,2) server_honest [OF assms(3-6)], of w]
  by (simp add: mark_verified_def)


subsection \<open>A concrete login\<close>

definition login_waiting :: auth_flow where
  "login_waiting = waiting_flow\<lparr>pending := Some (waiting_page\<lparr>pend_expect := Expect_Username,
     pend_queue := [Ask_Password], pend_answers := []\<rparr>)\<rparr>"

text \<open>The example server of \<open>Client\<close>, over any world: what it answers does not depend on it.\<close>

definition example_server :: "'w deps \<Rightarrow> bool" where
  "example_server D \<longleftrightarrow>
     b64_decode D = b64_decode token_deps \<and> parse_number D = small_number \<and> wolf_init D \<and>
     (\<forall>n m e. rsa_key_ok D n m e) \<and> (\<forall>n s. rsa_signature_ok D n s) \<and>
     (\<forall>n m e t s. rsa_verify D n m e t s) \<and>
     url_join D = (\<lambda>_ t. Some (if t = ''a'' then example_action else example_callback)) \<and>
     (\<forall>r w. fst (http_send D r w) = Inr (example_answer r)) \<and>
     (\<forall>w. fst (system_now D w) = Some 0) \<and> (\<forall>w. fst (instant_now D w) = 0)"

lemma example_serverD:
  assumes "example_server D"
  shows "b64_decode D = b64_decode token_deps" "parse_number D = small_number" "wolf_init D"
    "rsa_key_ok D n m e" "rsa_signature_ok D n s" "rsa_verify D n m e t s"
    "url_join D = (\<lambda>_ t. Some (if t = ''a'' then example_action else example_callback))"
    "\<exists>w'. http_send D r w = (Inr (example_answer r), w')"
    "\<exists>w'. system_now D w = (Some 0, w')" "fst (instant_now D w) = 0"
  using assms unfolding example_server_def by (metis prod.collapse)+

lemma example_takes:
  assumes "example_server D"
  shows "takes_password D example_app login_form ''u'' ''p'' (example_secret 16) ''x''"
proof -
  note srv = example_serverD [OF assms]
  let ?loc = "example_redirect\<lparr>url_query := url_query example_redirect,
    url_pairs := [(''code'', ''x''), (''state'', example_secret 16)], url_text := url_text example_redirect\<rparr>"
  have loc: "url_join D example_action ''cb'' = Some ?loc"
    by (simp add: srv(7) example_callback_def)
  have sends: "\<exists>w' body cookies. http_send D r w = (Inr \<lparr>resp_status = 302,
      resp_headers = [(''Location'', ''cb'')], resp_body = body, resp_cookies = cookies\<rparr>, w')"
    if "req_method r = Post" "req_url r = example_action" for r w
    using srv(8) [of r w] that by (simp add: example_answer_def) blast
  have form: "form_action login_form = example_action" "example_secret 16 \<noteq> []"
    by (simp_all add: login_form_def example_secret_def)
  show ?thesis
    unfolding takes_password_def form example_app_simps
    by (intro conjI exI [of _ 302] exI [of _ "''cb''"] exI [of _ "url_query example_redirect"]
        exI [of _ "[(''code'', ''x''), (''state'', example_secret 16)]"]
        exI [of _ "url_text example_redirect"])
      (use sends loc form in \<open>auto simp: login_form_def answers_of_def example_action_def example_url_def\<close>)
qed

lemma example_grants:
  assumes "example_server D"
  shows "grants_code D example_app ''x'' (example_secret 32) token_grant"
    "good_grant token_grant ''at'' (Some ''rt'') ''h.c.s''"
proof -
  note srv = example_serverD [OF assms]
  have p: "printed D token_grant (show_json token_grant)"
    by (auto simp: printed_def token_grant_def json_depth.simps intro!: valid_utf8_ascii)
  have "url_path example_url \<noteq> url_path example_action"
    by (simp add: example_url_def example_action_def)
  then have "\<exists>w' headers body cookies. printed D token_grant body \<and> http_send D r w =
      (Inr \<lparr>resp_status = 200, resp_headers = headers, resp_body = body, resp_cookies = cookies\<rparr>, w')"
    if "req_method r = Post" "req_url r = example_url" for r w
    using srv(8) [of r w] that p by (simp add: example_answer_def) blast
  then show "grants_code D example_app ''x'' (example_secret 32) token_grant"
    by (auto simp: grants_code_def code_fields_def example_redirect_def)
  show "good_grant token_grant ''at'' (Some ''rt'') ''h.c.s''"
    by (simp add: good_grant_def token_grant_def)
qed

lemma example_token:
  assumes "example_server D"
  shows "good_token D example_app signing_jwks (example_secret 16) ''h.c.s'' ''u''"
proof -
  note srv = example_serverD [OF assms]
  have p: "printed D jose_header (show_json jose_header)" "printed D id_claims (show_json id_claims)"
    by (auto simp: printed_def jose_header_def id_claims_def json_depth.simps number_ok_def srv(2)
        small_number_digit is_number_char_def is_digit_def intro!: valid_utf8_ascii)
  have s: "signs D signing_key ''k'' m ''s''" for m
    by (simp add: signs_def signing_key_def srv(1,3-6))
  have fields: "jget jose_header ''alg'' = Some (JString ''RS256'')"
    "jget jose_header ''kid'' = Some (JString ''k'')"
    "jget signing_jwks ''keys'' = Some (JArray [signing_key])"
    "jget id_claims ''iss'' = Some (JString ''https://kc.test/realms/test'')"
    "jget id_claims ''aud'' = Some (JString ''c'')" "jget id_claims ''azp'' = None"
    "jget id_claims ''nonce'' = Some (JString (example_secret 16))"
    "jget id_claims ''sub'' = Some (JString ''u'')" "jget id_claims ''nbf'' = None"
    "jget id_claims ''exp'' = Some (JNumber \<lparr>as_u64 = Some 9, number_text = ''9''\<rparr>)"
    "jget id_claims ''iat'' = Some (JNumber \<lparr>as_u64 = Some 7, number_text = ''7''\<rparr>)"
    by (simp_all add: jose_header_def signing_jwks_def id_claims_def)
  have clock: "\<exists>now w'. system_now D w = (Some now, w') \<and> 7 \<le> now + 60 \<and> now < 9 \<and>
      now + 60 < 2 ^ 64" for w
    using srv(9) [of w] by fastforce
  have jose_decoded: "b64_decode D ''h'' = Some (show_json jose_header)"
    "b64_decode D ''c'' = Some (show_json id_claims)" "b64_decode D ''s'' = Some ''s''"
    by (simp_all add: srv(1))
  show ?thesis
    unfolding good_token_def
    by (rule exI [of _ "''h''"],
        rule exI [of _ "''c''"],
        rule exI [of _ "''s''"],
        rule exI [of _ "show_json jose_header"],
        rule exI [of _ "jose_header"],
        rule exI [of _ "show_json id_claims"],
        rule exI [of _ "id_claims"],
        rule exI [of _ "''k''"],
        rule exI [of _ "[signing_key]"],
        rule exI [of _ "signing_key"],
        rule exI [of _ "''s''"],
        rule exI [of _ "9"],
        rule exI [of _ "7"],
        rule exI [of _ "\<lparr>as_u64 = Some 9, number_text = ''9''\<rparr>"],
        rule exI [of _ "\<lparr>as_u64 = Some 7, number_text = ''7''\<rparr>"],
        intro conjI, simp_all only: fields example_app_simps p s clock jose_decoded, simp_all)
qed

theorem honest_login_completes_witness:
  "\<exists>t s1 f2 s2. advance app_deps example_app Builtin (Username ''u'')
      (login_waiting, Keys signing_jwks, ()) = (Inr (Challenge Ask_Password), s1) \<and>
    advance app_deps example_app Builtin (Password ''p'') s1 = (Inr (Complete t), (f2, s2)) \<and>
    lifecycle f2 = Finished_State \<and> access_token t = ''at'' \<and> verified_subject t = Some ''u''"
proof -
  let ?p = "waiting_page\<lparr>pend_expect := Expect_Username, pend_queue := [Ask_Password],
     pend_answers := []\<rparr>"
  have asks: "asks_login example_app login_waiting ?p" "in_time app_deps login_waiting"
    by (simp_all add: asks_login_def login_waiting_def waiting_flow_def waiting_page_def in_time_def)
  have secrets: "oauth_state login_waiting = example_secret 16"
    "pkce_verifier login_waiting = example_secret 32" "flow_nonce login_waiting = example_secret 16"
    "pend_form ?p = login_form"
    by (simp_all add: login_waiting_def waiting_flow_def waiting_page_def)
  have srv: "example_server app_deps"
    by (simp add: example_server_def) (simp add: app_deps_def token_deps_def no_deps_def)
  have server: "takes_password app_deps example_app (pend_form ?p) ''u'' ''p'' (oauth_state login_waiting) ''x''"
    "grants_code app_deps example_app ''x'' (pkce_verifier login_waiting) token_grant"
    "good_grant token_grant ''at'' (Some ''rt'') ''h.c.s''"
    "good_token app_deps example_app signing_jwks (flow_nonce login_waiting) ''h.c.s'' ''u''"
    unfolding secrets
    by (rule example_takes [OF srv] example_grants [OF srv] example_token [OF srv])+
  from honest_login_completes [OF asks server, of "()"] show ?thesis by fastforce
qed

end
