(* ===== verification/Evidence.thy ===== *)
theory Evidence
  imports Completion
begin

text \<open>
  What a login does to the outside world, as the sequence of what it sent, was answered and read
  from the system's clock on the way, and what tokens rest on: the exchanges of this very login,
  in their order. \<open>Driver\<close> shows what a step leaves behind; here its result is traced to the
  responses it came from.
\<close>

subsection \<open>Traces\<close>

datatype observation = Sent request "error + response" | Clock "nat option"

text \<open>
  \<open>trace D idle w es w'\<close>: from the world \<open>w\<close> the world \<open>w'\<close> was reached by the observations \<open>es\<close> and
  no others; the monotonic clock and the steps \<open>idle\<close> leave no observation.
\<close>

inductive trace ::
  "'w deps \<Rightarrow> ('w \<Rightarrow> 'w \<Rightarrow> bool) \<Rightarrow> 'w \<Rightarrow> observation list \<Rightarrow> 'w \<Rightarrow> bool"
  for D :: "'w deps" and idle :: "'w \<Rightarrow> 'w \<Rightarrow> bool" and w0 :: 'w where
  nothing: "trace D idle w0 [] w0"
| sends: "trace D idle w0 es w \<Longrightarrow> http_send D r w = (x, w') \<Longrightarrow>
     trace D idle w0 (es @ [Sent r x]) w'"
| dates: "trace D idle w0 es w \<Longrightarrow> system_now D w = (t, w') \<Longrightarrow>
     trace D idle w0 (es @ [Clock t]) w'"
| instants: "trace D idle w0 es w \<Longrightarrow> trace D idle w0 es (snd (instant_now D w))"
| idles: "trace D idle w0 es w \<Longrightarrow> idle w w' \<Longrightarrow> trace D idle w0 es w'"

lemma trace_append:
  assumes "trace D idle w es w1" "trace D idle w1 es' w2"
  shows "trace D idle w (es @ es') w2"
  using assms(2,1)
proof (induction rule: trace.induct)
  case (sends es' w' r x w'')
  with trace.sends [of D idle w "es @ es'" w' r x w''] show ?case by simp
next
  case (dates es' w' t w'')
  with trace.dates [of D idle w "es @ es'" w' t w''] show ?case by simp
qed (auto intro: trace.instants trace.idles)

lemma trace_instant: "trace D idle w [] (snd (instant_now D w))"
  by (rule trace.instants) (rule trace.nothing)

lemma trace_sent: "http_send D r w = (x, w') \<Longrightarrow> trace D idle w [Sent r x] w'"
  using trace.sends [OF trace.nothing, of D r w x w' idle] by simp

lemma trace_dated: "system_now D w = (t, w') \<Longrightarrow> trace D idle w [Clock t] w'"
  using trace.dates [OF trace.nothing, of D w t w' idle] by simp

text \<open>A world that remembers what was observed: its memory is the trace, so the trace is unique.\<close>

definition remembers :: "'w deps \<Rightarrow> ('w \<Rightarrow> observation list) \<Rightarrow> bool" where
  "remembers D memory \<longleftrightarrow>
     (\<forall>r w. memory (snd (http_send D r w)) = memory w @ [Sent r (fst (http_send D r w))]) \<and>
     (\<forall>w. memory (snd (system_now D w)) = memory w @ [Clock (fst (system_now D w))]) \<and>
     (\<forall>w. memory (snd (instant_now D w)) = memory w)"

lemma trace_remembered:
  assumes "remembers D memory" "\<And>w w'. idle w w' \<Longrightarrow> memory w' = memory w"
    and "trace D idle w es w'"
  shows "memory w' = memory w @ es"
  using assms(3)
proof (induction rule: trace.induct)
  case (sends es w1 r x w2)
  have "memory (snd (http_send D r w1)) = memory w1 @ [Sent r (fst (http_send D r w1))]"
    using assms(1) by (simp add: remembers_def)
  with sends show ?case by simp
next
  case (dates es w1 t w2)
  have "memory (snd (system_now D w1)) = memory w1 @ [Clock (fst (system_now D w1))]"
    using assms(1) by (simp add: remembers_def)
  with dates show ?case by simp
qed (use assms(1,2) in \<open>auto simp: remembers_def\<close>)

subsection \<open>What completed tokens rest on\<close>

text \<open>A sound ID token, by these keys and at this time: what \<open>verify_id_token\<close> guarantees.\<close>

definition id_token_ok ::
  "'w deps \<Rightarrow> app \<Rightarrow> string \<Rightarrow> json \<Rightarrow> string \<Rightarrow> nat \<Rightarrow> json \<Rightarrow> bool" where
  "id_token_ok D a idt keys nonce now claims \<longleftrightarrow>
     properly_signed D idt keys claims \<and>
     str_field claims ''iss'' = Some (md_issuer (app_metadata a)) \<and>
     audience_matches claims (client_id (app_config a)) \<and>
     (\<exists>expiry issued. u64_field claims ''exp'' = Some expiry \<and> now < expiry \<and>
        u64_field claims ''iat'' = Some issued \<and> issued \<le> now + 60 \<and>
        (jget claims ''nbf'' = None \<or> (\<exists>t. u64_field claims ''nbf'' = Some t \<and> t \<le> now + 60))) \<and>
     str_field claims ''nonce'' = Some nonce"

text \<open>
  The keys in force after the verification: the known ones and nothing was fetched, or those the
  discovered JWKS address answered in between.
\<close>

definition keys_used :: "'w deps \<Rightarrow> app \<Rightarrow> jwks_lock \<Rightarrow> observation list \<Rightarrow> json \<Rightarrow> bool" where
  "keys_used D a k fetched keys \<longleftrightarrow>
     fetched = [] \<and> k = Keys keys \<or>
     (\<exists>resp. fetched = [Sent (request_get (jwks_uri (app_metadata a))) (Inr resp)] \<and>
        resp_status resp = 200 \<and> parse_value D (resp_body resp) = Some keys)"

text \<open>
  A redeemed code, as the last things observed: the token request with this code and verifier and
  its answer, the JWKS request where there was one, and the clock; the tokens are the answer's,
  their ID token sound by the keys now in force and at the time just read.
\<close>

definition code_redeemed ::
  "'w deps \<Rightarrow> app \<Rightarrow> string \<Rightarrow> string \<Rightarrow> string \<Rightarrow> jwks_lock \<Rightarrow> observation list \<Rightarrow> tokens \<Rightarrow>
   jwks_lock \<Rightarrow> bool" where
  "code_redeemed D a c verifier nonce k es t k' \<longleftrightarrow>
     (\<exists>req resp fetched now idt keys claims subject granted.
        es = Sent req (Inr resp) # fetched @ [Clock (Some now)] \<and>
        request_form D (token_endpoint (app_metadata a)) (code_fields a c verifier) = Inr req \<and>
        read_grant D True resp = Inr granted \<and> id_token granted = Some idt \<and>
        keys_used D a k fetched keys \<and> k' = Keys keys \<and>
        id_token_ok D a idt keys nonce now claims \<and>
        str_field claims ''sub'' = Some subject \<and> subject \<noteq> [] \<and>
        t = mark_verified a (Some subject) granted)"

text \<open>
  The evidence of a completed login: the response before the token request was a redirect to the
  registered callback with this login's state, once, no error, and one code, which was redeemed.
\<close>

definition login_evidence ::
  "'w deps \<Rightarrow> app \<Rightarrow> string \<Rightarrow> string \<Rightarrow> string \<Rightarrow> jwks_lock \<Rightarrow> observation list \<Rightarrow> tokens \<Rightarrow>
   jwks_lock \<Rightarrow> bool" where
  "login_evidence D a sent_state verifier nonce k es t k' \<longleftrightarrow>
     (\<exists>before req resp red c seen rest.
        es = before @ Sent req (Inr resp) # Clock seen # rest \<and>
        read_response D (req_url req) resp = Inr (Redirect red) \<and>
        same_endpoint (location red) (redirect_uri (app_config a)) \<and>
        sent_state \<noteq> [] \<and> values_of ''state'' (url_pairs (location red)) = [sent_state] \<and>
        values_of ''error'' (url_pairs (location red)) = [] \<and>
        values_of ''code'' (url_pairs (location red)) = [c] \<and> c \<noteq> [] \<and>
        code_redeemed D a c verifier nonce k rest t k')"

lemma login_evidence_earlier:
  assumes "login_evidence D a sent_state verifier nonce k es t k'"
  shows "login_evidence D a sent_state verifier nonce k (earlier @ es) t k'"
proof -
  from assms obtain before req resp red c seen rest where e:
    "es = before @ Sent req (Inr resp) # Clock seen # rest"
    and r: "read_response D (req_url req) resp = Inr (Redirect red)"
      "same_endpoint (location red) (redirect_uri (app_config a))"
      "sent_state \<noteq> []" "values_of ''state'' (url_pairs (location red)) = [sent_state]"
      "values_of ''error'' (url_pairs (location red)) = []"
      "values_of ''code'' (url_pairs (location red)) = [c]" "c \<noteq> []"
      "code_redeemed D a c verifier nonce k rest t k'"
    unfolding login_evidence_def by blast
  have "earlier @ es = (earlier @ before) @ Sent req (Inr resp) # Clock seen # rest" by (simp add: e)
  with r show ?thesis unfolding login_evidence_def by blast
qed

subsection \<open>The operations, traced\<close>

lemma verify_id_token_traced:
  assumes "verify_id_token D idt keys (md_issuer (app_metadata a)) (client_id (app_config a))
    (Some nonce) w = (Inr claims, w')"
  shows "\<exists>now subject. trace D idle w [Clock (Some now)] w' \<and> id_token_ok D a idt keys nonce now claims \<and>
    str_field claims ''sub'' = Some subject \<and> subject \<noteq> []"
proof -
  have sat: "t \<le> saturating_add now 60 \<Longrightarrow> t \<le> now + 60" for t now :: nat
    by (simp add: saturating_add_def)
  from assms obtain now where now: "system_now D w = (Some now, w')"
    and c: "signed_claims D idt keys = Inr claims" "timely claims (Some nonce) now = Inr ()"
      "str_field claims ''iss'' = Some (md_issuer (app_metadata a))"
      "audience_matches claims (client_id (app_config a))"
    by (auto simp: verify_id_token_def try_io_eq_Inr validate_claims_Inr)
  have "id_token_ok D a idt keys nonce now claims"
    using c signed_claims_Inr [OF c(1)] sat unfolding id_token_ok_def timely_iff by blast
  moreover from c(2) obtain subject where "str_field claims ''sub'' = Some subject" "subject \<noteq> []"
    unfolding timely_iff by blast
  ultimately show ?thesis using trace_dated [OF now] by blast
qed

lemma fetch_jwks_traced:
  assumes "fetch_jwks D u w = (Inr keys, w')"
  shows "\<exists>resp. trace D idle w [Sent (request_get u) (Inr resp)] w' \<and> resp_status resp = 200 \<and>
    parse_value D (resp_body resp) = Some keys"
  using assms by (auto simp: fetch_jwks_def try_io_eq_Inr split: if_splits intro: trace_sent)

lemma redeem_code_traced:
  assumes "redeem_code D a c verifier nonce (k, w) = (Inr t, (k', w'))"
  shows "\<exists>es. trace D idle w es w' \<and> code_redeemed D a c verifier nonce k es t k'"
proof -
  from assms obtain granted claims subject w1 where
    g: "acquire D (token_endpoint (app_metadata a)) (code_fields a c verifier) True w = (Inr granted, w1)"
    and v: "verify_tokens D a granted (Some nonce) (k, w1) = (Inr claims, (k', w'))"
    and t: "str_field claims ''sub'' = Some subject" "t = mark_verified a (Some subject) granted"
    unfolding code_fields_def by (rule redeem_code_Inr)
  from g obtain req resp where r:
    "request_form D (token_endpoint (app_metadata a)) (code_fields a c verifier) = Inr req"
    "http_send D req w = (Inr resp, w1)" "read_grant D True resp = Inr granted"
    by (auto simp: acquire_def try_io_eq_Inr)
  from v obtain idt kid alg known keys w2 where i: "id_token granted = Some idt" "k = Keys known"
    "k' = Keys keys"
    "if jwks_has_eligible_key known kid alg then keys = known \<and> w2 = w1
     else fetch_jwks D (jwks_uri (app_metadata a)) w1 = (Inr keys, w2)"
    "verify_id_token D idt keys (md_issuer (app_metadata a)) (client_id (app_config a)) (Some nonce) w2 =
      (Inr claims, w')"
    unfolding verify_tokens_Inr by blast
  have "\<exists>fetched. trace D idle w1 fetched w2 \<and> keys_used D a k fetched keys"
  proof (cases "jwks_has_eligible_key known kid alg")
    case True
    with i(2,4) show ?thesis
      by (intro exI [of _ "[]"]) (auto simp: keys_used_def intro: trace.nothing)
  next
    case False
    with i(4) fetch_jwks_traced [of D "jwks_uri (app_metadata a)" w1 keys w2 idle]
    show ?thesis unfolding keys_used_def by fastforce
  qed
  then obtain fetched where f: "trace D idle w1 fetched w2" "keys_used D a k fetched keys" by blast
  from verify_id_token_traced [OF i(5), of idle] t(1) obtain now where
    n: "trace D idle w2 [Clock (Some now)] w'" "id_token_ok D a idt keys nonce now claims" "subject \<noteq> []"
    by auto
  let ?es = "Sent req (Inr resp) # fetched @ [Clock (Some now)]"
  have "trace D idle w ?es w'"
    using trace_append [OF trace_sent [OF r(2)] trace_append [OF f(1) n(1)]] by simp
  moreover have "code_redeemed D a c verifier nonce k ?es t k'"
    unfolding code_redeemed_def using r(1,3) i(1,3) f(2) n(2,3) t by blast
  ultimately show ?thesis by blast
qed

text \<open>A page or redirect and the exchange it was read from, as the last of a trace.\<close>

definition fetched_by ::
  "'w deps \<Rightarrow> ('w \<Rightarrow> 'w \<Rightarrow> bool) \<Rightarrow> 'w \<Rightarrow> observation list \<Rightarrow> 'w \<Rightarrow> fetched \<Rightarrow> bool" where
  "fetched_by D idle w0 es w x \<longleftrightarrow> trace D idle w0 es w \<and>
     (\<exists>before req resp seen. es = before @ [Sent req (Inr resp), Clock seen] \<and>
        read_response D (req_url req) resp = Inr x)"

lemma fetch_send_traced:
  assumes "fetch_send D r (jar, w) = (Inr x, (jar', w'))"
  shows "\<exists>req resp first last. req_url req = req_url r \<and> req_method req = req_method r \<and>
    trace D idle w [Clock first, Sent req (Inr resp), Clock last] w' \<and>
    read_response D (req_url req) resp = Inr x"
proof -
  obtain first w1 where s1: "system_now D w = (first, w1)" by (cases "system_now D w")
  define now where "now = (case first of None \<Rightarrow> 0 | Some secs \<Rightarrow> secs)"
  define req where "req = r\<lparr>req_cookies := lines_at jar (req_url r) now\<rparr>"
  have u1: "unix_now D w = (now, w1)" by (simp add: unix_now_def s1 now_def)
  from assms obtain resp w2 where h: "http_send D req w1 = (Inr resp, w2)"
    by (auto simp: fetch_send_def u1 req_def split: if_splits prod.splits sum.splits)
  obtain last w3 where s2: "system_now D w2 = (last, w3)" by (cases "system_now D w2")
  then obtain now' where u2: "unix_now D w2 = (now', w3)" by (simp add: unix_now_def)
  from assms h u1 u2 have x: "read_response D (req_url r) resp = Inr x" "w' = w3"
    by (auto simp: fetch_send_def req_def split: if_splits)
  have "trace D idle w ([Clock first] @ [Sent req (Inr resp)] @ [Clock last]) w3"
    by (intro trace_append [OF trace_dated [OF s1]] trace_append [OF trace_sent [OF h]] trace_dated [OF s2])
  with x show ?thesis by (intro exI [of _ req]) (auto simp: req_def)
qed

lemma fetch_get_by:
  assumes "fetch_get D u (jar, w) = (Inr x, (jar', w'))"
  shows "\<exists>es. fetched_by D idle w es w' x"
  using fetch_send_traced [OF assms [unfolded fetch_get_def], of idle]
  unfolding fetched_by_def by (metis append_Cons append_Nil)

lemma post_page_by:
  assumes "post_page D factors p (jar, w) = (Inr x, (jar', w'))"
  shows "\<exists>es. fetched_by D idle w es w' x"
proof -
  from assms obtain r where "fetch_send D r (jar, w) = (Inr x, (jar', w'))"
    by (auto simp: post_page_def submit_def post_form_def try_io_eq_Inr)
  from fetch_send_traced [OF this, of idle] show ?thesis
    unfolding fetched_by_def by (metis append_Cons append_Nil)
qed

lemma fetched_later:
  assumes "trace D idle w0 es w" "fetched_by D idle w es' w' x"
  shows "fetched_by D idle w0 (es @ es') w' x"
  using assms trace_append [OF assms(1)] unfolding fetched_by_def by (metis append_assoc)

text \<open>What a step that goes on keeps, and what one that completes shows.\<close>

definition secrets :: "auth_flow \<Rightarrow> string \<times> string \<times> string" where
  "secrets f = (oauth_state f, pkce_verifier f, flow_nonce f)"

definition step_traced ::
  "'w deps \<Rightarrow> app \<Rightarrow> auth_flow \<Rightarrow> jwks_lock \<Rightarrow> observation list \<Rightarrow> auth_step \<Rightarrow> auth_flow \<Rightarrow>
   jwks_lock \<Rightarrow> bool" where
  "step_traced D a f k es step f' k' \<longleftrightarrow>
     (case step of
        Challenge c \<Rightarrow> k' = k \<and> secrets f' = secrets f
      | Complete t \<Rightarrow>
          login_evidence D a (oauth_state f) (pkce_verifier f) (flow_nonce f) k es t k'
      | Failed reason \<Rightarrow> True)"

lemma step_traced_same:
  "secrets f1 = secrets f \<Longrightarrow> step_traced D a f1 k es step f' k' = step_traced D a f k es step f' k'"
  by (simp add: step_traced_def secrets_def split: auth_step.split)

lemma step_traced_earlier:
  "step_traced D a f k es step f' k' \<Longrightarrow> step_traced D a f k (earlier @ es) step f' k'"
  by (auto simp: step_traced_def login_evidence_earlier split: auth_step.splits)

lemma completes_traced:
  assumes "complete_at_callback D a red (f, k, w) = (Inr (Some step), (f', k', w'))"
    and "fetched_by D idle w0 es w (Redirect red)"
  shows "\<exists>es'. trace D idle w0 (es @ es') w' \<and> step_traced D a f k (es @ es') step f' k'"
proof -
  from complete_at_callback_Some [OF assms(1)] obtain t c w1 where s: "step = Complete t"
    "same_endpoint (location red) (redirect_uri (app_config a))"
    "callback_result (oauth_state f) (url_pairs (location red)) = Inr c"
    "exchange_code D a c (f, k, w1) = (Inr t, (f', k', w'))"
    "w1 = snd (instant_now D (snd (instant_now D w)))" by blast
  from exchange_code_Inr [OF s(4)] obtain w2 w3 now where x:
    "redeem_code D a c (pkce_verifier f) (flow_nonce f) (k, w2) = (Inr t, (k', w3))"
    "instant_now D w3 = (now, w')" "w2 = snd (instant_now D w1)" by blast
  from redeem_code_traced [OF x(1), of idle] obtain rest where rest: "trace D idle w2 rest w3"
    "code_redeemed D a c (pkce_verifier f) (flow_nonce f) k rest t k'" by blast
  from assms(2) obtain before req resp seen where e: "trace D idle w0 es w"
    "es = before @ [Sent req (Inr resp), Clock seen]"
    "read_response D (req_url req) resp = Inr (Redirect red)" unfolding fetched_by_def by blast
  have "trace D idle w0 es w2" using e(1) s(5) x(3) by (simp add: trace.instants)
  from trace_append [OF this rest(1)] have "trace D idle w0 (es @ rest) w'"
    using trace.instants x(2) by (metis snd_conv)
  moreover have "login_evidence D a (oauth_state f) (pkce_verifier f) (flow_nonce f) k (es @ rest) t k'"
    using s(2,3) e(2,3) rest(2) unfolding login_evidence_def callback_result_Inr
    by (metis append.assoc append_Cons append_Nil)
  ultimately show ?thesis using s(1) by (auto simp: step_traced_def)
qed

lemma shows_traced:
  assumes "present D factors p (f, k, w) = (Inr step, (f', k', w'))" "\<And>r. step \<noteq> Failed r"
  shows "w' = w \<and> step_traced D a f k es step f' k'"
  using assms(1)
proof (cases rule: present_Inr)
  case (asks kind form factor c queue)
  then show ?thesis by (simp add: step_traced_def secrets_def)
qed (use assms(2) in simp)

lemma resolve_traced:
  assumes "resolve D a factors hops posted answer (f, k, w) = (Inr step, (f', k', w'))"
    and "fetched_by D idle w0 es w answer" "\<And>r. step \<noteq> Failed r"
  shows "\<exists>es'. trace D idle w0 (es @ es') w' \<and> step_traced D a f k (es @ es') step f' k'"
  using assms(1,2)
proof (induction hops arbitrary: posted answer f k w es)
  case 0
  from "0.prems"(1) show ?case
  proof (cases rule: resolve_Inr)
    case (shows_page p w1)
    from shows_traced [OF shows_page(4) assms(3)] "0.prems"(2) shows_page(5)
    show ?thesis by (auto simp: fetched_by_def intro!: exI [of _ "[]"] trace.instants)
  next
    case (completes red w1)
    have "fetched_by D idle w0 es w1 (Redirect red)"
      using "0.prems"(2) completes(2,5) by (auto simp: fetched_by_def intro: trace.instants)
    with completes_traced [OF completes(4)] show ?thesis by blast
  qed simp
next
  case (Suc hops)
  from Suc.prems(1) show ?case
  proof (cases rule: resolve_Inr)
    case (shows_page p w1)
    from shows_traced [OF shows_page(4) assms(3)] Suc.prems(2) shows_page(5)
    show ?thesis by (auto simp: fetched_by_def intro!: exI [of _ "[]"] trace.instants)
  next
    case (completes red w1)
    have "fetched_by D idle w0 es w1 (Redirect red)"
      using Suc.prems(2) completes(2,5) by (auto simp: fetched_by_def intro: trace.instants)
    with completes_traced [OF completes(4)] show ?thesis by blast
  next
    case (follows red n w1 w2 j w3 next_answer)
    from fetch_get_by [OF follows(7), of idle] obtain es1 where "fetched_by D idle w2 es1 w3 next_answer"
      by blast
    moreover have "trace D idle w0 es w2"
      using Suc.prems(2) follows(9,10) by (auto simp: fetched_by_def intro: trace.instants)
    ultimately have "fetched_by D idle w0 (es @ es1) w3 next_answer" by (rule fetched_later [rotated])
    with Suc.IH [of False next_answer "f\<lparr>flow_jar := j\<rparr>" k w3 "es @ es1"] follows(6,8)
    obtain es' where "trace D idle w0 (es @ es1 @ es') w'"
      "step_traced D a (f\<lparr>flow_jar := j\<rparr>) k (es @ es1 @ es') step f' k'" by auto
    moreover have "secrets (f\<lparr>flow_jar := j\<rparr>) = secrets f" by (simp add: secrets_def)
    ultimately show ?thesis using step_traced_same by blast
  qed
qed

text \<open>The two steps of a login.\<close>

lemma advance_traced:
  assumes "advance D a factors ans (f, k, w) = (Inr step, (f', k', w'))" "\<And>r. step \<noteq> Failed r"
  shows "\<exists>es. trace D idle w es w' \<and> step_traced D a f k es step f' k'"
proof -
  from assms(1) have "answer_page D a factors ans (f, k, w) = (Inr step, (f', k', w'))"
    by (simp add: advance_def unless_ok_eq)
  then show ?thesis
  proof (cases rule: answer_page_Inr)
    case (asks_next p c rest)
    with trace_instant [of D idle w] show ?thesis by (auto simp: step_traced_def secrets_def)
  next
    case (posts p w1 j w2 answer)
    from post_page_by [OF posts(6), of idle] obtain es where es: "fetched_by D idle w1 es w2 answer"
      by blast
    have "trace D idle w [] w1" using posts(8) trace_instant by simp
    from fetched_later [OF this es] have "fetched_by D idle w es w2 answer" by simp
    from resolve_traced [OF posts(7) this assms(2)] obtain es' where
      "trace D idle w (es @ es') w'"
      "step_traced D a (f\<lparr>pending := None, flow_jar := j\<rparr>) k (es @ es') step f' k'" by blast
    moreover have "secrets (f\<lparr>pending := None, flow_jar := j\<rparr>) = secrets f" by (simp add: secrets_def)
    ultimately show ?thesis using step_traced_same by blast
  qed
qed

text \<open>The parameters a login asks for with its own secrets.\<close>

definition login_parameters :: "app \<Rightarrow> start \<Rightarrow> auth_flow \<Rightarrow> authorization_parameters" where
  "login_parameters a st f =
     \<lparr>ap_client_id = client_id (app_config a), ap_redirect_uri = redirect_uri (app_config a),
      ap_login_hint = start_login_hint st, ap_scopes = start_scopes st,
      ap_pkce_verifier = pkce_verifier f, ap_state = oauth_state f, ap_nonce = flow_nonce f\<rparr>"

lemma begin_traced:
  assumes "begin_login D a factors st (f, k, w) = (Inr step, (f', k', w'))" "\<And>r. step \<noteq> Failed r"
  shows "\<exists>u first req x es.
    authorization_url D (authorization_endpoint (app_metadata a)) (login_parameters a st f) = Inr u \<and>
    req_method req = Get \<and> req_url req = u \<and>
    trace D idle w (Clock first # Sent req x # es) w' \<and>
    step_traced D a f k (Clock first # Sent req x # es) step f' k'"
proof -
  from assms(1) have run: "first_page D a factors st (f, k, w) = (Inr step, (f', k', w'))"
    by (simp add: begin_login_def unless_ok_eq)
  let ?f = "f\<lparr>flow_client := login_client a, login_hint := start_login_hint st\<rparr>"
  from run obtain u answer j w2 where
    u: "authorization_url D (authorization_endpoint (app_metadata a)) (login_parameters a st f) = Inr u"
    and g: "fetch_get D u (flow_jar f, snd (instant_now D w)) = (Inr answer, (j, w2))"
    and r: "resolve D a factors MAX_REDIRECTS False answer (?f\<lparr>flow_jar := j\<rparr>, k, w2) =
      (Inr step, (f', k', w'))"
    by (auto simp: first_page_def try_io_eq_Inr on_flow_eq on_jar_eq app_authorization_url_def
        ensure_active_Inr login_parameters_def)
  from fetch_send_traced [OF g [unfolded fetch_get_def], of idle] obtain req resp first last where
    q: "req_url req = u" "req_method req = Get"
      "trace D idle (snd (instant_now D w)) [Clock first, Sent req (Inr resp), Clock last] w2"
      "read_response D (req_url req) resp = Inr answer"
    by (auto simp: request_get_def)
  let ?es = "[Clock first, Sent req (Inr resp), Clock last]"
  have "fetched_by D idle w ?es w2 answer"
    using trace_append [OF trace_instant q(3)] q(4) unfolding fetched_by_def
    by (metis append_Cons append_Nil)
  from resolve_traced [OF r this assms(2)] obtain es' where
    "trace D idle w (?es @ es') w'"
    "step_traced D a (?f\<lparr>flow_jar := j\<rparr>) k (?es @ es') step f' k'" by blast
  moreover have "secrets (?f\<lparr>flow_jar := j\<rparr>) = secrets f" by (simp add: secrets_def)
  ultimately have "trace D idle w (?es @ es') w' \<and> step_traced D a f k (?es @ es') step f' k'"
    using step_traced_same by blast
  then have "trace D idle w (Clock first # Sent req (Inr resp) # (Clock last # es')) w' \<and>
      step_traced D a f k (Clock first # Sent req (Inr resp) # (Clock last # es')) step f' k'" by simp
  with u q(1,2) show ?thesis by blast
qed

subsection \<open>A completed login\<close>

text \<open>
  C1. What a completed login rests on. In a world that remembers what the engine sends and reads,
  when answering a login completes it with tokens, then the login was active and was begun by this
  client, and what this step itself observed determines the tokens: the last answer before the token
  request was a redirect to the registered callback address, carrying exactly this login's state, no
  error and one code; the token request carried that code and this login's verifier; the tokens are
  those of its answer, and their ID token is properly signed by the keys in force (the known ones, or
  those just fetched from the discovered address), for this issuer, this client and this login's
  nonce, and valid at the time read last. The login is finished then and its secrets are wiped.
\<close>

theorem login_complete_sound:
  assumes "remembers D memory"
    and "advance D a factors ans (f, k, w) = (Inr (Complete t), (f', k', w'))"
  shows "lifecycle f = Active \<and> flow_client f = login_client a \<and>
    (let es = drop (length (memory w)) (memory w') in
       memory w' = memory w @ es \<and>
       login_evidence D a (oauth_state f) (pkce_verifier f) (flow_nonce f) k es t k') \<and>
    lifecycle f' = Finished_State \<and> wiped f'"
proof -
  have step: "Complete t \<noteq> Failed r" for r by simp
  from advance_traced [OF assms(2) step, of "\<lambda>_ _. False"] obtain es where
    es: "trace D (\<lambda>_ _. False) w es w'" "step_traced D a f k es (Complete t) f' k'" by blast
  have "memory w' = memory w @ es" using trace_remembered [OF assms(1) _ es(1)] by simp
  moreover have "lifecycle f' = Finished_State \<and> wiped f'"
    using advance_outcome [OF assms(2)] by (simp add: outcome_ok_def)
  moreover from assms(2) have "answer_page D a factors ans (f, k, w) = (Inr (Complete t), (f', k', w'))"
    by (simp add: advance_def unless_ok_eq)
  then have "lifecycle f = Active \<and> flow_client f = login_client a"
    by (cases rule: answer_page_Inr) auto
  ultimately show ?thesis using es(2) by (simp add: step_traced_def)
qed

text \<open>The example server in a world that remembers.\<close>

definition remembering :: "observation list deps" where
  "remembering = no_deps\<lparr>b64_encode := b64_encode token_deps, b64_decode := b64_decode token_deps,
     parse_number := small_number, tokenize := tokenize token_deps,
     url_join := (\<lambda>_ t. Some (if t = ''a'' then example_action else example_callback)),
     http_send := (\<lambda>r w. (Inr (example_answer r), w @ [Sent r (Inr (example_answer r))])),
     system_now := (\<lambda>w. (Some 0, w @ [Clock (Some 0)]))\<rparr>"

theorem login_complete_sound_witness:
  "\<exists>f1 f' k' w' t. advance remembering example_app Builtin (Username ''u'')
       (login_waiting, Keys signing_jwks, []) = (Inr (Challenge Ask_Password), (f1, Keys signing_jwks, [])) \<and>
     advance remembering example_app Builtin (Password ''p'') (f1, Keys signing_jwks, []) =
       (Inr (Complete t), (f', k', w')) \<and>
     login_evidence remembering example_app (oauth_state f1) (pkce_verifier f1) (flow_nonce f1)
       (Keys signing_jwks) w' t k'"
proof -
  let ?p = "waiting_page\<lparr>pend_expect := Expect_Username, pend_queue := [Ask_Password],
     pend_answers := []\<rparr>"
  have asks: "asks_login example_app login_waiting ?p" "in_time remembering login_waiting"
    by (simp_all add: asks_login_def login_waiting_def waiting_flow_def waiting_page_def in_time_def
        remembering_def no_deps_def)
  have secrets: "oauth_state login_waiting = example_secret 16"
    "pkce_verifier login_waiting = example_secret 32" "flow_nonce login_waiting = example_secret 16"
    "pend_form ?p = login_form"
    by (simp_all add: login_waiting_def waiting_flow_def waiting_page_def)
  have srv: "example_server remembering"
    by (simp add: example_server_def) (simp add: remembering_def no_deps_def)
  have server: "takes_password remembering example_app (pend_form ?p) ''u'' ''p'' (oauth_state login_waiting) ''x''"
    "grants_code remembering example_app ''x'' (pkce_verifier login_waiting) token_grant"
    "good_grant token_grant ''at'' (Some ''rt'') ''h.c.s''"
    "good_token remembering example_app signing_jwks (flow_nonce login_waiting) ''h.c.s'' ''u''"
    unfolding secrets
    by (rule example_takes [OF srv] example_grants [OF srv] example_token [OF srv])+
  have quiet: "snd (instant_now remembering w) = w" for w by (simp add: remembering_def no_deps_def)
  from honest_completes [OF asks server_honest [OF server], of "[]"]
    username_answered [OF asks, of "''u''" "Keys signing_jwks" "[]"] quiet
  obtain f1 f' s' t where run: "advance remembering example_app Builtin (Username ''u'')
       (login_waiting, Keys signing_jwks, []) = (Inr (Challenge Ask_Password), (f1, Keys signing_jwks, []))"
    "advance remembering example_app Builtin (Password ''p'') (f1, Keys signing_jwks, []) =
       (Inr (Complete t), (f', s'))" by fastforce
  obtain k' w' where s': "s' = (k', w')" by (cases s')
  have "remembers remembering (\<lambda>w. w)"
    by (simp add: remembers_def) (simp add: remembering_def no_deps_def)
  from login_complete_sound [OF this run(2) [unfolded s']]
  have "login_evidence remembering example_app (oauth_state f1) (pkce_verifier f1) (flow_nonce f1)
       (Keys signing_jwks) w' t k'" by (simp add: Let_def)
  with run s' show ?thesis by blast
qed

end
