(* ===== verification/Admin.thy ===== *)
theory Admin
  imports Traffic Utf8
begin

text \<open>
  \<open>src/admin.rs\<close>: reading the members of one group with a service account. The list of members is
  read page by page; the set of identifiers seen so far is the set of the identifiers of the
  members kept, which the loop extends together.
\<close>

definition PAGE_SIZE :: nat where "PAGE_SIZE = 100"
definition MAX_MEMBERS :: nat where "MAX_MEMBERS = 100000"

definition admin_validate :: "config \<Rightarrow> string \<Rightarrow> string \<Rightarrow> unit res" where
  "admin_validate c group_id secret =
     try_res (validate c) (\<lambda>_.
       if group_id = [] \<or> group_id \<in> {''.'', ''..''} \<or>
          list_ex (\<lambda>ch. is_control ch \<or> ch = 0x2F \<or> ch = 0x5C) (chars group_id)
       then Inl (InvalidConfiguration ''allowed group ID'')
       else if secret = [] then Inl (InvalidConfiguration ''service account secret'')
       else Inr ())"

definition admin_endpoint :: "'w deps \<Rightarrow> config \<Rightarrow> string list \<Rightarrow> url res" where
  "admin_endpoint D c segs =
     ok_or (url_push_segments D (server_url c) segs) (InvalidConfiguration ''server URL'')"

text \<open>The members of one page; the first invalid or repeated one refuses the whole result.\<close>

fun add_members :: "group_member list \<Rightarrow> group_member list \<Rightarrow> group_member list res" where
  "add_members members [] = Inr members"
| "add_members members (m # page) =
     (if member_id m = [] \<or> trim (member_username m) = [] \<or>
         member_id m \<in> set (map member_id members)
      then Inl (Protocol ''invalid or repeated group member'')
      else add_members (members @ [m]) page)"

lemma add_members_Inr:
  "add_members members page = Inr ms \<longleftrightarrow>
     ms = members @ page \<and>
     list_all (\<lambda>m. member_id m \<noteq> [] \<and> trim (member_username m) \<noteq> []) page \<and>
     distinct (map member_id page) \<and>
     set (map member_id page) \<inter> set (map member_id members) = {}"
proof (induction members page rule: add_members.induct)
  case (2 members m page)
  show ?case
  proof (cases "member_id m = [] \<or> trim (member_username m) = [] \<or>
         member_id m \<in> set (map member_id members)")
    case True
    then show ?thesis by auto
  next
    case False
    with "2.IH" [OF False] show ?thesis by auto
  qed
qed auto

definition members_request :: "'w deps \<Rightarrow> url \<Rightarrow> string \<Rightarrow> nat \<Rightarrow> request" where
  "members_request D base access n =
     (request_get (url_append_pairs D base [(''first'', show_nat n),
        (''max'', show_nat PAGE_SIZE), (''briefRepresentation'', ''true'')]))
       \<lparr>req_headers := [''Authorization: Bearer '' @ access, ''Accept: application/json'']\<rparr>"

definition read_page :: "'w deps \<Rightarrow> response \<Rightarrow> group_member list res" where
  "read_page D response =
     (if resp_status response \<noteq> 200 then Inl (HttpStatus (resp_status response))
      else ok_or (parse_members D (resp_body response)) (Protocol ''invalid group member response''))"

function read_members ::
  "'w deps \<Rightarrow> url \<Rightarrow> string \<Rightarrow> group_member list \<Rightarrow> ('w, group_member list) act" where
  "read_members D base access members =
     try_io (http_send D (members_request D base access (length members))) (\<lambda>response.
     try_io (lift (read_page D response)) (\<lambda>page.
       if PAGE_SIZE < length page \<or> MAX_MEMBERS < length members + length page
       then throw (Protocol ''group member limit exceeded'')
       else if page = [] then ret members
       else (case add_members members page of
               Inl e \<Rightarrow> throw e
             | Inr members' \<Rightarrow> read_members D base access members')))"
  by pat_completeness auto
termination
  by (relation "measure (\<lambda>(_, _, _, members). MAX_MEMBERS - length members)")
    (auto simp: add_members_Inr neq_Nil_conv)

declare read_members.simps [simp del]

definition read_with_transport ::
  "'w deps \<Rightarrow> config \<Rightarrow> string \<Rightarrow> string \<Rightarrow> ('w, group_member list) act" where
  "read_with_transport D c group_id secret =
     try_io (lift (admin_validate c group_id secret)) (\<lambda>_.
     try_io (lift (admin_endpoint D c [''realms'', realm c, ''protocol'', ''openid-connect'', ''token'']))
       (\<lambda>token_url.
     try_io (acquire D token_url [(''grant_type'', ''client_credentials''),
         (''client_id'', client_id c), (''client_secret'', secret)] False) (\<lambda>t.
       if \<not> list_all is_ascii_graphic (access_token t)
       then throw (Protocol ''invalid service account token'')
       else try_io (lift (admin_endpoint D c
              [''admin'', ''realms'', realm c, ''groups'', group_id, ''members''])) (\<lambda>base.
            read_members D base (access_token t) []))))"

definition read_allowed_group ::
  "string option \<Rightarrow> 'w deps \<Rightarrow> config \<Rightarrow> string \<Rightarrow> string \<Rightarrow> ('w, group_member list) act" where
  "read_allowed_group backend D c group_id secret =
     try_io (lift (admin_validate c group_id secret)) (\<lambda>_.
     try_io (lift (transport_new backend (ca_bundle c) (timeout c))) (\<lambda>_.
       read_with_transport D c group_id secret))"

subsection \<open>What a result is\<close>

definition members_ok :: "group_member list \<Rightarrow> bool" where
  "members_ok ms \<longleftrightarrow>
     length ms \<le> MAX_MEMBERS \<and> distinct (map member_id ms) \<and>
     list_all (\<lambda>m. member_id m \<noteq> [] \<and> trim (member_username m) \<noteq> []) ms"

text \<open>
  What the server answered: from the world \<open>w\<close> on, the requests for the members from number \<open>n\<close> on
  were answered with these pages and then with an empty one, which led to the world \<open>w'\<close>.
\<close>

inductive answered_pages ::
  "'w deps \<Rightarrow> url \<Rightarrow> string \<Rightarrow> nat \<Rightarrow> 'w \<Rightarrow> group_member list list \<Rightarrow> 'w \<Rightarrow> bool"
  for D :: "'w deps" and base :: url and access :: string where
  last_page: "http_send D (members_request D base access n) w = (Inr response, w') \<Longrightarrow>
     resp_status response = 200 \<Longrightarrow> parse_members D (resp_body response) = Some [] \<Longrightarrow>
     answered_pages D base access n w [] w'"
| another_page: "http_send D (members_request D base access n) w = (Inr response, w1) \<Longrightarrow>
     resp_status response = 200 \<Longrightarrow> parse_members D (resp_body response) = Some page \<Longrightarrow>
     page \<noteq> [] \<Longrightarrow> length page \<le> 100 \<Longrightarrow>
     answered_pages D base access (n + length page) w1 pages w' \<Longrightarrow>
     answered_pages D base access n w (page # pages) w'"

lemma read_page_Inr:
  "read_page D response = Inr page \<longleftrightarrow>
     resp_status response = 200 \<and> parse_members D (resp_body response) = Some page"
  by (auto simp: read_page_def)

lemma read_members_Inr:
  assumes "read_members D base access members w = (Inr ms, w')" "members_ok members"
  shows "members_ok ms \<and> (\<exists>pages. ms = members @ concat pages \<and>
    answered_pages D base access (length members) w pages w')"
  using assms
proof (induction D base access members arbitrary: w rule: read_members.induct)
  case (1 D base access members)
  from "1.prems"(1) obtain response w1 page where
    h: "http_send D (members_request D base access (length members)) w = (Inr response, w1)"
    "resp_status response = 200" "parse_members D (resp_body response) = Some page" and
    r: "(if PAGE_SIZE < length page \<or> MAX_MEMBERS < length members + length page
       then throw (Protocol ''group member limit exceeded'')
       else if page = [] then ret members
       else (case add_members members page of
               Inl e \<Rightarrow> throw e
             | Inr members' \<Rightarrow> read_members D base access members')) w1 = (Inr ms, w')"
    by (subst (asm) read_members.simps) (auto simp: try_io_eq_Inr read_page_Inr)
  show ?case
  proof (cases "page = []")
    case True
    with r h "1.prems"(2) have "ms = members" "w' = w1" by (auto split: if_splits)
    with last_page [OF h(1,2)] h(3) True "1.prems"(2) show ?thesis
      by (intro conjI exI [of _ "[]"]) simp_all
  next
    case False
    with r obtain members' where a: "add_members members page = Inr members'"
      and rec: "read_members D base access members' w1 = (Inr ms, w')"
      and b: "length page \<le> PAGE_SIZE" "length members + length page \<le> MAX_MEMBERS"
      by (auto split: if_splits sum.splits)
    from a b "1.prems"(2) have ok: "members' = members @ page" "members_ok members'"
      by (auto simp: add_members_Inr members_ok_def)
    have c: "\<not> (PAGE_SIZE < length page \<or> MAX_MEMBERS < length members + length page)"
      using b by simp
    from "1.IH" [OF c False a rec ok(2)] obtain pages where
      "members_ok ms" "ms = members' @ concat pages"
      "answered_pages D base access (length members') w1 pages w'" by blast
    with ok(1) b(1) another_page [OF h False, of pages w'] show ?thesis
      by (intro conjI exI [of _ "page # pages"]) (simp_all add: PAGE_SIZE_def)
  qed
qed

lemma admin_validate_Inr:
  "admin_validate c group_id secret = Inr u \<longleftrightarrow>
     valid_config c \<and> group_id \<noteq> [] \<and> group_id \<noteq> ''.'' \<and> group_id \<noteq> ''..'' \<and> secret \<noteq> [] \<and>
     list_all (\<lambda>ch. \<not> is_control ch \<and> ch \<noteq> 0x2F \<and> ch \<noteq> 0x5C) (chars group_id)"
  by (auto simp: admin_validate_def validate_iff list_ex_iff list_all_iff)

text \<open>
  C29. A group is read whole or not at all: members are returned only for a sound configuration and a
  group identifier that stays one path segment. A service token was granted first, to this client
  with this secret, and holds only printable ASCII, so it cannot break the header it is put in;
  then the requests to that group's own members address, each for what follows the members so far,
  were answered with pages of at most 100 members up to an empty one; and the result is exactly
  the members of these pages, all of them, unchanged and in order: at most 100,000, each with an
  identifier and a username, no identifier twice.
\<close>

theorem read_group_sound:
  assumes "read_allowed_group backend D c group_id secret w = (Inr ms, w')"
  shows "valid_config c \<and> group_id \<notin> {[], ''.'', ''..''} \<and>
    list_all (\<lambda>ch. \<not> is_control ch \<and> ch \<noteq> 0x2F \<and> ch \<noteq> 0x5C) (chars group_id) \<and>
    length ms \<le> 100000 \<and> distinct (map member_id ms) \<and>
    list_all (\<lambda>m. member_id m \<noteq> [] \<and> trim (member_username m) \<noteq> []) ms \<and>
    (\<exists>token_url base t w1 pages.
       url_push_segments D (server_url c)
         [''realms'', realm c, ''protocol'', ''openid-connect'', ''token''] = Some token_url \<and>
       acquire D token_url [(''grant_type'', ''client_credentials''), (''client_id'', client_id c),
         (''client_secret'', secret)] False w = (Inr t, w1) \<and>
       list_all is_ascii_graphic (access_token t) \<and>
       url_push_segments D (server_url c)
         [''admin'', ''realms'', realm c, ''groups'', group_id, ''members''] = Some base \<and>
       answered_pages D base (access_token t) 0 w1 pages w' \<and> ms = concat pages)"
proof -
  from assms obtain token_url t base w1 where v: "admin_validate c group_id secret = Inr ()"
    and u: "admin_endpoint D c [''realms'', realm c, ''protocol'', ''openid-connect'', ''token''] =
      Inr token_url"
    and a: "acquire D token_url [(''grant_type'', ''client_credentials''), (''client_id'', client_id c),
         (''client_secret'', secret)] False w = (Inr t, w1)"
    and g: "list_all is_ascii_graphic (access_token t)"
    and b: "admin_endpoint D c [''admin'', ''realms'', realm c, ''groups'', group_id, ''members''] =
      Inr base"
    and r: "read_members D base (access_token t) [] w1 = (Inr ms, w')"
    by (auto simp: read_allowed_group_def read_with_transport_def try_io_eq_Inr split: if_splits)
  have "members_ok []" by (simp add: members_ok_def)
  from read_members_Inr [OF r this] obtain pages where
    m: "members_ok ms" "answered_pages D base (access_token t) 0 w1 pages w'" "ms = concat pages"
    by auto
  have s: "valid_config c \<and> group_id \<notin> {[], ''.'', ''..''} \<and>
    list_all (\<lambda>ch. \<not> is_control ch \<and> ch \<noteq> 0x2F \<and> ch \<noteq> 0x5C) (chars group_id)"
    using v by (simp add: admin_validate_Inr)
  have l: "length ms \<le> 100000 \<and> distinct (map member_id ms) \<and>
    list_all (\<lambda>m. member_id m \<noteq> [] \<and> trim (member_username m) \<noteq> []) ms"
    using m(1) by (simp add: members_ok_def MAX_MEMBERS_def)
  from u b have "url_push_segments D (server_url c)
      [''realms'', realm c, ''protocol'', ''openid-connect'', ''token''] = Some token_url"
    "url_push_segments D (server_url c)
      [''admin'', ''realms'', realm c, ''groups'', group_id, ''members''] = Some base"
    by (simp_all add: admin_endpoint_def)
  with s l a g m(2,3) show ?thesis by blast
qed

definition alice :: group_member where
  "alice = \<lparr>member_id = ''1'', member_username = ''alice'', member_enabled = True\<rparr>"

definition group_answer :: "request \<Rightarrow> response" where
  "group_answer r = \<lparr>resp_status = 200, resp_headers = [],
     resp_body = (if req_method r = Post then show_json token_grant
       else if (''first'', ''0'') \<in> set (url_pairs (req_url r)) then ''p'' else []), resp_cookies = []\<rparr>"

definition group_deps :: "unit deps" where
  "group_deps = app_deps\<lparr>
     url_parse := (\<lambda>s. Some (if s = default_redirect then example_redirect else example_url)),
     url_push_segments := (\<lambda>u _. Some u),
     url_append_pairs := (\<lambda>u ps. u\<lparr>url_pairs := ps\<rparr>),
     parse_members := (\<lambda>b. Some (if b = ''p'' then [alice] else [])),
     http_send := (\<lambda>r w. (Inr (group_answer r), w))\<rparr>"

definition group_config :: config where
  "group_config = \<lparr>server_url = example_url, realm = ''test'', client_id = ''c'',
     redirect_uri = example_redirect, ca_bundle = None, timeout = 15 * second\<rparr>"

lemma alice_read: "read_members group_deps example_url ''at'' [] () = (Inr [alice], ())"
proof -
  have s: "show_nat 0 = ''0''" "show_nat (Suc 0) = ''1''" by code_simp+
  have f: "http_send group_deps = (\<lambda>r w. (Inr (group_answer r), w))"
    "url_append_pairs group_deps u ps = u\<lparr>url_pairs := ps\<rparr>"
    "parse_members group_deps b = Some (if b = ''p'' then [alice] else [])" for u ps b
    by (simp_all add: group_deps_def)
  have p: "read_page group_deps (group_answer (members_request group_deps example_url ''at'' 0)) =
      Inr [alice]"
    "read_page group_deps (group_answer (members_request group_deps example_url ''at'' 1)) = Inr []"
    by (simp_all add: read_page_def group_answer_def members_request_def request_get_def f s)
  have "trim ''alice'' = ''alice''"
    by (simp add: trim_def chars_def chars_of_ascii is_whitespace_def string_of_def
        encode_utf8_def utf8_head_def char_of_eq_iff)
  then have "add_members [] [alice] = Inr [alice]" by (simp add: alice_def)
  moreover have "read_members group_deps example_url ''at'' [alice] () = (Inr [alice], ())"
    using p(2) by (subst read_members.simps) (simp add: try_io_def f MAX_MEMBERS_def PAGE_SIZE_def)
  ultimately show ?thesis
    using p(1) by (subst read_members.simps) (simp add: try_io_def f MAX_MEMBERS_def PAGE_SIZE_def)
qed

lemma group_config_valid: "valid_config group_config"
  by (simp add: valid_config_def group_config_def example_url_def example_redirect_def
      millisecond_def second_def)

lemma group_read:
  "read_allowed_group (Some ''wolfSSL/5.7.0'') group_deps group_config ''g'' ''s'' () =
     (Inr [alice], ())"
proof -
  have "chars ''g'' = [103]" by code_simp
  then have "admin_validate group_config ''g'' ''s'' = Inr ()"
    using group_config_valid by (simp add: admin_validate_Inr is_control_def)
  moreover have "active_wolfssl ''wolfSSL/5.7.0''" by code_simp
  then have "transport_new (Some ''wolfSSL/5.7.0'') (ca_bundle group_config) (timeout group_config) =
      Inr \<lparr>ct_ca_bundle = ca_bundle group_config, ct_timeout = timeout group_config\<rparr>"
    by (simp add: transport_new_def)
  moreover have "admin_endpoint group_deps group_config segs = Inr example_url" for segs
    by (simp add: admin_endpoint_def group_deps_def group_config_def)
  moreover have "\<exists>r. request_form group_deps example_url [(''grant_type'', ''client_credentials''),
      (''client_id'', ''c''), (''client_secret'', ''s'')] = Inr r \<and> req_method r = Post"
    by (simp add: request_form_def form_capacity_eq MAX_FORM_def)
  then have "acquire group_deps example_url [(''grant_type'', ''client_credentials''),
      (''client_id'', ''c''), (''client_secret'', ''s'')] False () = (Inr granted, ())"
    using token_grant_parsed token_grant_read
    by (auto simp: acquire_def try_io_def read_grant_def group_answer_def group_deps_def claims_of_def)
  moreover have "list_all is_ascii_graphic (access_token granted)"
    by (simp add: granted_def is_ascii_graphic_def)
  moreover have "access_token granted = ''at''" "client_id group_config = ''c''"
    by (simp_all add: granted_def group_config_def)
  ultimately show ?thesis
    using alice_read by (simp add: read_allowed_group_def read_with_transport_def try_io_def)
qed

theorem read_group_sound_witness:
  "read_allowed_group (Some ''wolfSSL/5.7.0'') group_deps group_config ''g'' ''s'' () =
     (Inr [alice], ()) \<and> distinct (map member_id [alice]) \<and> valid_config group_config"
  using read_group_sound [OF group_read] group_read group_config_valid by simp

subsection \<open>The loop ends\<close>

lemma read_members_sends:
  assumes "counts_requests D T"
  shows "sends_at_most T (MAX_MEMBERS - length members + 1) (read_members D base access members)"
  using assms
proof (induction D base access members rule: read_members.induct)
  case (1 D base access members)
  let ?n = "MAX_MEMBERS - length members"
  have page: "sends_at_most T ?n
      (if PAGE_SIZE < length page \<or> MAX_MEMBERS < length members + length page
       then throw (Protocol ''group member limit exceeded'')
       else if page = [] then ret members
       else (case add_members members page of
               Inl e \<Rightarrow> throw e
             | Inr members' \<Rightarrow> read_members D base access members'))" for page
  proof (cases "PAGE_SIZE < length page \<or> MAX_MEMBERS < length members + length page \<or> page = []")
    case True
    then show ?thesis
      by (auto intro: sends_mono [OF sends_pure(2)] sends_mono [OF sends_pure(3)])
  next
    case False
    show ?thesis
    proof (cases "add_members members page")
      case (Inl e)
      with False show ?thesis by (auto intro: sends_mono [OF sends_pure(3)])
    next
      case (Inr members')
      then have "length members' = length members + length page" by (auto simp: add_members_Inr)
      with False have less: "MAX_MEMBERS - length members' + 1 \<le> ?n" by (cases page) auto
      from "1.IH" [OF _ _ Inr "1.prems"] False have
        "sends_at_most T (MAX_MEMBERS - length members' + 1) (read_members D base access members')"
        by simp
      then have "sends_at_most T ?n (read_members D base access members')"
        using less by (rule sends_mono)
      with False Inr show ?thesis by simp
    qed
  qed
  have "sends_at_most T (1 + (0 + ?n)) (read_members D base access members)"
    by (subst read_members.simps) (intro sends_try_io send_sends sends_pure page "1.prems")
  then show ?case by simp
qed

text \<open>
  C30. Reading a group terminates: whatever the server answers, even pages without end, it makes at
  most 100,002 requests, one for the token and one for each page, every page but the last adding
  a member.
\<close>

theorem read_group_terminates:
  assumes "counts_requests D T"
  shows "T (snd (read_allowed_group backend D c group_id secret w)) \<le> T w + 100002"
proof -
  have acc: "sends_at_most T (0 + 100001)
      (try_io (lift (admin_endpoint D c segs)) (\<lambda>base. read_members D base access []))" for segs access
    using read_members_sends [OF assms, of "[]"] by (intro sends_try_io sends_pure) (simp add: MAX_MEMBERS_def)
  have t: "sends_at_most T 100001 (if b then throw e else try_io (lift (admin_endpoint D c segs))
      (\<lambda>base. read_members D base access []))" for b e segs access
    using acc by (auto intro: sends_mono [OF sends_pure(3)])
  have "sends_at_most T (0 + (0 + (0 + (0 + (1 + 100001)))))
      (read_allowed_group backend D c group_id secret)"
    unfolding read_allowed_group_def read_with_transport_def
    by (intro sends_try_io sends_pure acquire_sends t assms)
  then have "sends_at_most T 100002 (read_allowed_group backend D c group_id secret)" by simp
  then show ?thesis by (simp add: sends_at_most_def)
qed

text \<open>A server that answers every request with a new member, over a world counting its requests.\<close>

theorem read_group_terminates_witness:
  "counts_requests looping_deps id \<and>
   snd (read_allowed_group None looping_deps group_config ''g'' ''s'' 0) \<le> 100002"
proof -
  have c: "counts_requests looping_deps id" by (simp add: counts_requests_def looping_deps_def)
  from read_group_terminates [OF c, of None group_config "''g''" "''s''" 0] c show ?thesis by simp
qed

end
