(* ===== verification/Pam.thy ===== *)
theory Pam
  imports Flow_Types Utf8
begin

text \<open>
  The PAM crate \<open>crates/pam_himmelcloak\<close>: the module's entry points, which deny, reading its
  configuration file, and the translation of challenges into PAM messages. The TOML parser is a
  parameter; the outside of \<open>load\<close> is what reading the file gives.
\<close>

subsection \<open>Entry points (\<open>lib.rs\<close>)\<close>

definition PAM_AUTH_ERR :: int where "PAM_AUTH_ERR = 7"
definition PAM_PERM_DENIED :: int where "PAM_PERM_DENIED = 6"
definition PAM_CRED_ERR :: int where "PAM_CRED_ERR = 17"
definition PAM_CONV_ERR :: int where "PAM_CONV_ERR = 19"

definition pam_sm_authenticate :: "int \<Rightarrow> string list \<Rightarrow> int" where
  "pam_sm_authenticate flags args = PAM_AUTH_ERR"

definition pam_sm_acct_mgmt :: "int \<Rightarrow> string list \<Rightarrow> int" where
  "pam_sm_acct_mgmt flags args = PAM_PERM_DENIED"

definition pam_sm_setcred :: "int \<Rightarrow> string list \<Rightarrow> int" where
  "pam_sm_setcred flags args = PAM_CRED_ERR"

definition conversation_stub :: "string \<Rightarrow> bool \<Rightarrow> int + string" where
  "conversation_stub prompt echo = Inl PAM_CONV_ERR"

subsection \<open>Configuration (\<open>config.rs\<close>)\<close>

definition MAX_CONFIG_BYTES :: nat where "MAX_CONFIG_BYTES = 64 * 1024"

datatype config_error = Read_Error | TooLarge | Malformed_Toml

fun display_config_error :: "config_error \<Rightarrow> string" where
  "display_config_error Read_Error = ''Cannot read Himmelcloak configuration''"
| "display_config_error TooLarge = ''Himmelcloak configuration exceeds 64 KiB''"
| "display_config_error Malformed_Toml = ''Malformed Himmelcloak TOML configuration''"

definition parse_document :: "(string \<Rightarrow> 'table option) \<Rightarrow> string \<Rightarrow> config_error + 'table" where
  "parse_document toml input =
     (if MAX_CONFIG_BYTES < length input then Inl TooLarge else ok_or (toml input) Malformed_Toml)"

text \<open>
  \<open>load\<close>: \<open>file\<close> holds the bytes the path can be read for, \<open>None\<close> when it cannot be opened or
  read. \<open>take\<close> and \<open>read_to_string\<close> see the limit plus one byte of it.
\<close>

definition load_document ::
  "(string \<Rightarrow> 'table option) \<Rightarrow> string option \<Rightarrow> config_error + 'table" where
  "load_document toml file =
     (case file of
        None \<Rightarrow> Inl Read_Error
      | Some bytes \<Rightarrow>
          (case from_utf8 (take (MAX_CONFIG_BYTES + 1) bytes) of
             None \<Rightarrow> Inl Read_Error
           | Some input \<Rightarrow> parse_document toml input))"

subsection \<open>Conversations (\<open>conversation.rs\<close>)\<close>

datatype message_style = HiddenInput | VisibleInput | Error_Style | Information

fun as_raw :: "message_style \<Rightarrow> int" where
  "as_raw HiddenInput = 1"
| "as_raw VisibleInput = 2"
| "as_raw Error_Style = 3"
| "as_raw Information = 4"

record pam_message =
  msg_style :: message_style
  msg_text :: string

datatype next_action = CollectInput | Ask_Acknowledge | WebAuthnAdapter | DisplayOnly

record conversation_plan =
  plan_messages :: "pam_message list"
  plan_next :: next_action

datatype translation_error = UnsupportedChallenge | EmptyMethodSelection | InteriorNul

fun display_translation_error :: "translation_error \<Rightarrow> string" where
  "display_translation_error UnsupportedChallenge = ''Unsupported authentication challenge''"
| "display_translation_error EmptyMethodSelection = ''No authentication method was offered''"
| "display_translation_error InteriorNul = ''PAM message contains an interior NUL''"

definition message :: "message_style \<Rightarrow> string \<Rightarrow> pam_message" where
  "message style shown = \<lparr>msg_style = style, msg_text = shown\<rparr>"

definition NUL_CHAR :: char where "NUL_CHAR = CHR 0x00"

definition checked_plan ::
  "pam_message list \<Rightarrow> next_action \<Rightarrow> translation_error + conversation_plan" where
  "checked_plan messages action =
     (if list_ex (\<lambda>m. NUL_CHAR \<in> set (msg_text m)) messages then Inl InteriorNul
      else Inr \<lparr>plan_messages = messages, plan_next = action\<rparr>)"

text \<open>A numbered list of labels under a title.\<close>

definition selection_text :: "string \<Rightarrow> string list \<Rightarrow> string" where
  "selection_text title labels =
     title @ [NL] @
     concat (map (\<lambda>(index, label). show_nat (index + 1) @ ''. '' @ label @ [NL])
       (List.enumerate 0 labels)) @ ''Selection: ''"

definition code_messages :: "otp_device list \<Rightarrow> pam_message list" where
  "code_messages devices =
     (if 1 < length devices
      then [message VisibleInput
              (selection_text ''Choose an authenticator:'' (map device_label devices))]
      else []) @ [message HiddenInput ''One-time code: '']"

definition recovery_prompt :: "nat option \<Rightarrow> string" where
  "recovery_prompt hint =
     (case hint of None \<Rightarrow> ''Recovery code: ''
      | Some index \<Rightarrow> ''Recovery code '' @ show_nat index @ '': '')"

definition field_message :: "form_field \<Rightarrow> pam_message" where
  "field_message field =
     message (if ff_secret field then HiddenInput else VisibleInput) (ff_label field @ '': '')"

definition action_messages :: "required_action \<Rightarrow> pam_message list" where
  "action_messages action =
     (case ra_message action of None \<Rightarrow> [] | Some shown \<Rightarrow> [message Information shown]) @
     map field_message (ra_fields action)"

text \<open>The catch-all of the source is for challenges a later core may add; here there are none.\<close>

fun plan :: "challenge \<Rightarrow> translation_error + conversation_plan" where
  "plan Ask_Username = checked_plan [message VisibleInput ''Username: ''] CollectInput"
| "plan Ask_Password = checked_plan [message HiddenInput ''Password: ''] CollectInput"
| "plan (Ask_OneTimeCode devices) = checked_plan (code_messages devices) CollectInput"
| "plan (Ask_RecoveryCode hint) =
     checked_plan [message HiddenInput (recovery_prompt hint)] CollectInput"
| "plan (Ask_ChooseMethod methods) =
     (if methods = [] then Inl EmptyMethodSelection
      else checked_plan [message VisibleInput
        (selection_text ''Choose a sign-in method:'' (map method_label methods))] CollectInput)"
| "plan (Ask_RequiredAction action) =
     checked_plan (action_messages action)
       (if ra_fields action = [] then Ask_Acknowledge else CollectInput)"
| "plan (Ask_Info shown) = checked_plan [message Information shown] Ask_Acknowledge"
| "plan (Ask_WebAuthn request) =
     checked_plan [message Information
       ''Follow the instructions for your security key or authenticator.''] WebAuthnAdapter"

definition failure_plan :: "string \<Rightarrow> translation_error + conversation_plan" where
  "failure_plan reason = checked_plan [message Error_Style reason] DisplayOnly"

subsection \<open>What is proved\<close>

lemma message_simps [simp]:
  "msg_style (message style shown) = style" "msg_text (message style shown) = shown"
  by (simp_all add: message_def)

lemma checked_plan_Inr:
  "checked_plan messages action = Inr p \<longleftrightarrow>
     p = \<lparr>plan_messages = messages, plan_next = action\<rparr> \<and>
     list_all (\<lambda>m. NUL_CHAR \<notin> set (msg_text m)) messages"
  by (auto simp: checked_plan_def list_ex_iff list_all_iff)

lemma plan_checked:
  assumes "plan c = Inr p"
  shows "checked_plan (plan_messages p) (plan_next p) = Inr p"
  using assms by (cases c) (auto simp: checked_plan_Inr split: if_splits)

text \<open>
  C35. The module never shows a secret the core calls hidden: a plan has no text libpam would cut
  off at a NUL, and its echo agrees with the core's \<open>Challenge::input\<close>: a hidden challenge ends
  with a prompt without echo, after visible selections only; a visible one is one visible prompt;
  one that takes no input only informs, and does not collect; a form asks its fields in order,
  each without echo exactly when it is secret.
\<close>

theorem plan_matches_input:
  assumes "plan c = Inr p"
  shows "list_all (\<lambda>m. NUL_CHAR \<notin> set (msg_text m)) (plan_messages p) \<and>
    (case challenge_input c of
       Hidden \<Rightarrow> plan_next p = CollectInput \<and> plan_messages p \<noteq> [] \<and>
         msg_style (last (plan_messages p)) = HiddenInput \<and>
         list_all (\<lambda>m. msg_style m = VisibleInput) (butlast (plan_messages p))
     | Visible \<Rightarrow> plan_next p = CollectInput \<and> map msg_style (plan_messages p) = [VisibleInput]
     | No_Input \<Rightarrow> plan_next p \<noteq> CollectInput \<and> map msg_style (plan_messages p) = [Information]
     | Form_Input \<Rightarrow> (\<exists>action. c = Ask_RequiredAction action \<and>
         map msg_style (filter (\<lambda>m. msg_style m \<noteq> Information) (plan_messages p)) =
           map (\<lambda>field. if ff_secret field then HiddenInput else VisibleInput) (ra_fields action) \<and>
         (plan_next p = CollectInput \<longleftrightarrow> ra_fields action \<noteq> [])))"
proof -
  have fields: "map msg_style (filter (\<lambda>m. msg_style m \<noteq> Information) (map field_message fs)) =
      map (\<lambda>field. if ff_secret field then HiddenInput else VisibleInput) fs" for fs
    by (induction fs) (auto simp: field_message_def)
  from plan_checked [OF assms] have "list_all (\<lambda>m. NUL_CHAR \<notin> set (msg_text m)) (plan_messages p)"
    by (auto simp: checked_plan_Inr)
  with assms show ?thesis
    by (cases c) (auto simp: checked_plan_Inr code_messages_def action_messages_def fields
        split: if_splits option.splits)
qed

theorem plan_matches_input_witness:
  "\<exists>p. plan (Ask_OneTimeCode [\<lparr>device_id = ''1'', device_label = ''a''\<rparr>,
       \<lparr>device_id = ''2'', device_label = ''b''\<rparr>]) = Inr p \<and>
     map msg_style (plan_messages p) = [VisibleInput, HiddenInput] \<and>
     list_all (\<lambda>m. NUL_CHAR \<notin> set (msg_text m)) (plan_messages p)"
proof -
  let ?c = "Ask_OneTimeCode [\<lparr>device_id = ''1'', device_label = ''a''\<rparr>,
       \<lparr>device_id = ''2'', device_label = ''b''\<rparr>]"
  have "is_ok (plan ?c)" by code_simp
  then obtain p where p: "plan ?c = Inr p" unfolding is_ok_iff by blast
  then have "map msg_style (plan_messages p) = [VisibleInput, HiddenInput]"
    by (auto simp: checked_plan_Inr code_messages_def)
  with conjunct1 [OF plan_matches_input [OF p]] p show ?thesis by - (intro exI conjI)
qed

text \<open>
  Which configuration files are accepted, exactly: those that can be read, hold at most 64 KiB
  of valid UTF-8 and are TOML; an oversized file is refused whatever it holds, after reading one
  byte more than the limit.
\<close>

theorem load_document_exact:
  "(load_document toml file = Inr table \<longleftrightarrow>
     (\<exists>bytes. file = Some bytes \<and> length bytes \<le> 65536 \<and> valid_utf8 bytes \<and>
        toml bytes = Some table)) \<and>
   (case file of None \<Rightarrow> True | Some bytes \<Rightarrow>
      load_document toml (Some bytes) = load_document toml (Some (take 65537 bytes)))"
proof -
  have "load_document toml (Some bytes) = Inr table \<longleftrightarrow>
      length bytes \<le> 65536 \<and> valid_utf8 bytes \<and> toml bytes = Some table" for bytes
    by (cases "length bytes \<le> 65536")
      (auto simp: load_document_def parse_document_def from_utf8_def MAX_CONFIG_BYTES_def)
  moreover have "load_document toml (Some bytes) = load_document toml (Some (take 65537 bytes))" for bytes
    by (simp add: load_document_def MAX_CONFIG_BYTES_def)
  ultimately show ?thesis
    by (cases "file") (auto simp: load_document_def)
qed

end
