(* ===== verification/Sync.thy ===== *)
theory Sync
  imports Admin "HOL-Library.Word"
begin

unbundle bit_operations_syntax

text \<open>
  \<open>crates/himmelcloak-cli/src/sync_users.rs\<close>: the administrator's group synchronisation. Files are
  opened in an outside world, with their metadata taken from the same descriptor; the TOML parser
  and its table reader are parameters. An error is its message; \<open>None\<close> is a panic of
  \<open>Config::new\<close>, whose constant redirect URI would have to be unparsable.
\<close>

subsection \<open>Settings\<close>

record sync_settings =
  ss_server_url :: string
  ss_realm :: string
  ss_client_id :: string
  ss_group_id :: string
  ss_secret_file :: string
  ss_ca_bundle :: "string option"

text \<open>\<open>'v\<close> is a TOML value.\<close>

record 'v toml =
  toml_parse :: "string \<Rightarrow> 'v option"
  toml_get :: "'v \<Rightarrow> string \<Rightarrow> 'v option"
  toml_sync :: "'v \<Rightarrow> sync_settings option"

definition is_absolute :: "string \<Rightarrow> bool" where
  "is_absolute path \<longleftrightarrow> starts_with ''/'' path"

definition core_config :: "'w deps \<Rightarrow> sync_settings \<Rightarrow> (string + config) option" where
  "core_config D s =
     map_option (\<lambda>r. map_err display_error (try_res r (\<lambda>c. Inr (c\<lparr>ca_bundle := ss_ca_bundle s\<rparr>))))
       (new_config D (ss_server_url s) (ss_realm s) (ss_client_id s))"

definition check_settings :: "'v toml \<Rightarrow> string \<Rightarrow> string + sync_settings" where
  "check_settings T source =
     try_res (ok_or (toml_parse T source) ''malformed sync configuration'') (\<lambda>document.
     try_res (ok_or (toml_get T document ''sync'') ''missing [sync] settings'') (\<lambda>table.
     try_res (ok_or (toml_sync T table) ''invalid [sync] settings'') (\<lambda>s.
       if trim (ss_group_id s) = [] \<or> \<not> is_absolute (ss_secret_file s) \<or>
          (case ss_ca_bundle s of None \<Rightarrow> False | Some p \<Rightarrow> \<not> is_absolute p)
       then Inl ''sync group ID and absolute file paths are required''
       else Inr s)))"

definition parse_settings :: "'v toml \<Rightarrow> 'w deps \<Rightarrow> string \<Rightarrow> (string + sync_settings) option" where
  "parse_settings T D source =
     (case check_settings T source of
        Inl e \<Rightarrow> Some (Inl e)
      | Inr s \<Rightarrow> map_option (\<lambda>r. try_res r (\<lambda>_. Inr s)) (core_config D s))"

subsection \<open>Files\<close>

record file_meta =
  fm_regular :: bool
  fm_uid :: nat
  fm_mode :: "32 word"
  fm_len :: nat

text \<open>An opened descriptor: its metadata and its bytes, each of which may fail.\<close>

record opened_file =
  of_meta :: "file_meta option"
  of_bytes :: "string option"

definition read_bounded :: "string option \<Rightarrow> nat \<Rightarrow> string + string" where
  "read_bounded reader limit =
     (case Option.bind reader (\<lambda>bytes. from_utf8 (take (limit + 1) bytes)) of
        None \<Rightarrow> Inl ''cannot read sync file''
      | Some v \<Rightarrow> if limit < length v then Inl ''sync file is too large'' else Inr v)"

definition size_limit :: "bool \<Rightarrow> nat" where
  "size_limit secret = (if secret then 16384 else 65536)"

definition bad_permissions :: "bool \<Rightarrow> 32 word \<Rightarrow> bool" where
  "bad_permissions secret mode =
     (let m = mode AND 0x1FF in if secret then m \<notin> {0x180, 0x100} else m AND 0x12 \<noteq> 0)"

definition read_owned_file :: "opened_file option \<Rightarrow> bool \<Rightarrow> string + string" where
  "read_owned_file opened secret =
     (case opened of
        None \<Rightarrow> Inl ''cannot open sync configuration or secret file''
      | Some f \<Rightarrow>
          (case of_meta f of
             None \<Rightarrow> Inl ''cannot inspect sync file''
           | Some m \<Rightarrow>
               if \<not> fm_regular m \<or> fm_uid m \<noteq> 0 \<or> bad_permissions secret (fm_mode m) \<or>
                  size_limit secret < fm_len m
               then Inl ''sync files must be root-owned regular files; config must not be group/other writable, secret must be 0600/0400, and file size limits apply''
               else try_res (read_bounded (of_bytes f) (size_limit secret)) (\<lambda>v.
                 if \<not> secret then Inr v
                 else (let trimmed = trim_end_matches (\<lambda>c. c = CR \<or> c = NL) v
                       in if trimmed = [] then Inl ''service-account secret is empty''
                          else Inr trimmed))))"

definition require_root :: "nat \<Rightarrow> string + unit" where
  "require_root uid = (if uid \<noteq> 0 then Inl ''sync-users must run as root'' else Inr ())"

subsection \<open>The command\<close>

text \<open>
  The operating system: opening a file without following a symbolic link, the effective user,
  whether an async runtime can be built. The result is the list that is printed as JSON.
\<close>

record 'w os =
  open_nofollow :: "string \<Rightarrow> 'w \<Rightarrow> opened_file option \<times> 'w"
  effective_uid :: nat
  runtime_builds :: bool

definition read_group_io ::
  "string option \<Rightarrow> 'w deps \<Rightarrow> config \<Rightarrow> string \<Rightarrow> string \<Rightarrow> ('w, string, group_member list) io" where
  "read_group_io backend D c group_id secret = (\<lambda>w.
     (case read_allowed_group backend D c group_id secret w of
        (r, w') \<Rightarrow> (map_err display_error r, w')))"

definition run_sync ::
  "'w os \<Rightarrow> 'v toml \<Rightarrow> string option \<Rightarrow> 'w deps \<Rightarrow> string \<Rightarrow> 'w \<Rightarrow>
   ((string + group_member list) \<times> 'w) option" where
  "run_sync S T backend D path w =
     (case require_root (effective_uid S) of
        Inl e \<Rightarrow> Some (Inl e, w)
      | Inr _ \<Rightarrow>
     (case open_nofollow S path w of (opened, w1) \<Rightarrow>
     (case read_owned_file opened False of
        Inl e \<Rightarrow> Some (Inl e, w1)
      | Inr source \<Rightarrow>
     (case parse_settings T D source of
        None \<Rightarrow> None
      | Some (Inl e) \<Rightarrow> Some (Inl e, w1)
      | Some (Inr s) \<Rightarrow>
     (case open_nofollow S (ss_secret_file s) w1 of (opened', w2) \<Rightarrow>
     (case read_owned_file opened' True of
        Inl e \<Rightarrow> Some (Inl e, w2)
      | Inr secret \<Rightarrow>
     (case core_config D s of
        None \<Rightarrow> None
      | Some (Inl e) \<Rightarrow> Some (Inl e, w2)
      | Some (Inr c) \<Rightarrow>
          if \<not> runtime_builds S then Some (Inl ''cannot build runtime'', w2)
          else Some (read_group_io backend D c (ss_group_id s) secret w2))))))))"

subsection \<open>What a successful run rests on\<close>

text \<open>A file only root can have written, and for a secret, only root can read.\<close>

definition trusted_file :: "opened_file option \<Rightarrow> bool \<Rightarrow> bool" where
  "trusted_file opened secret \<longleftrightarrow>
     (\<exists>f m bytes. opened = Some f \<and> of_meta f = Some m \<and> of_bytes f = Some bytes \<and>
        fm_regular m \<and> fm_uid m = 0 \<and> length bytes \<le> size_limit secret \<and> valid_utf8 bytes \<and>
        (if secret then fm_mode m AND 0x1FF \<in> {0x180, 0x100} else fm_mode m AND 0x12 = 0))"

lemma read_bounded_Inr:
  "read_bounded reader limit = Inr v \<longleftrightarrow> reader = Some v \<and> length v \<le> limit \<and> valid_utf8 v"
proof (cases reader)
  case (Some bytes)
  then show ?thesis
    by (cases "length bytes \<le> limit") (auto simp: read_bounded_def from_utf8_def)
qed (simp add: read_bounded_def)

lemma config_mode: "((mode :: 32 word) AND 0x1FF) AND 0x12 = mode AND 0x12"
proof -
  have "(0x1FF :: 32 word) AND 0x12 = 0x12" by simp
  then show ?thesis by (simp only: and.assoc)
qed

lemma last_trim_end_matches:
  assumes "trim_end_matches p s \<noteq> []"
  shows "\<not> p (last (trim_end_matches p s))"
proof -
  from assms have "dropWhile p (rev s) \<noteq> []" by (simp add: trim_end_matches_def)
  from hd_dropWhile [OF this] show ?thesis by (simp add: trim_end_matches_def last_rev)
qed

lemma read_owned_file_Inr:
  assumes "read_owned_file opened secret = Inr v"
  shows "trusted_file opened secret \<and>
    (if secret then v \<noteq> [] \<and> last v \<noteq> CR \<and> last v \<noteq> NL else True)"
proof -
  from assms obtain f m bytes where "opened = Some f" "of_meta f = Some m" "fm_regular m"
    "fm_uid m = 0" "\<not> bad_permissions secret (fm_mode m)"
    "read_bounded (of_bytes f) (size_limit secret) = Inr bytes"
    "if secret then v = trim_end_matches (\<lambda>c. c = CR \<or> c = NL) bytes \<and> v \<noteq> [] else v = bytes"
    by (auto simp: read_owned_file_def Let_def split: option.splits if_splits)
  then show ?thesis
    using last_trim_end_matches [of "\<lambda>c. c = CR \<or> c = NL" bytes]
    by (auto simp: trusted_file_def read_bounded_Inr bad_permissions_def Let_def config_mode
        split: if_splits)
qed

lemma run_sync_Inr:
  assumes "run_sync S T backend D path w = Some (Inr ms, w')"
  obtains opened w1 source s opened' w2 secret c where "effective_uid S = 0"
    "open_nofollow S path w = (opened, w1)" "read_owned_file opened False = Inr source"
    "check_settings T source = Inr s" "open_nofollow S (ss_secret_file s) w1 = (opened', w2)"
    "read_owned_file opened' True = Inr secret" "core_config D s = Some (Inr c)"
    "read_allowed_group backend D c (ss_group_id s) secret w2 = (Inr ms, w')"
  using assms
  by (auto simp: run_sync_def require_root_def parse_settings_def read_group_io_def map_err_def
      split: prod.splits sum.splits option.splits if_splits)


lemma core_config_Inr:
  assumes "core_config D s = Some (Inr c)"
  shows "valid_config c \<and> url_parse D (ss_server_url s) = Some (server_url c) \<and>
    realm c = ss_realm s \<and> client_id c = ss_client_id s \<and> ca_bundle c = ss_ca_bundle s"
  using assms
  by (auto simp: core_config_def new_config_def validate_iff valid_config_def map_err_def Let_def
      split: option.splits sum.splits)

lemma check_settings_Inr:
  assumes "check_settings T source = Inr s"
  shows "trim (ss_group_id s) \<noteq> [] \<and> is_absolute (ss_secret_file s) \<and>
    (case ss_ca_bundle s of None \<Rightarrow> True | Some p \<Rightarrow> is_absolute p)"
  using assms by (auto simp: check_settings_def split: option.splits if_splits)

text \<open>
  C31. The group list is printed only from trusted files: a run that succeeds was root's, read its
  settings from a regular file owned by root that nobody else can write and its secret from an
  absolute path, a regular file owned by root that nobody else can read, both within their limits
  and opened once each, built exactly the configuration the settings name, and printed exactly what
  the group's address answered; the secret it sent is not empty and ends in no line break.
\<close>

theorem sync_output:
  assumes "run_sync S T backend D path w = Some (Inr ms, w')"
  shows "effective_uid S = 0 \<and>
    (\<exists>opened w1 source s opened' w2 secret c.
       open_nofollow S path w = (opened, w1) \<and> trusted_file opened False \<and>
       read_owned_file opened False = Inr source \<and> check_settings T source = Inr s \<and>
       trim (ss_group_id s) \<noteq> [] \<and> is_absolute (ss_secret_file s) \<and>
       open_nofollow S (ss_secret_file s) w1 = (opened', w2) \<and> trusted_file opened' True \<and>
       read_owned_file opened' True = Inr secret \<and>
       secret \<noteq> [] \<and> last secret \<noteq> CR \<and> last secret \<noteq> NL \<and>
       valid_config c \<and> url_parse D (ss_server_url s) = Some (server_url c) \<and>
       realm c = ss_realm s \<and> client_id c = ss_client_id s \<and> ca_bundle c = ss_ca_bundle s \<and>
       read_allowed_group backend D c (ss_group_id s) secret w2 = (Inr ms, w'))"
proof -
  from assms obtain opened w1 source s opened' w2 secret c where *: "effective_uid S = 0"
    "open_nofollow S path w = (opened, w1)" "read_owned_file opened False = Inr source"
    "check_settings T source = Inr s" "open_nofollow S (ss_secret_file s) w1 = (opened', w2)"
    "read_owned_file opened' True = Inr secret" "core_config D s = Some (Inr c)"
    "read_allowed_group backend D c (ss_group_id s) secret w2 = (Inr ms, w')"
    by (rule run_sync_Inr)
  show ?thesis
    using * read_owned_file_Inr [OF *(3)] read_owned_file_Inr [OF *(6)] check_settings_Inr [OF *(4)]
      core_config_Inr [OF *(7)]
    by (intro conjI exI [of _ opened] exI [of _ w1] exI [of _ source] exI [of _ s]
        exI [of _ opened'] exI [of _ w2] exI [of _ secret] exI [of _ c]) simp_all
qed

definition example_settings :: sync_settings where
  "example_settings = \<lparr>ss_server_url = ''u'', ss_realm = ''test'', ss_client_id = ''c'',
     ss_group_id = ''g'', ss_secret_file = ''/s'', ss_ca_bundle = None\<rparr>"

definition example_toml :: "string toml" where
  "example_toml = \<lparr>toml_parse = Some, toml_get = (\<lambda>v _. Some v),
     toml_sync = (\<lambda>_. Some example_settings)\<rparr>"

definition example_os :: "unit os" where
  "example_os = \<lparr>open_nofollow = (\<lambda>path w. (Some
       \<lparr>of_meta = Some \<lparr>fm_regular = True, fm_uid = 0, fm_mode = 0x180, fm_len = 2\<rparr>,
        of_bytes = Some (if path = ''/s'' then ''s'' @ [NL] else ''x'')\<rparr>, w)),
     effective_uid = 0, runtime_builds = True\<rparr>"

lemma example_files:
  "path \<noteq> ''/s'' \<Longrightarrow> read_owned_file (fst (open_nofollow example_os path w)) False = Inr ''x''"
  "read_owned_file (fst (open_nofollow example_os ''/s'' w)) True = Inr ''s''"
proof -
  have "valid_utf8 ''x''" "valid_utf8 (''s'' @ [NL])" by code_simp+
  then have "read_bounded (Some ''x'') 65536 = Inr ''x''"
    "read_bounded (Some (''s'' @ [NL])) 16384 = Inr (''s'' @ [NL])"
    by (simp_all add: read_bounded_Inr)
  then show "path \<noteq> ''/s'' \<Longrightarrow>
      read_owned_file (fst (open_nofollow example_os path w)) False = Inr ''x''"
    "read_owned_file (fst (open_nofollow example_os ''/s'' w)) True = Inr ''s''"
    by (simp_all add: read_owned_file_def example_os_def bad_permissions_def size_limit_def
        trim_end_matches_def NL_def CR_def)
qed

lemma example_checked: "check_settings example_toml source = Inr example_settings"
proof -
  have "trim ''g'' = ''g''"
    by (simp add: trim_def chars_def chars_of_ascii is_whitespace_def string_of_def
        encode_utf8_def utf8_head_def char_of_eq_iff)
  then show ?thesis
    by (simp add: check_settings_def example_toml_def example_settings_def is_absolute_def
        starts_with_def)
qed

lemma example_core_config: "core_config group_deps example_settings = Some (Inr group_config)"
proof -
  have v: "validate group_config = Inr ()" using group_config_valid by (simp add: validate_iff)
  have "(''u'' = default_redirect) = False" by (simp add: default_redirect_def)
  then have "new_config group_deps ''u'' ''test'' ''c'' = Some (Inr group_config)"
    using v by (simp add: new_config_def group_deps_def group_config_def Let_def)
  then show ?thesis
    by (simp add: core_config_def example_settings_def map_err_def group_config_def)
qed

lemma example_sync:
  assumes "path \<noteq> ''/s''"
  shows "run_sync example_os example_toml (Some ''wolfSSL/5.7.0'') group_deps path () =
    Some (Inr [alice], ())"
proof -
  have "ss_secret_file example_settings = ''/s''" "ss_group_id example_settings = ''g''"
    "effective_uid example_os = 0" "runtime_builds example_os"
    by (simp_all add: example_settings_def example_os_def)
  moreover have "open_nofollow example_os p () = (fst (open_nofollow example_os p ()), ())" for p
    by (rule prod_eqI) simp_all
  ultimately show ?thesis
    using example_files(1) [OF assms, of "()"] example_files(2) [of "()"] example_checked
      example_core_config group_read
    by (simp add: run_sync_def require_root_def parse_settings_def read_group_io_def map_err_def
        case_prod_beta)
qed

theorem sync_output_witness:
  "run_sync example_os example_toml (Some ''wolfSSL/5.7.0'') group_deps ''/c'' () =
     Some (Inr [alice], ()) \<and> effective_uid example_os = 0"
proof -
  have run: "run_sync example_os example_toml (Some ''wolfSSL/5.7.0'') group_deps ''/c'' () =
     Some (Inr [alice], ())" by (rule example_sync) simp
  from sync_output [OF run] run show ?thesis by simp
qed

end
