(* ===== verification/Terminal.thy ===== *)
theory Terminal
  imports Sync
begin

unbundle bit_operations_syntax

text \<open>
  The terminal of \<open>crates/himmelcloak-cli/src/test_login.rs\<close>: hiding and restoring the echo, the
  interrupt handler and reading a line. A computation runs on \<open>termios option \<times> 'w\<close>: the contents
  of \<open>SAVED_TERMINAL\<close> and the outside world, which holds the terminal itself.
\<close>

subsection \<open>Settings and lines\<close>

text \<open>The settings of a terminal: the local mode flags, and the rest.\<close>

record termios =
  c_lflag :: "32 word"
  c_others :: "nat list"

datatype tc_action = TCSANOW | TCSAFLUSH

text \<open>
  What the commands ask of libc and the standard library. A \<open>bool\<close> is whether a call succeeded;
  \<open>read_line\<close> is \<open>None\<close> for an error and \<open>Some []\<close> at the end of the input.
\<close>

record 'w console =
  ECHO :: "32 word"
  ECHONL :: "32 word"
  tcgetattr :: "'w \<Rightarrow> termios option \<times> 'w"
  tcsetattr :: "tc_action \<Rightarrow> termios \<Rightarrow> 'w \<Rightarrow> bool \<times> 'w"
  write_out :: "string \<Rightarrow> 'w \<Rightarrow> bool \<times> 'w"
  flush_out :: "'w \<Rightarrow> bool \<times> 'w"
  read_line :: "'w \<Rightarrow> string option \<times> 'w"
  read_file :: "string \<Rightarrow> 'w \<Rightarrow> string option \<times> 'w"
  handler_installs :: bool

type_synonym ('w, 'a) term_act = "(termios option \<times> 'w, string, 'a) io"

definition restore_terminal :: "'w console \<Rightarrow> tc_action \<Rightarrow> ('w, unit) term_act" where
  "restore_terminal T action = (\<lambda>(saved, w).
     (case saved of
        None \<Rightarrow> (Inr (), (None, w))
      | Some original \<Rightarrow>
          (case tcsetattr T action original w of (ok, w') \<Rightarrow>
             if \<not> ok then (Inl ''cannot restore terminal settings'', (saved, w'))
             else (Inr (), (None, w')))))"

text \<open>The drop of \<open>RestoreEcho\<close>, and what the interrupt handler does before it exits.\<close>

definition echo_dropped :: "'w console \<Rightarrow> termios option \<times> 'w \<Rightarrow> termios option \<times> 'w" where
  "echo_dropped T s = snd (restore_terminal T TCSAFLUSH s)"

definition on_interrupt :: "'w console \<Rightarrow> termios option \<times> 'w \<Rightarrow> nat \<times> 'w" where
  "on_interrupt T s = (130, snd (snd (restore_terminal T TCSAFLUSH s)))"

definition install_interrupt_handler :: "'w console \<Rightarrow> string + unit" where
  "install_interrupt_handler T =
     (if handler_installs T then Inr () else Inl ''cannot install login interrupt handler'')"

definition echo_bits :: "'w console \<Rightarrow> 32 word" where
  "echo_bits T = ECHO T OR ECHONL T"

definition hide_echo :: "'w console \<Rightarrow> ('w, unit) term_act" where
  "hide_echo T = (\<lambda>(saved, w).
     if saved \<noteq> None then (Inl ''password input is already active'', (saved, w))
     else (case tcgetattr T w of
        (None, w1) \<Rightarrow> (Inl ''password input requires an interactive terminal'', (saved, w1))
      | (Some original, w1) \<Rightarrow>
          (let settings = original\<lparr>c_lflag := c_lflag original AND NOT (echo_bits T)\<rparr> in
           (case tcsetattr T TCSANOW settings w1 of (ok, w2) \<Rightarrow>
              if \<not> ok then (Inl ''cannot hide password input'', echo_dropped T (Some original, w2))
              else (Inr (), (Some original, w2))))))"

definition written :: "('w \<Rightarrow> bool \<times> 'w) \<Rightarrow> ('w, unit) term_act" where
  "written f = (\<lambda>(saved, w). (case f w of (ok, w') \<Rightarrow>
     (if ok then Inr () else Inl ''cannot write prompt'', (saved, w'))))"

text \<open>What happens while the guard is alive: the line as it was read, which may have failed.\<close>

definition read_guarded :: "'w console \<Rightarrow> string \<Rightarrow> bool \<Rightarrow> ('w, string option) term_act" where
  "read_guarded T prompt hidden =
     try_io (written (write_out T prompt)) (\<lambda>_.
     try_io (written (flush_out T)) (\<lambda>_.
     try_io (\<lambda>(saved, w). (case read_line T w of (line, w') \<Rightarrow> (Inr line, (saved, w')))) (\<lambda>line.
     try_io (if hidden then restore_terminal T TCSANOW else ret ()) (\<lambda>_.
       ret line))))"

definition checked_line :: "string option \<Rightarrow> string + string" where
  "checked_line line =
     try_res (ok_or line ''cannot read input'') (\<lambda>v.
       if v = [] then Inl ''input ended before login completed''
       else (let trimmed = trim_end_matches (\<lambda>c. c = CR \<or> c = NL) v
             in if trimmed = [] then Inl ''input must not be empty'' else Inr trimmed))"

definition read_input :: "'w console \<Rightarrow> string \<Rightarrow> bool \<Rightarrow> ('w, string) term_act" where
  "read_input T prompt hidden =
     (if hidden then
        try_io (hide_echo T) (\<lambda>_.
        try_io (in_any_case (echo_dropped T) (read_guarded T prompt True)) (\<lambda>line.
        try_io (written (write_out T [NL])) (\<lambda>_. lift (checked_line line))))
      else try_io (read_guarded T prompt False) (\<lambda>line. lift (checked_line line)))"


subsection \<open>The echo is restored\<close>

text \<open>
  What POSIX says of the calls: reading the settings, writing and reading a line leave the settings
  alone; setting them sets them when it succeeds and changes nothing when it fails.
\<close>

definition terminal_laws :: "'w console \<Rightarrow> ('w \<Rightarrow> termios) \<Rightarrow> bool" where
  "terminal_laws T settings \<longleftrightarrow>
     (\<forall>w. fst (tcgetattr T w) \<in> {None, Some (settings w)} \<and>
        settings (snd (tcgetattr T w)) = settings w \<and>
        (\<forall>action t. settings (snd (tcsetattr T action t w)) =
           (if fst (tcsetattr T action t w) then t else settings w)) \<and>
        (\<forall>s. settings (snd (write_out T s w)) = settings w) \<and>
        settings (snd (flush_out T w)) = settings w \<and>
        settings (snd (read_line T w)) = settings w)"

lemma terminal_lawsD:
  assumes "terminal_laws T settings"
  shows "tcgetattr T w = (r, w') \<Longrightarrow> (r = None \<or> r = Some (settings w)) \<and> settings w' = settings w"
    and "tcsetattr T action t w = (ok, w') \<Longrightarrow> settings w' = (if ok then t else settings w)"
    and "write_out T s w = (ok, w') \<Longrightarrow> settings w' = settings w"
    and "flush_out T w = (ok, w') \<Longrightarrow> settings w' = settings w"
    and "read_line T w = (line, w') \<Longrightarrow> settings w' = settings w"
  using assms unfolding terminal_laws_def
  by (metis fst_conv snd_conv insertE singletonD, metis fst_conv snd_conv,
      (metis snd_conv)+)

text \<open>The original settings are in force, or they are saved.\<close>

definition held :: "('w \<Rightarrow> termios) \<Rightarrow> termios \<Rightarrow> termios option \<times> 'w \<Rightarrow> bool" where
  "held settings original = (\<lambda>(saved, w).
     saved = Some original \<or> saved = None \<and> settings w = original)"

lemma restore_terminal_held:
  assumes "terminal_laws T settings" "held settings original s" "restore_terminal T action s = (r, s')"
  shows "held settings original s' \<and> (is_ok r \<longrightarrow> fst s' = None)"
  using assms(2,3) terminal_lawsD(2) [OF assms(1)]
  by (cases s) (fastforce simp: held_def restore_terminal_def is_ok_def
      split: option.splits prod.splits if_splits)

lemma echo_dropped_held:
  assumes "terminal_laws T settings" "held settings original s"
  shows "held settings original (echo_dropped T s)"
  using restore_terminal_held [OF assms] by (cases "restore_terminal T TCSAFLUSH s") (simp add: echo_dropped_def)

text \<open>The terminal refused the settings when they were put back last, which led to this world.\<close>

definition restore_refused :: "'w console \<Rightarrow> termios \<Rightarrow> 'w \<Rightarrow> bool" where
  "restore_refused T original w' \<longleftrightarrow> (\<exists>w. tcsetattr T TCSAFLUSH original w = (False, w'))"

lemma echo_dropped_left:
  "echo_dropped T s = (Some original, w') \<Longrightarrow> restore_refused T original w'"
  by (cases s) (auto simp: echo_dropped_def restore_terminal_def restore_refused_def
      split: option.splits prod.splits if_splits)

lemma hide_echo_left:
  assumes "hide_echo T (None, w) = (Inl e, (Some original, w'))"
  shows "restore_refused T original w'"
  using assms echo_dropped_left [of T "(Some _, _)" original w']
  by (auto simp: hide_echo_def Let_def split: option.splits prod.splits if_splits)

lemma hide_echo_held:
  assumes "terminal_laws T settings" "hide_echo T (None, w) = (r, (saved, w'))"
  shows "held settings (settings w) (saved, w') \<and>
    (is_ok r \<longrightarrow> saved = Some (settings w) \<and> c_lflag (settings w') AND echo_bits T = 0)"
proof (cases "tcgetattr T w")
  case (Pair got w1)
  show ?thesis
  proof (cases got)
    case None
    with assms(2) Pair terminal_lawsD(1) [OF assms(1) Pair] show ?thesis
      by (auto simp: hide_echo_def held_def is_ok_def)
  next
    case (Some original)
    with terminal_lawsD(1) [OF assms(1) Pair] have o: "original = settings w" by simp
    let ?new = "original\<lparr>c_lflag := c_lflag original AND NOT (echo_bits T)\<rparr>"
    obtain ok w2 where set: "tcsetattr T TCSANOW ?new w1 = (ok, w2)"
      by (cases "tcsetattr T TCSANOW ?new w1")
    have off: "c_lflag ?new AND echo_bits T = 0" by (simp add: and.assoc)
    show ?thesis
    proof (cases ok)
      case True
      with assms(2) Pair Some set have "r = Inr ()" "saved = Some original" "w' = w2"
        by (simp_all add: hide_echo_def Let_def)
      with True o off terminal_lawsD(2) [OF assms(1) set] show ?thesis by (simp add: held_def)
    next
      case False
      with assms(2) Pair Some set have "r = Inl ''cannot hide password input''"
        "(saved, w') = echo_dropped T (Some original, w2)"
        by (auto simp: hide_echo_def Let_def)
      with echo_dropped_held [OF assms(1), of "settings w" "(Some original, w2)"] o show ?thesis
        by (simp add: held_def)
    qed
  qed
qed

lemma written_eq: "written f (saved, w) = (r, (saved', w')) \<longleftrightarrow>
  saved' = saved \<and> (\<exists>ok. f w = (ok, w') \<and> r = (if ok then Inr () else Inl ''cannot write prompt''))"
  by (auto simp: written_def split: prod.splits)

lemma read_guarded_held:
  assumes "terminal_laws T settings"
    "read_guarded T prompt True (Some original, w) = (r, (saved', w'))"
  shows "held settings original (saved', w') \<and>
    (case r of Inl e \<Rightarrow> True
     | Inr line \<Rightarrow> saved' = None \<and>
         (\<exists>w1 w2. settings w1 = settings w \<and> read_line T w1 = (line, w2)))"
proof -
  obtain ok1 wa where a: "write_out T prompt w = (ok1, wa)" by (cases "write_out T prompt w")
  obtain ok2 wb where b: "flush_out T wa = (ok2, wb)" by (cases "flush_out T wa")
  obtain line wc where c: "read_line T wb = (line, wc)" by (cases "read_line T wb")
  have keep: "settings wb = settings w"
    using terminal_lawsD(3) [OF assms(1) a] terminal_lawsD(4) [OF assms(1) b] by simp
  show ?thesis
  proof (cases "ok1 \<and> ok2")
    case False
    with assms(2) a b show ?thesis
      by (auto simp: read_guarded_def try_io_def written_def held_def split: if_splits)
  next
    case True
    obtain r3 s3 where d: "restore_terminal T TCSANOW (Some original, wc) = (r3, s3)"
      by (cases "restore_terminal T TCSANOW (Some original, wc)")
    from restore_terminal_held [OF assms(1) _ d, of original]
    have h: "held settings original s3" "is_ok r3 \<longrightarrow> fst s3 = None" by (simp_all add: held_def)
    from assms(2) True a b c d have "(saved', w') = s3" "r = (case r3 of Inl e \<Rightarrow> Inl e | Inr _ \<Rightarrow> Inr line)"
      by (auto simp: read_guarded_def try_io_def written_def split: sum.splits)
    with h c keep show ?thesis by (cases r3) auto
  qed
qed


lemma checked_line_Inr:
  assumes "checked_line line = Inr v"
  shows "\<exists>whole. line = Some whole \<and> v = trim_end_matches (\<lambda>c. c = CR \<or> c = NL) whole \<and> v \<noteq> []"
  using assms by (auto simp: checked_line_def Let_def split: if_splits)

text \<open>
  C32. The terminal's echo comes back: reading a secret line on a terminal whose settings are not
  already saved, the line is read with the echo off and the original settings saved, where the
  interrupt handler finds them; when the line is returned the original settings are in force and
  nothing is saved; and so they are after any error, unless the last thing done was to put them
  back and the terminal refused it: then they are still saved, so the handler can try again. The
  line is not empty and has no line break at its end.
\<close>

theorem echo_restored:
  assumes "terminal_laws T settings" "read_input T prompt True (None, w) = (r, (saved', w'))"
  shows "(if saved' = None then settings w' = settings w
      else saved' = Some (settings w) \<and> (\<exists>w1. tcsetattr T TCSAFLUSH (settings w) w1 = (False, w'))) \<and>
    (case r of
       Inl e \<Rightarrow> True
     | Inr v \<Rightarrow> saved' = None \<and>
         v \<noteq> [] \<and> last v \<noteq> CR \<and> last v \<noteq> NL \<and>
         (\<exists>w0 w1 w2 whole. hide_echo T (None, w) = (Inr (), (Some (settings w), w0)) \<and>
            settings w1 = settings w0 \<and> c_lflag (settings w1) AND (ECHO T OR ECHONL T) = 0 \<and>
            read_line T w1 = (Some whole, w2) \<and> v = trim_end_matches (\<lambda>c. c = CR \<or> c = NL) whole))"
proof -
  obtain r0 s0 w0 where h: "hide_echo T (None, w) = (r0, (s0, w0))"
    by (cases "hide_echo T (None, w)") auto
  note hide = hide_echo_held [OF assms(1) h]
  show ?thesis
  proof (cases r0)
    case (Inl e)
    with assms(2) h have "r = Inl e" "saved' = s0" "w' = w0"
      by (simp_all add: read_input_def try_io_def)
    with Inl hide hide_echo_left [of T w e _ w0] h show ?thesis
      by (auto simp: held_def restore_refused_def)
  next
    case (Inr u)
    with hide have s0: "s0 = Some (settings w)" and off: "c_lflag (settings w0) AND echo_bits T = 0"
      by simp_all
    obtain r1 s1 w1 where g: "read_guarded T prompt True (Some (settings w), w0) = (r1, (s1, w1))"
      by (cases "read_guarded T prompt True (Some (settings w), w0)") auto
    obtain s2 w2 where d: "echo_dropped T (s1, w1) = (s2, w2)" by (cases "echo_dropped T (s1, w1)")
    note read = read_guarded_held [OF assms(1) g]
    have held2: "held settings (settings w) (s2, w2)"
      using echo_dropped_held [OF assms(1), of "settings w" "(s1, w1)"] read d by simp
    have rest: "read_input T prompt True (None, w) =
      (case r1 of Inl e \<Rightarrow> (Inl e, (s2, w2))
       | Inr line \<Rightarrow> try_io (written (write_out T [NL])) (\<lambda>_. lift (checked_line line)) (s2, w2))"
      using h Inr s0 g d by (simp add: read_input_def try_io_def in_any_case_def split: sum.splits)
    show ?thesis
    proof (cases r1)
      case (Inl e)
      with rest assms(2) held2 d echo_dropped_left [of T "(s1, w1)" _ w2] show ?thesis
        by (auto simp: held_def restore_refused_def)
    next
      case Inr1: (Inr line)
      obtain ok w3 where nl: "write_out T [NL] w2 = (ok, w3)" by (cases "write_out T [NL] w2")
      from Inr1 read have "s1 = None" by simp
      with d have "s2 = None" by (simp add: echo_dropped_def restore_terminal_def)
      with held2 terminal_lawsD(3) [OF assms(1) nl] have same: "settings w3 = settings w"
        by (simp add: held_def)
      from rest Inr1 nl assms(2) have outcome: "saved' = s2" "w' = w3"
        "r = (if ok then checked_line line else Inl ''cannot write prompt'')"
        by (auto simp: try_io_def written_def lift_def split: if_splits)
      show ?thesis
      proof (cases r)
        case (Inl e)
        with outcome(1,2) \<open>s2 = None\<close> same show ?thesis by simp
      next
        case (Inr v)
        with outcome(3) have "checked_line line = Inr v" by (simp split: if_splits)
        then obtain whole where v: "line = Some whole" "v \<noteq> []"
          "v = trim_end_matches (\<lambda>c. c = CR \<or> c = NL) whole"
          by (auto dest: checked_line_Inr)
        from Inr1 read v(1) obtain w4 w5 where "settings w4 = settings w0"
          "read_line T w4 = (Some whole, w5)" by auto
        with Inr outcome(1,2) \<open>s2 = None\<close> same v h \<open>r0 = Inr u\<close> s0 off
          last_trim_end_matches [of "\<lambda>c. c = CR \<or> c = NL" whole]
        show ?thesis by (auto simp: echo_bits_def)
      qed
    qed
  qed
qed

definition example_termios :: termios where
  "example_termios = \<lparr>c_lflag = 0x8, c_others = []\<rparr>"

text \<open>A console whose world is the settings themselves, and which reads one line.\<close>

definition example_console :: "termios console" where
  "example_console = \<lparr>ECHO = 0x8, ECHONL = 0x40, tcgetattr = (\<lambda>w. (Some w, w)),
     tcsetattr = (\<lambda>action t w. (True, t)), write_out = (\<lambda>_ w. (True, w)),
     flush_out = (\<lambda>w. (True, w)), read_line = (\<lambda>w. (Some (''pw'' @ [NL]), w)),
     read_file = (\<lambda>_ w. (None, w)), handler_installs = True\<rparr>"

theorem echo_restored_witness:
  "terminal_laws example_console (\<lambda>w. w) \<and>
   read_input example_console ''Password: '' True (None, example_termios) =
     (Inr ''pw'', (None, example_termios)) \<and> c_lflag example_termios AND (0x8 OR 0x40) \<noteq> 0"
proof -
  have laws: "terminal_laws example_console (\<lambda>w. w)"
    by (simp add: terminal_laws_def example_console_def)
  have "checked_line (Some (''pw'' @ [NL])) = Inr ''pw''"
    by (simp add: checked_line_def trim_end_matches_def NL_def CR_def)
  then have run: "read_input example_console ''Password: '' True (None, example_termios) =
     (Inr ''pw'', (None, example_termios))"
    by (simp add: read_input_def try_io_def hide_echo_def example_console_def in_any_case_def
        read_guarded_def written_def restore_terminal_def echo_dropped_def Let_def)
  from echo_restored [OF laws run] laws run show ?thesis by (simp add: example_termios_def)
qed

end
