(* ===== verification/Interrupt.thy ===== *)
theory Interrupt
  imports Terminal
begin

text \<open>
  The two threads of \<open>test-login\<close> (\<open>crates/himmelcloak-cli/src/test_login.rs\<close>): the main thread that
  prompts and reads, and the handler \<open>ctrlc\<close> runs on a thread of its own, which puts the terminal
  back and exits. They share \<open>SAVED_TERMINAL\<close> behind a mutex. What one of them does under the mutex
  is one step here, and the steps of the two interleave freely; \<open>read_input\<close> of \<open>Terminal\<close> is the
  main thread alone.
\<close>

subsection \<open>The steps of the main thread\<close>

datatype main_at = Prompting | Reading | Closing

datatype hide_result = Echo_Hidden | Hide_Failed | Hide_Refused string

text \<open>The part of \<open>hide_echo\<close> that holds the mutex; after \<open>Hide_Failed\<close> the guard is dropped.\<close>

definition hide_locked ::
  "'w console \<Rightarrow> termios option \<times> 'w \<Rightarrow> hide_result \<times> termios option \<times> 'w" where
  "hide_locked T = (\<lambda>(saved, w).
     if saved \<noteq> None then (Hide_Refused ''password input is already active'', (saved, w))
     else (case tcgetattr T w of
        (None, w1) \<Rightarrow>
          (Hide_Refused ''password input requires an interactive terminal'', (saved, w1))
      | (Some original, w1) \<Rightarrow>
          (case tcsetattr T TCSANOW
                  (original\<lparr>c_lflag := c_lflag original AND NOT (echo_bits T)\<rparr>) w1 of
             (ok, w2) \<Rightarrow> (if ok then Echo_Hidden else Hide_Failed, (Some original, w2)))))"

lemma hide_echo_locked:
  "hide_echo T s =
     (case hide_locked T s of
        (Echo_Hidden, s') \<Rightarrow> (Inr (), s')
      | (Hide_Failed, s') \<Rightarrow> (Inl ''cannot hide password input'', echo_dropped T s')
      | (Hide_Refused e, s') \<Rightarrow> (Inl e, s'))"
  by (cases s) (auto simp: hide_echo_def hide_locked_def Let_def split: option.splits prod.splits)

text \<open>
  Where the main thread is, whether the handler has put the terminal back and is about to exit, the
  saved settings and the outside world.
\<close>

record 'w threads =
  main_at :: main_at
  handler_exits :: bool
  saved_terminal :: "termios option"
  th_world :: 'w

definition terminal_of :: "'w threads \<Rightarrow> termios option \<times> 'w" where
  "terminal_of s = (saved_terminal s, th_world s)"

definition with_terminal :: "main_at \<Rightarrow> bool \<Rightarrow> termios option \<times> 'w \<Rightarrow> 'w threads" where
  "with_terminal pc exits t =
     \<lparr>main_at = pc, handler_exits = exits, saved_terminal = fst t, th_world = snd t\<rparr>"

definition after_hide :: "hide_result \<Rightarrow> main_at" where
  "after_hide r = (case r of Echo_Hidden \<Rightarrow> Reading | Hide_Failed \<Rightarrow> Closing | Hide_Refused _ \<Rightarrow> Prompting)"

datatype thread_event = Hides | Talks | Restores | Gives_Up | Guard_Drops | Interrupts

text \<open>
  A step: the main thread hides the echo, does anything that leaves the settings alone (prompts,
  reading a line, the network), restores the settings after the line, leaves the read on an error,
  or drops its guard; or the handler, once, restores the settings.
\<close>

inductive thread_step ::
  "'w console \<Rightarrow> ('w \<Rightarrow> termios) \<Rightarrow> thread_event \<Rightarrow> 'w threads \<Rightarrow> 'w threads \<Rightarrow> bool"
  for T :: "'w console" and settings :: "'w \<Rightarrow> termios" where
  hides: "hide_locked T t = (r, t') \<Longrightarrow>
     thread_step T settings Hides (with_terminal Prompting x t) (with_terminal (after_hide r) x t')"
| talks: "settings w' = settings w \<Longrightarrow>
     thread_step T settings Talks (with_terminal pc x (saved, w)) (with_terminal pc x (saved, w'))"
| restores: "restore_terminal T TCSANOW t = (r, t') \<Longrightarrow>
     thread_step T settings Restores (with_terminal Reading x t) (with_terminal Closing x t')"
| gives_up: "thread_step T settings Gives_Up (with_terminal Reading x t) (with_terminal Closing x t)"
| guard_drops:
    "thread_step T settings Guard_Drops (with_terminal Closing x t)
       (with_terminal Prompting x (echo_dropped T t))"
| interrupts: "restore_terminal T TCSAFLUSH t = (r, t') \<Longrightarrow>
     thread_step T settings Interrupts (with_terminal pc False t) (with_terminal pc True t')"

inductive thread_run ::
  "'w console \<Rightarrow> ('w \<Rightarrow> termios) \<Rightarrow> 'w threads \<Rightarrow> thread_event list \<Rightarrow> 'w threads \<Rightarrow> bool"
  for T :: "'w console" and settings :: "'w \<Rightarrow> termios" and s0 :: "'w threads" where
  no_step: "thread_run T settings s0 [] s0"
| one_step: "thread_run T settings s0 es s \<Longrightarrow> thread_step T settings e s s' \<Longrightarrow>
     thread_run T settings s0 (es @ [e]) s'"

subsection \<open>The settings are never lost\<close>

lemma hide_locked_held:
  assumes "terminal_laws T settings" "held settings original t" "hide_locked T t = (r, t')"
  shows "held settings original t'"
proof -
  obtain saved w where t: "t = (saved, w)" by (cases t)
  show ?thesis
  proof (cases saved)
    case None
    obtain got w1 where get: "tcgetattr T w = (got, w1)" by (cases "tcgetattr T w")
    from terminal_lawsD(1) [OF assms(1) get] assms(2,3) None t get show ?thesis
      by (auto simp: hide_locked_def held_def split: option.splits prod.splits)
  qed (use assms(2,3) t in \<open>simp add: hide_locked_def\<close>)
qed

lemma terminal_of_with [simp]: "terminal_of (with_terminal pc x t) = t"
  by (simp add: terminal_of_def with_terminal_def)

lemma thread_step_held:
  assumes "terminal_laws T settings" "thread_step T settings e s s'"
    and "held settings original (terminal_of s)"
  shows "held settings original (terminal_of s')"
  using assms(2,3)
proof (cases rule: thread_step.cases)
  case (hides t r t' x)
  with assms(3) hide_locked_held [OF assms(1) _ hides(4)] show ?thesis by simp
next
  case (restores t r t' x)
  with assms(3) restore_terminal_held [OF assms(1) _ restores(4)] show ?thesis by simp
next
  case (interrupts t r t' pc)
  with assms(3) restore_terminal_held [OF assms(1) _ interrupts(4)] show ?thesis by simp
next
  case (guard_drops x t)
  with assms(3) echo_dropped_held [OF assms(1), of original t] show ?thesis by simp
qed (use assms(3) in \<open>simp_all add: held_def\<close>)

lemma thread_run_held:
  assumes "terminal_laws T settings" "thread_run T settings s0 es s"
    and "held settings original (terminal_of s0)"
  shows "held settings original (terminal_of s)"
  using assms(2) by (induction rule: thread_run.induct) (auto intro: assms(3) thread_step_held [OF assms(1)])

subsection \<open>An interrupt puts the terminal back\<close>

definition restored :: "('w \<Rightarrow> termios) \<Rightarrow> termios \<Rightarrow> termios option \<times> 'w \<Rightarrow> bool" where
  "restored settings original t \<longleftrightarrow> fst t = None \<and> settings (snd t) = original"

lemma interrupt_restored:
  assumes "terminal_laws T settings" "held settings original (terminal_of s)"
    and "\<forall>w. fst (tcsetattr T TCSAFLUSH original w)"
    and "thread_step T settings Interrupts s s'"
  shows "restored settings original (terminal_of s')"
  using assms(4)
proof (cases rule: thread_step.cases)
  case (interrupts t r t' pc)
  have "tcsetattr T TCSAFLUSH original w \<noteq> (False, w')" for w w'
    using assms(3) by (metis fst_conv)
  then have "is_ok r" using assms(2) interrupts
    by (cases t)
      (auto simp: held_def restore_terminal_def is_ok_def split: option.splits prod.splits if_splits)
  with restore_terminal_held [OF assms(1) _ interrupts(3), of original] assms(2) interrupts
  show ?thesis by (cases t') (auto simp: restored_def held_def)
qed

lemma restore_terminal_idle [simp]: "restore_terminal T action (None, w) = (Inr (), (None, w))"
  by (simp add: restore_terminal_def)

lemma restored_step:
  assumes "thread_step T settings e s s'" "e \<noteq> Hides" "restored settings original (terminal_of s)"
  shows "restored settings original (terminal_of s')"
  using assms
  by (cases rule: thread_step.cases) (auto simp: restored_def echo_dropped_def)

lemma restored_run:
  assumes "thread_run T settings s0 es s" "Hides \<notin> set es"
    and "restored settings original (terminal_of s0)"
  shows "restored settings original (terminal_of s)"
  using assms(1,2) by (induction rule: thread_run.induct) (auto intro: assms(3) restored_step)

text \<open>
  C33. However the two threads interleave, once the interrupt handler has run the terminal has the
  settings it had when the login began, and no saved copy of them is left, provided the terminal
  takes its own settings back and the main thread starts no further hidden read before the process
  exits. The handler may find the main thread anywhere: before or in the read, with its guard still
  to drop, or after a failure to hide the echo.
\<close>

theorem interrupt_restores:
  assumes "terminal_laws T settings"
    and "\<forall>w. fst (tcsetattr T TCSAFLUSH (settings w0) w)"
    and "thread_run T settings (with_terminal Prompting False (None, w0)) es s"
    and "thread_step T settings Interrupts s s'"
    and "thread_run T settings s' later s''" "Hides \<notin> set later"
  shows "saved_terminal s'' = None \<and> settings (th_world s'') = settings w0"
proof -
  have "held settings (settings w0) (terminal_of s)"
    by (rule thread_run_held [OF assms(1,3)]) (simp add: held_def)
  from restored_run [OF assms(5,6) interrupt_restored [OF assms(1) this assms(2,4)]]
  show ?thesis by (simp add: restored_def terminal_of_def)
qed

lemma example_laws: "terminal_laws example_console (\<lambda>w. w)"
  by (simp add: terminal_laws_def example_console_def)

definition echo_off :: termios where
  "echo_off = example_termios\<lparr>c_lflag := c_lflag example_termios AND NOT (0x8 OR 0x40)\<rparr>"

lemma example_hides:
  "thread_step example_console (\<lambda>w. w) Hides (with_terminal Prompting x (None, example_termios))
     (with_terminal Reading x (Some example_termios, echo_off))"
  using thread_step.hides [of example_console "(None, example_termios)" Echo_Hidden
      "(Some example_termios, echo_off)" "\<lambda>w. w" x]
  by (simp add: hide_locked_def after_hide_def example_console_def echo_bits_def echo_off_def)

lemma example_interrupts:
  "thread_step example_console (\<lambda>w. w) Interrupts
     (with_terminal Reading False (Some example_termios, echo_off))
     (with_terminal Reading True (None, example_termios))"
  "thread_step example_console (\<lambda>w. w) Interrupts
     (with_terminal Prompting False (None, example_termios))
     (with_terminal Prompting True (None, example_termios))"
  by (rule thread_step.interrupts [where r = "Inr ()"], simp add: restore_terminal_def example_console_def)+

text \<open>The echo is off when the handler finds the main thread in the read, which then fails.\<close>

theorem interrupt_restores_witness:
  "thread_run example_console (\<lambda>w. w) (with_terminal Prompting False (None, example_termios)) [Hides]
     (with_terminal Reading False (Some example_termios, echo_off)) \<and>
   th_world (with_terminal Reading False (Some example_termios, echo_off)) \<noteq> example_termios \<and>
   saved_terminal (with_terminal Closing True (None, example_termios)) = None \<and>
   th_world (with_terminal Closing True (None, example_termios)) = example_termios"
proof -
  have run: "thread_run example_console (\<lambda>w. w) (with_terminal Prompting False (None, example_termios))
     [Hides] (with_terminal Reading False (Some example_termios, echo_off))"
    using thread_run.one_step [OF thread_run.no_step example_hides] by simp
  have later: "thread_run example_console (\<lambda>w. w) (with_terminal Reading True (None, example_termios))
     [Gives_Up] (with_terminal Closing True (None, example_termios))"
    using thread_run.one_step [OF thread_run.no_step thread_step.gives_up] by fastforce
  have "\<forall>w. fst (tcsetattr example_console TCSAFLUSH example_termios w)"
    by (simp add: example_console_def)
  from interrupt_restores [OF example_laws this run example_interrupts(1) later] run
  show ?thesis by (simp add: with_terminal_def echo_off_def example_termios_def)
qed

text \<open>
  The last condition is needed. The handler gives up the mutex before it calls \<open>process::exit\<close>, so the
  main thread can hide the echo in between, and the process exits with the echo off.
\<close>

lemma late_hide_leaves_echo_off:
  "\<exists>s. thread_run example_console (\<lambda>w. w) (with_terminal Prompting False (None, example_termios))
     [Interrupts, Hides] s \<and> handler_exits s \<and>
     c_lflag (th_world s) AND 0x8 = 0 \<and> c_lflag example_termios AND 0x8 \<noteq> 0"
proof (intro exI conjI)
  show "thread_run example_console (\<lambda>w. w) (with_terminal Prompting False (None, example_termios))
     [Interrupts, Hides] (with_terminal Reading True (Some example_termios, echo_off))"
    using thread_run.one_step [OF thread_run.one_step [OF thread_run.no_step example_interrupts(2)]
      example_hides] by simp
qed (simp_all add: with_terminal_def echo_off_def example_termios_def)

end
