(* ===== verification/Cli.thy ===== *)
theory Cli
  imports Terminal Evidence
begin

text \<open>
  \<open>crates/himmelcloak-cli\<close>: the \<open>test-login\<close> command (\<open>src/test_login.rs\<close>) over the terminal, and the
  dispatcher \<open>src/main.rs\<close> on Unix. \<open>None\<close> as the result of a whole command is one that does not
  return: the panic of \<open>Config::new\<close> on its constant, or a login loop without end.
\<close>

subsection \<open>The \<open>test-login\<close> command\<close>

record login_settings =
  ls_server_url :: string
  ls_realm :: string
  ls_client_id :: string
  ls_ca_bundle :: "string option"

definition parse_login_config ::
  "'v toml \<Rightarrow> ('v \<Rightarrow> login_settings option) \<Rightarrow> 'w deps \<Rightarrow> string \<Rightarrow> (string + config) option" where
  "parse_login_config T into D source =
     (case try_res (ok_or (toml_parse T source) ''malformed configuration'') (\<lambda>document.
           try_res (ok_or (toml_get T document ''login'') ''missing [login] settings'') (\<lambda>table.
             ok_or (into table) ''invalid [login] settings'')) of
        Inl e \<Rightarrow> Some (Inl e)
      | Inr s \<Rightarrow>
          map_option
            (\<lambda>r. try_res (map_err (\<lambda>_. ''invalid login configuration'') r)
                    (\<lambda>c. Inr (c\<lparr>ca_bundle := ls_ca_bundle s\<rparr>)))
            (new_config D (ls_server_url s) (ls_realm s) (ls_client_id s)))"

definition load_config ::
  "'w console \<Rightarrow> 'v toml \<Rightarrow> ('v \<Rightarrow> login_settings option) \<Rightarrow> 'w deps \<Rightarrow> string \<Rightarrow> 'w \<Rightarrow>
   (string + config) option \<times> 'w" where
  "load_config C T into D path w =
     (case read_file C path w of
        (None, w') \<Rightarrow> (Some (Inl ''cannot read configuration''), w')
      | (Some source, w') \<Rightarrow> (parse_login_config T into D source, w'))"

text \<open>The message for an error of \<open>initiate_auth_flow\<close>.\<close>

fun start_error :: "error \<Rightarrow> string" where
  "start_error (HttpStatus _) = ''cannot start login: unexpected HTTP status''"
| "start_error (Transport _) = ''cannot start login: transport failure''"
| "start_error (Protocol _) = ''cannot start login: protocol failure''"
| "start_error UnsupportedFactor = ''cannot start login: unsupported factor''"
| "start_error Crypto = ''cannot start login: cryptographic failure''"
| "start_error (InvalidConfiguration _) = ''cannot start login: invalid configuration''"
| "start_error _ = ''cannot start login: engine failure''"

text \<open>
  \<open>login\<close> runs on the saved terminal settings, the login, the JWKS and the outside world. The first
  part of the loop's body is the answer to a step: none when the login is complete, and otherwise
  also whether the password has been submitted by then.
\<close>

type_synonym 'w command_state = "termios option \<times> 'w login_state"

definition in_terminal :: "('w, 'a) term_act \<Rightarrow> ('w command_state, string, 'a) io" where
  "in_terminal m = (\<lambda>(saved, f, k, w).
     (case m (saved, w) of (r, (saved', w')) \<Rightarrow> (r, (saved', f, k, w'))))"

definition cancelled :: "'w deps \<Rightarrow> string \<Rightarrow> ('w command_state, string, 'a) io" where
  "cancelled D message = (\<lambda>(saved, f, k, w).
     (case cancel D (f, w) of (f', w') \<Rightarrow> (Inl message, (saved, f', k, w'))))"

definition login_answer ::
  "'w deps \<Rightarrow> 'w console \<Rightarrow> bool \<Rightarrow> auth_step \<Rightarrow>
   ('w command_state, string, (answer \<times> bool) option) io" where
  "login_answer D C submitted step =
     (case step of
        Complete _ \<Rightarrow> ret None
      | Failed _ \<Rightarrow> throw ''login failed''
      | Challenge c \<Rightarrow>
          if (c = Ask_Username \<or> c = Ask_Password) \<and> submitted then cancelled D ''login failed''
          else if c = Ask_Username then
            try_io (in_terminal (read_input C ''Username: '' False)) (\<lambda>v.
              ret (Some (Username v, submitted)))
          else if c = Ask_Password then
            try_io (in_terminal (read_input C ''Password: '' True)) (\<lambda>v.
              ret (Some (Password v, True)))
          else cancelled D ''this command currently supports password login only'')"

partial_function (option) login_loop ::
  "'w deps \<Rightarrow> 'w console \<Rightarrow> app \<Rightarrow> bool \<Rightarrow> auth_step \<Rightarrow> 'w command_state \<Rightarrow>
   ((string + unit) \<times> 'w command_state) option" where
  "login_loop D C a submitted step s =
     (case login_answer D C submitted step s of
        (Inl e, s1) \<Rightarrow> Some (Inl e, s1)
      | (Inr None, s1) \<Rightarrow> Some (Inr (), s1)
      | (Inr (Some (answer, submitted')), (saved, s1)) \<Rightarrow>
          (case continue_auth_flow D a answer s1 of
             (Inl e, s2) \<Rightarrow> Some (Inl ''login failed'', (saved, s2))
           | (Inr step', s2) \<Rightarrow> login_loop D C a submitted' step' (saved, s2)))"

definition default_start :: start where
  "default_start = \<lparr>start_login_hint = None, start_scopes = []\<rparr>"

text \<open>The login is dropped, and with it its secrets, when \<open>login\<close> returns.\<close>

definition login ::
  "string option \<Rightarrow> 'w deps \<Rightarrow> 'w console \<Rightarrow> config \<Rightarrow> termios option \<times> 'w \<Rightarrow>
   ((string + unit) \<times> termios option \<times> 'w) option" where
  "login backend D C c = (\<lambda>(saved, w).
     (case with_config backend D c w of
        (Inl e, w1) \<Rightarrow> Some (Inl ''cannot connect to Keycloak'', (saved, w1))
      | (Inr (a, k), w1) \<Rightarrow>
          (case initiate_auth_flow D a default_start (k, w1) of
             (Inl e, (k1, w2)) \<Rightarrow> Some (Inl (start_error e), (saved, w2))
           | (Inr (f, step), (k1, w2)) \<Rightarrow>
               map_option (\<lambda>(r, (saved', f', k', w')). (r, (saved', w')))
                 (login_loop D C a False step (saved, f, k1, w2)))))"

definition run_test_login ::
  "'w os \<Rightarrow> 'w console \<Rightarrow> 'v toml \<Rightarrow> ('v \<Rightarrow> login_settings option) \<Rightarrow> string option \<Rightarrow> 'w deps \<Rightarrow>
   string \<Rightarrow> termios option \<times> 'w \<Rightarrow> ((string + unit) \<times> termios option \<times> 'w) option" where
  "run_test_login S C T into backend D path = (\<lambda>(saved, w).
     (case load_config C T into D path w of
        (None, w1) \<Rightarrow> None
      | (Some (Inl e), w1) \<Rightarrow> Some (Inl e, (saved, w1))
      | (Some (Inr c), w1) \<Rightarrow>
          (case install_interrupt_handler C of
             Inl e \<Rightarrow> Some (Inl e, (saved, w1))
           | Inr _ \<Rightarrow>
               if \<not> runtime_builds S then Some (Inl ''cannot start login runtime'', (saved, w1))
               else login backend D C c (saved, w1))))"

subsection \<open>The command returns\<close>

text \<open>The builtin factors ask a page for its password, after its username or alone.\<close>

definition asked :: "auth_step \<Rightarrow> auth_flow \<Rightarrow> bool" where
  "asked step f \<longleftrightarrow>
     (case step of
        Challenge c \<Rightarrow>
          (case pending f of None \<Rightarrow> False
           | Some p \<Rightarrow> c = Ask_Password \<and> pend_queue p = [] \<or>
               c = Ask_Username \<and> pend_queue p = [Ask_Password])
      | _ \<Rightarrow> True)"

lemma password_challenges_cases:
  assumes "password_challenges kind hint = Inr (c # queue)"
  shows "c = Ask_Password \<and> queue = [] \<or> c = Ask_Username \<and> queue = [Ask_Password]"
  using assms by (auto simp: password_challenges_def split: page_kind.splits if_splits)

lemma present_asked:
  assumes "present D Builtin p (f, k, w) = (Inr step, (f', k', w'))"
  shows "asked step f'"
  using assms
proof (cases rule: present_Inr)
  case (asks kind form factor c queue)
  from asks(3,4) have "password_challenges kind (login_hint f) = Inr (c # queue)"
    by (auto simp: Builtin_def PasswordFactor_def split: page_kind.splits)
  from password_challenges_cases [OF this] asks show ?thesis by (auto simp: asked_def)
qed (simp add: asked_def)

lemma resolve_asked:
  assumes "resolve D a Builtin hops posted answer (f, k, w) = (Inr step, (f', k', w'))"
  shows "asked step f'"
  using assms
proof (induction hops arbitrary: posted answer f k w)
  case 0
  from "0.prems" show ?case
    by (cases rule: resolve_Inr)
      (auto dest: present_asked complete_completed simp: asked_def)
next
  case (Suc hops)
  from Suc.prems show ?case
  proof (cases rule: resolve_Inr)
    case (follows red n w1 w2 j w3 next_answer)
    with Suc.IH show ?thesis by simp
  qed (auto dest: present_asked complete_completed simp: asked_def)
qed

lemma begin_asked:
  assumes "begin_login D a Builtin st (f, k, w) = (Inr step, (f', k', w'))"
  shows "asked step f'"
proof -
  from assms have "first_page D a Builtin st (f, k, w) = (Inr step, (f', k', w'))"
    by (simp add: begin_login_def unless_ok_eq)
  then show ?thesis by (rule first_page_Inr) (rule resolve_asked)
qed

lemma advance_username:
  assumes "advance D a Builtin ans (f, k, w) = (Inr step, (f', k', w'))"
    and "pending f = Some p" "pend_queue p = [Ask_Password]"
  shows "step = Challenge Ask_Password"
proof -
  from assms(1) have "answer_page D a Builtin ans (f, k, w) = (Inr step, (f', k', w'))"
    by (simp add: advance_def unless_ok_eq)
  then show ?thesis using assms(2,3) by (cases rule: answer_page_Inr) auto
qed

text \<open>What the console does to the world: none of it is an exchange or a look at the clock.\<close>

definition console_step :: "'w console \<Rightarrow> 'w \<Rightarrow> 'w \<Rightarrow> bool" where
  "console_step C w w' \<longleftrightarrow>
     (\<exists>text. w' = snd (write_out C text w)) \<or> w' = snd (flush_out C w) \<or> w' = snd (read_line C w) \<or>
     w' = snd (tcgetattr C w) \<or> (\<exists>action t. w' = snd (tcsetattr C action t w))"

definition typed :: "'w deps \<Rightarrow> 'w console \<Rightarrow> ('w, 'a) term_act \<Rightarrow> bool" where
  "typed D C m \<longleftrightarrow> (\<forall>s. trace D (console_step C) (snd s) [] (snd (snd (m s))))"

lemma typed_step:
  assumes "trace D (console_step C) w0 [] w"
  shows "write_out C text w = (x, w') \<Longrightarrow> trace D (console_step C) w0 [] w'"
    "flush_out C w = (x, w') \<Longrightarrow> trace D (console_step C) w0 [] w'"
    "read_line C w = (y, w') \<Longrightarrow> trace D (console_step C) w0 [] w'"
    "tcgetattr C w = (z, w') \<Longrightarrow> trace D (console_step C) w0 [] w'"
    "tcsetattr C action t w = (x, w') \<Longrightarrow> trace D (console_step C) w0 [] w'"
  by (rule trace.idles [OF assms], subst console_step_def, metis snd_conv)+

lemmas typed_first = typed_step [OF trace.nothing]

lemma typed_combine:
  "typed D C (ret x)" "typed D C (lift r)"
  "typed D C m \<Longrightarrow> (\<And>x. typed D C (g x)) \<Longrightarrow> typed D C (try_io m g)"
  "typed D C m \<Longrightarrow> typed D C m' \<Longrightarrow> typed D C (if b then m else m')"
proof -
  show "typed D C (ret x)" "typed D C (lift r)"
    by (auto simp: typed_def ret_def lift_def intro: trace.nothing)
  show "typed D C m \<Longrightarrow> typed D C m' \<Longrightarrow> typed D C (if b then m else m')" by simp
  assume m: "typed D C m" and g: "\<And>x. typed D C (g x)"
  show "typed D C (try_io m g)"
    unfolding typed_def
  proof
    fix s
    obtain r t where run: "m s = (r, t)" by (cases "m s")
    with m have t: "trace D (console_step C) (snd s) [] (snd t)" by (metis typed_def snd_conv)
    show "trace D (console_step C) (snd s) [] (snd (snd (try_io m g s)))"
    proof (cases r)
      case (Inl e)
      with run t show ?thesis by (simp add: try_io_def)
    next
      case (Inr x)
      have "trace D (console_step C) (snd t) [] (snd (snd (g x t)))" using g typed_def by metis
      with trace_append [OF t this] run Inr show ?thesis by (simp add: try_io_def)
    qed
  qed
qed

lemma typed_terminal:
  "typed D C (restore_terminal C action)" "typed D C (written (write_out C text))"
  "typed D C (written (flush_out C))"
  "typed D C (\<lambda>(saved, w). case read_line C w of (line, w') \<Rightarrow> (Inr line, (saved, w')))"
  by (auto simp: typed_def restore_terminal_def written_def split: option.splits prod.splits
      intro: typed_first trace.nothing)

lemma typed_guard:
  fixes m :: "('w, 'a) term_act"
  assumes m: "typed D C m"
  shows "typed D C (in_any_case (echo_dropped C) m)"
proof -
  have "typed D C (\<lambda>s. (fst (m s), echo_dropped C (snd (m s))))"
    unfolding typed_def
  proof
    fix s :: "termios option \<times> 'w"
    have "trace D (console_step C) (snd s) [] (snd (snd (m s)))" using m typed_def by metis
    moreover have "trace D (console_step C) (snd (snd (m s))) [] (snd (echo_dropped C (snd (m s))))"
      using typed_terminal(1) unfolding typed_def echo_dropped_def by metis
    ultimately show "trace D (console_step C) (snd s) []
        (snd (snd (fst (m s), echo_dropped C (snd (m s)))))" using trace_append by fastforce
  qed
  then show ?thesis by (simp add: typed_def in_any_case_def case_prod_unfold)
qed

lemma typed_hide:
  fixes C :: "'w console"
  shows "typed D C (hide_echo C)"
  unfolding typed_def
proof
  fix s :: "termios option \<times> 'w"
  obtain saved w where s: "s = (saved, w)" by (cases s)
  have drop: "trace D (console_step C) w2 [] (snd (echo_dropped C (x, w2)))" for x w2
    using typed_terminal(1) unfolding typed_def echo_dropped_def by (metis snd_conv)
  show "trace D (console_step C) (snd s) [] (snd (snd (hide_echo C s)))"
    unfolding s
    by (auto simp: hide_echo_def Let_def split: option.splits prod.splits
        intro: typed_first typed_step(5) trace.nothing)
      (metis append_Nil drop trace_append typed_first(4) typed_step(5))
qed

lemma typed_read_input: "typed D C (read_input C prompt hidden)"
proof -
  have "typed D C (read_guarded C prompt b)" for b
    unfolding read_guarded_def by (intro typed_combine typed_terminal)
  then show ?thesis
    unfolding read_input_def by (intro typed_combine typed_terminal typed_guard typed_hide)
qed

text \<open>
  The login so far: from its start it has observed \<open>es\<close>, and if the last step completed it, then
  with the evidence among them. A successful end of the command is such a completion.
\<close>

definition so_far ::
  "'w deps \<Rightarrow> 'w console \<Rightarrow> app \<Rightarrow> 'w login_state \<Rightarrow> observation list \<Rightarrow> auth_step \<Rightarrow>
   'w command_state \<Rightarrow> bool" where
  "so_far D C a = (\<lambda>(f0, k0, w0) es step (saved, f, k, w).
     (\<exists>reason. step = Failed reason) \<or>
     trace D (console_step C) w0 es w \<and> step_traced D a f0 k0 es step f k)"

definition login_result ::
  "'w deps \<Rightarrow> 'w console \<Rightarrow> app \<Rightarrow> 'w login_state \<Rightarrow> observation list \<Rightarrow> string + unit \<Rightarrow>
   'w command_state \<Rightarrow> bool" where
  "login_result D C a = (\<lambda>(f0, k0, w0) es r (saved, f, k, w).
     is_ok r \<longrightarrow> (\<exists>rest t. trace D (console_step C) w0 (es @ rest) w \<and>
       login_evidence D a (oauth_state f0) (pkce_verifier f0) (flow_nonce f0) k0 (es @ rest) t k))"

lemma login_result_earlier:
  "login_result D C a s0 (es @ es') r s \<Longrightarrow> login_result D C a s0 es r s"
  by (cases s0; cases s) (auto simp: login_result_def append_assoc)

lemma login_answer_typed:
  assumes "login_answer D C submitted (Challenge c) (saved, f, k, w) =
    (Inr (Some (ans, submitted')), (saved', f', k', w'))"
  shows "f' = f \<and> k' = k \<and> trace D (console_step C) w [] w'"
proof -
  have input: "trace D (console_step C) w [] w'" if "read_input C prompt hidden (saved, w) = (r, (saved', w'))"
    for prompt hidden r
    using typed_read_input [of D C prompt hidden] that unfolding typed_def by (metis snd_conv)
  from assms show ?thesis
    by (auto simp: login_answer_def cancelled_def in_terminal_def try_io_eq_Inr
        split: if_splits prod.splits dest: input)
qed

lemma so_far_answered:
  assumes "so_far D C a s0 es step s"
    and "login_answer D C submitted step s = (Inr (Some (ans, submitted')), (saved, f, k, w))"
    and "advance D a Builtin ans (f, k, w) = (Inr step', (f', k', w'))"
  shows "\<exists>rest. so_far D C a s0 (es @ rest) step' (saved, f', k', w')"
proof (cases "\<exists>reason. step' = Failed reason")
  case True
  then show ?thesis by (cases s0) (simp add: so_far_def)
next
  case False
  obtain f0 k0 w0 where s0: "s0 = (f0, k0, w0)" by (cases s0)
  obtain saved1 f1 k1 w1 where s: "s = (saved1, f1, k1, w1)" by (cases s) auto
  from assms(2) s obtain c where c: "step = Challenge c" by (cases step) (auto simp: login_answer_def)
  from login_answer_typed [OF assms(2) [unfolded s c]] have kept: "f = f1" "k = k1"
    "trace D (console_step C) w1 [] w" by auto
  from assms(1) s0 s c have before: "trace D (console_step C) w0 es w1" "k1 = k0" "secrets f1 = secrets f0"
    by (auto simp: so_far_def step_traced_def)
  from advance_traced [OF assms(3), of "console_step C"] False obtain rest where
    rest: "trace D (console_step C) w rest w'" "step_traced D a f k rest step' f' k'" by auto
  have "trace D (console_step C) w0 (es @ rest) w'"
    using trace_append [OF trace_append [OF before(1) kept(3)] rest(1)] by simp
  moreover have "step_traced D a f0 k0 (es @ rest) step' f' k'"
    using step_traced_earlier [OF rest(2)] kept before step_traced_same by metis
  ultimately show ?thesis by (auto simp: so_far_def s0)
qed

lemma login_loop_stops:
  assumes "so_far D C a s0 es step s"
    and "login_answer D C submitted step s = (r, s1)" "r = Inl e \<or> r = Inr None"
  shows "\<exists>r s'. login_loop D C a submitted step s = Some (r, s') \<and> login_result D C a s0 es r s'"
proof (cases step)
  case (Complete t)
  obtain saved f k w where s: "s = (saved, f, k, w)" by (cases s) auto
  have "login_result D C a s0 es (Inr ()) s"
    using assms(1) Complete s
    by (cases s0) (auto simp: so_far_def login_result_def step_traced_def intro!: exI [of _ "[]"])
  then show ?thesis
    using Complete s by (subst login_loop.simps) (simp add: login_answer_def)
next
  case (Failed reason)
  then show ?thesis
    by (cases s; cases s0, subst login_loop.simps) (simp add: login_answer_def login_result_def)
next
  case (Challenge c)
  then have "r \<noteq> Inr None"
    using assms(2) by (cases s) (auto simp: login_answer_def cancelled_def try_io_def
        split: if_splits prod.splits sum.splits)
  with assms(2,3) show ?thesis
    by (cases s1; cases s0, subst login_loop.simps) (auto simp: login_result_def)
qed

lemma login_loop_step:
  assumes "so_far D C a s0 es step s"
    and "\<And>ans submitted' saved f k w step' f' k' w' rest.
      login_answer D C submitted step s = (Inr (Some (ans, submitted')), (saved, f, k, w)) \<Longrightarrow>
      advance D a Builtin ans (f, k, w) = (Inr step', (f', k', w')) \<Longrightarrow>
      so_far D C a s0 (es @ rest) step' (saved, f', k', w') \<Longrightarrow>
      \<exists>r s'. login_loop D C a submitted' step' (saved, f', k', w') = Some (r, s') \<and>
        login_result D C a s0 (es @ rest) r s'"
  shows "\<exists>r s'. login_loop D C a submitted step s = Some (r, s') \<and> login_result D C a s0 es r s'"
proof -
  obtain r s1 where ans: "login_answer D C submitted step s = (r, s1)"
    by (cases "login_answer D C submitted step s")
  show ?thesis
  proof (cases "\<exists>answer submitted'. r = Inr (Some (answer, submitted'))")
    case False
    then have "(\<exists>e. r = Inl e) \<or> r = Inr None" by (metis obj_sumE option.exhaust prod.exhaust)
    with login_loop_stops [OF assms(1) ans] show ?thesis by blast
  next
    case True
    then obtain answer submitted' where r: "r = Inr (Some (answer, submitted'))" by blast
    obtain saved f k w where s1: "s1 = (saved, f, k, w)" by (cases s1) auto
    obtain r2 f' k' w' where adv: "advance D a Builtin answer (f, k, w) = (r2, (f', k', w'))"
      by (cases "advance D a Builtin answer (f, k, w)") auto
    show ?thesis
    proof (cases r2)
      case (Inl e)
      with ans r s1 adv show ?thesis
        by (subst login_loop.simps) (cases s0, simp add: continue_auth_flow_def login_result_def)
    next
      case (Inr step')
      from so_far_answered [OF assms(1) ans [unfolded r s1] adv [unfolded Inr]] obtain rest where
        "so_far D C a s0 (es @ rest) step' (saved, f', k', w')" by blast
      from assms(2) [OF ans [unfolded r s1] adv [unfolded Inr] this] obtain r3 s3 where
        "login_loop D C a submitted' step' (saved, f', k', w') = Some (r3, s3)"
        "login_result D C a s0 es r3 s3" using login_result_earlier by blast
      with ans r s1 adv Inr show ?thesis
        by (subst login_loop.simps) (simp add: continue_auth_flow_def)
    qed
  qed
qed

lemma loop_submitted:
  assumes "so_far D C a s0 es step s"
  shows "\<exists>r s'. login_loop D C a True step s = Some (r, s') \<and> login_result D C a s0 es r s'"
proof -
  obtain r s1 where "login_answer D C True step s = (r, s1)"
    by (cases "login_answer D C True step s")
  moreover from this have "(\<exists>e. r = Inl e) \<or> r = Inr None"
    by (cases s; cases step) (auto simp: login_answer_def cancelled_def split: if_splits prod.splits)
  ultimately show ?thesis using login_loop_stops [OF assms] by metis
qed

lemma loop_password:
  assumes "so_far D C a s0 es (Challenge Ask_Password) s"
  shows "\<exists>r s'. login_loop D C a submitted (Challenge Ask_Password) s = Some (r, s') \<and>
     login_result D C a s0 es r s'"
proof (rule login_loop_step [OF assms])
  fix ans submitted' saved f k w step' f' k' w' rest
  assume ans: "login_answer D C submitted (Challenge Ask_Password) s =
      (Inr (Some (ans, submitted')), (saved, f, k, w))"
    and sf: "so_far D C a s0 (es @ rest) step' (saved, f', k', w')"
  from ans have "submitted'"
    by (cases s) (auto simp: login_answer_def cancelled_def try_io_eq_Inr split: if_splits prod.splits)
  with loop_submitted [OF sf]
  show "\<exists>r s'. login_loop D C a submitted' step' (saved, f', k', w') = Some (r, s') \<and>
      login_result D C a s0 (es @ rest) r s'" by simp
qed

lemma loop_asked:
  assumes "asked step f" "so_far D C a s0 es step (saved, f, k, w)"
  shows "\<exists>r s'. login_loop D C a False step (saved, f, k, w) = Some (r, s') \<and>
    login_result D C a s0 es r s'"
proof (rule login_loop_step [OF assms(2)])
  fix ans submitted' saved1 f1 k1 w1 step' f' k' w' rest
  assume ans: "login_answer D C False step (saved, f, k, w) =
      (Inr (Some (ans, submitted')), (saved1, f1, k1, w1))"
    and adv: "advance D a Builtin ans (f1, k1, w1) = (Inr step', (f', k', w'))"
    and sf: "so_far D C a s0 (es @ rest) step' (saved1, f', k', w')"
  show "\<exists>r s'. login_loop D C a submitted' step' (saved1, f', k', w') = Some (r, s') \<and>
      login_result D C a s0 (es @ rest) r s'"
  proof (cases submitted')
    case True
    with loop_submitted [OF sf] show ?thesis by simp
  next
    case False
    with ans have step: "step = Challenge Ask_Username" and f1: "f1 = f"
      by (auto simp: login_answer_def cancelled_def in_terminal_def try_io_eq_Inr
          split: if_splits prod.splits auth_step.splits)
    with assms(1) obtain p where "pending f = Some p" "pend_queue p = [Ask_Password]"
      by (auto simp: asked_def split: option.splits)
    with adv f1 have "step' = Challenge Ask_Password" by (auto dest: advance_username)
    with loop_password sf show ?thesis by blast
  qed
qed

lemma initiate_Inr:
  assumes "initiate_auth_flow D a st (k, w) = (Inr (f, step), (k', w'))"
  obtains f0 w2 where "new_flow D DEFAULT_LOGIN_TIMEOUT w = (Inr f0, w2)"
    "begin_login D a Builtin st (f0, k, w2) = (Inr step, (f, k', w'))"
proof -
  obtain r0 w2 where n0: "new_flow D DEFAULT_LOGIN_TIMEOUT w = (r0, w2)"
    by (cases "new_flow D DEFAULT_LOGIN_TIMEOUT w")
  with assms obtain f0 where n: "new_flow D DEFAULT_LOGIN_TIMEOUT w = (Inr f0, w2)"
    and i: "(case begin_login D a Builtin st (f0, (k, w2)) of
          (Inl e, (f', s')) \<Rightarrow> (Inl e, s')
        | (Inr step, (f', s')) \<Rightarrow> (Inr (f', step), s')) = (Inr (f, step), (k', w'))"
    by (cases r0) (simp_all add: initiate_auth_flow_def initiate_with_def try_io_def in_world_def)
  obtain r1 f1 k1 w1 where run: "begin_login D a Builtin st (f0, k, w2) = (r1, (f1, k1, w1))"
    by (cases "begin_login D a Builtin st (f0, k, w2)") auto
  with i have "begin_login D a Builtin st (f0, k, w2) = (Inr step, (f, k', w'))" by (cases r1) auto
  with n show thesis by (rule that)
qed

lemma initiate_asked:
  "initiate_auth_flow D a st (k, w) = (Inr (f, step), (k', w')) \<Longrightarrow> asked step f"
  by (erule initiate_Inr) (rule begin_asked)

text \<open>
  A login seen from beginning to end: with the client of this configuration a new login was begun,
  whose first request was the authorization request with its own secrets, and the observations from
  there to the end hold the evidence that it was completed.
\<close>

definition login_seen ::
  "string option \<Rightarrow> 'w deps \<Rightarrow> 'w console \<Rightarrow> config \<Rightarrow> 'w \<Rightarrow> 'w \<Rightarrow> bool" where
  "login_seen backend D C c w w' \<longleftrightarrow>
     (\<exists>a k w1 f w2 u first req x es t k'. with_config backend D c w = (Inr (a, k), w1) \<and>
        new_flow D DEFAULT_LOGIN_TIMEOUT w1 = (Inr f, w2) \<and>
        authorization_url D (authorization_endpoint (app_metadata a))
          (login_parameters a default_start f) = Inr u \<and>
        req_method req = Get \<and> req_url req = u \<and>
        trace D (console_step C) w2 (Clock first # Sent req x # es) w' \<and>
        login_evidence D a (oauth_state f) (pkce_verifier f) (flow_nonce f) k
          (Clock first # Sent req x # es) t k')"

lemma login_returns:
  "\<exists>r s'. login backend D C c (saved, w) = Some (r, s') \<and>
     (is_ok r \<longrightarrow> login_seen backend D C c w (snd s'))"
proof -
  obtain r0 w1 where w: "with_config backend D c w = (r0, w1)" by (cases "with_config backend D c w")
  show ?thesis
  proof (cases r0)
    case (Inl e)
    with w show ?thesis by (simp add: login_def)
  next
    case (Inr ak)
    obtain a k where ak: "ak = (a, k)" by (cases ak)
    obtain r1 k1 w2 where i: "initiate_auth_flow D a default_start (k, w1) = (r1, (k1, w2))"
      by (cases "initiate_auth_flow D a default_start (k, w1)") auto
    show ?thesis
    proof (cases r1)
      case (Inl e)
      with w Inr ak i show ?thesis by (simp add: login_def)
    next
      case started: (Inr fs)
      obtain f step where fs: "fs = (f, step)" by (cases fs)
      from initiate_Inr [OF i [unfolded started fs]] obtain f0 w3 where
        n: "new_flow D DEFAULT_LOGIN_TIMEOUT w1 = (Inr f0, w3)"
        and b: "begin_login D a Builtin default_start (f0, k, w3) = (Inr step, (f, k1, w2))" by blast
      have run: "login backend D C c (saved, w) = Some (r, (saved', w'))"
        if "login_loop D C a False step (saved, f, k1, w2) = Some (r, (saved', f', k', w'))"
        for r saved' f' k' w'
        using w Inr ak i started fs that by (simp add: login_def)
      show ?thesis
      proof (cases "\<exists>reason. step = Failed reason")
        case True
        then have "login_loop D C a False step (saved, f, k1, w2) =
            Some (Inl ''login failed'', (saved, f, k1, w2))"
          by (subst login_loop.simps) (auto simp: login_answer_def)
        from run [OF this] show ?thesis by simp
      next
        case False
        with begin_traced [OF b, of "console_step C"] obtain u first req x es where
          u: "authorization_url D (authorization_endpoint (app_metadata a))
                (login_parameters a default_start f0) = Inr u" "req_method req = Get" "req_url req = u"
          and es: "trace D (console_step C) w3 (Clock first # Sent req x # es) w2"
            "step_traced D a f0 k (Clock first # Sent req x # es) step f k1" by auto
        then have "so_far D C a (f0, k, w3) (Clock first # Sent req x # es) step (saved, f, k1, w2)"
          by (simp add: so_far_def)
        from loop_asked [OF begin_asked [OF b] this] obtain r saved' f' k' w' where
          l: "login_loop D C a False step (saved, f, k1, w2) = Some (r, (saved', f', k', w'))"
            "login_result D C a (f0, k, w3) (Clock first # Sent req x # es) r (saved', f', k', w')"
          by auto
        have "is_ok r \<longrightarrow> login_seen backend D C c w w'"
          using l(2) w Inr ak n u unfolding login_result_def login_seen_def by fastforce
        with run [OF l(1)] show ?thesis by simp
      qed
    qed
  qed
qed

lemma new_config_returns:
  "url_parse D default_redirect \<noteq> None \<Longrightarrow> new_config D server r c \<noteq> None"
  by (auto simp: new_config_def Let_def split: option.splits)

lemma parse_login_config_returns:
  "url_parse D default_redirect \<noteq> None \<Longrightarrow> parse_login_config T into D source \<noteq> None"
  by (auto simp: parse_login_config_def new_config_returns simp del: not_None_eq split: sum.splits)

lemma load_config_returns:
  assumes "url_parse D default_redirect \<noteq> None"
  shows "fst (load_config C T into D path w) \<noteq> None"
  using parse_login_config_returns [OF assms, of T into]
  by (auto simp: load_config_def split: prod.splits option.splits)

lemma run_test_login_returns:
  assumes "url_parse D default_redirect \<noteq> None"
  shows "\<exists>r s'. run_test_login S C T into backend D path (saved, w) = Some (r, s') \<and>
    (is_ok r \<longrightarrow> (\<exists>c w1. load_config C T into D path w = (Some (Inr c), w1) \<and>
       login_seen backend D C c w1 (snd s')))"
proof -
  obtain l w1 where l: "load_config C T into D path w = (l, w1)"
    by (cases "load_config C T into D path w")
  with load_config_returns [OF assms, of C T into path w] obtain r where r: "l = Some r"
    by (cases l) auto
  show ?thesis
  proof (cases "\<exists>c. r = Inr c \<and> is_ok (install_interrupt_handler C) \<and> runtime_builds S")
    case False
    with l r show ?thesis
      by (cases r) (auto simp: run_test_login_def split: sum.splits)
  next
    case True
    then obtain c where c: "r = Inr c" "install_interrupt_handler C = Inr ()" "runtime_builds S"
      by (auto simp: is_ok_iff)
    from login_returns [of backend D C c saved w1] obtain r2 s2 where
      "login backend D C c (saved, w1) = Some (r2, s2)"
      "is_ok r2 \<longrightarrow> login_seen backend D C c w1 (snd s2)" by blast
    then show ?thesis using l r c by (simp add: run_test_login_def)
  qed
qed

lemma core_config_returns:
  "url_parse D default_redirect \<noteq> None \<Longrightarrow> core_config D s \<noteq> None"
  by (auto simp: core_config_def new_config_returns simp del: not_None_eq)

lemma run_sync_returns:
  assumes "url_parse D default_redirect \<noteq> None"
  shows "run_sync S T backend D path w \<noteq> None"
  using core_config_returns [OF assms]
  by (simp add: run_sync_def parse_settings_def del: not_None_eq split: sum.split prod.split option.split)

subsection \<open>The dispatcher (\<open>main.rs\<close>)\<close>

datatype command = ConfigCheck | TestLogin | SyncUsers | ClearState

definition usage :: string where
  "usage = ''usage: himmelcloak-cli <config check|test-login|sync-users|clear-state>''"

definition parse_command :: "string list \<Rightarrow> string + command" where
  "parse_command arguments =
     (case arguments of
        [config, check] \<Rightarrow>
          if config = ''config'' \<and> check = ''check'' then Inr ConfigCheck else Inl usage
      | [command] \<Rightarrow>
          if command = ''test-login'' then Inr TestLogin
          else if command = ''sync-users'' then Inr SyncUsers
          else if command = ''clear-state'' then Inr ClearState
          else Inl usage
      | _ \<Rightarrow> Inl usage)"

text \<open>
  Everything the program is run with; the texts of the errors of the file system, the TOML parser,
  and the JSON text of a member list are the libraries'.
\<close>

record ('v, 'w) environment =
  env_os :: "'w os"
  env_console :: "'w console"
  env_toml :: "'v toml"
  env_login :: "'v \<Rightarrow> login_settings option"
  env_backend :: "string option"
  env_deps :: "'w deps"
  read_error_text :: "string \<Rightarrow> 'w \<Rightarrow> string"
  toml_error_text :: "string \<Rightarrow> string"
  members_text :: "group_member list \<Rightarrow> string"

record report =
  out_lines :: "string list"
  err_lines :: "string list"
  exit_code :: nat

definition CONFIG_PATH :: string where "CONFIG_PATH = ''himmelcloak.toml''"

definition parse_config :: "('v, 'w) environment \<Rightarrow> string \<Rightarrow> string + unit" where
  "parse_config E contents =
     map_err (\<lambda>_. toml_error_text E contents)
       (try_res (ok_or (toml_parse (env_toml E) contents) ()) (\<lambda>_. Inr ()))"

definition check_config :: "('v, 'w) environment \<Rightarrow> string \<Rightarrow> 'w \<Rightarrow> (string + unit) \<times> 'w" where
  "check_config E path w =
     (case read_file (env_console E) path w of
        (None, w') \<Rightarrow> (Inl (''cannot read '' @ path @ '': '' @ read_error_text E path w), w')
      | (Some contents, w') \<Rightarrow>
          (map_err (\<lambda>e. ''invalid '' @ path @ '': '' @ e) (parse_config E contents), w'))"

definition succeeded :: "string list \<Rightarrow> report" where
  "succeeded shown = \<lparr>out_lines = shown, err_lines = [], exit_code = 0\<rparr>"

definition failed_with :: "nat \<Rightarrow> string \<Rightarrow> report" where
  "failed_with status message = \<lparr>out_lines = [], err_lines = [message], exit_code = status\<rparr>"

definition main_command ::
  "('v, 'w) environment \<Rightarrow> command \<Rightarrow> termios option \<times> 'w \<Rightarrow>
   (report \<times> termios option \<times> 'w) option" where
  "main_command E command = (\<lambda>(saved, w).
     (case command of
        ConfigCheck \<Rightarrow>
          (case check_config E CONFIG_PATH w of
             (Inr _, w') \<Rightarrow> Some (succeeded [''himmelcloak-cli: himmelcloak.toml is valid''], saved, w')
           | (Inl e, w') \<Rightarrow> Some (failed_with 1 (''himmelcloak-cli: '' @ e), saved, w'))
      | TestLogin \<Rightarrow>
          map_option (\<lambda>(r, s').
              (case r of
                 Inr _ \<Rightarrow> succeeded [''himmelcloak-cli: login succeeded'']
               | Inl e \<Rightarrow> failed_with 1 (''himmelcloak-cli: '' @ e), s'))
            (run_test_login (env_os E) (env_console E) (env_toml E) (env_login E) (env_backend E)
              (env_deps E) CONFIG_PATH (saved, w))
      | SyncUsers \<Rightarrow>
          map_option (\<lambda>(r, w').
              (case r of
                 Inr ms \<Rightarrow> succeeded [members_text E ms]
               | Inl e \<Rightarrow> failed_with 1 (''himmelcloak-cli: sync-users: '' @ e), saved, w'))
            (run_sync (env_os E) (env_toml E) (env_backend E) (env_deps E) CONFIG_PATH w)
      | ClearState \<Rightarrow>
          Some (succeeded [''himmelcloak-cli: clear-state is not implemented yet''], saved, w)))"

definition main_program ::
  "('v, 'w) environment \<Rightarrow> string list \<Rightarrow> termios option \<times> 'w \<Rightarrow>
   (report \<times> termios option \<times> 'w) option" where
  "main_program E arguments s =
     (case parse_command arguments of
        Inl message \<Rightarrow> Some (failed_with 2 message, s)
      | Inr command \<Rightarrow> main_command E command s)"

text \<open>
  C34. The program always exits, and its exit status is true: whatever the files, the user and the
  server answer, it ends; wrong arguments give the usage and status 2 and touch nothing; otherwise
  the status is 0 or 1, and 1 comes with one line of error and no output. Status 0 for a test login
  means that this run completed the login it began: with the client of the configuration it read,
  the authorization request carried the login's own challenge, state and nonce, and what the
  command observed from there to its end holds the redirect with that state and the token response
  whose ID token is signed by keys in force, for this issuer, client and nonce, and in time. Status
  0 for a sync means that root ran it and that exactly the members read from the group were printed.
\<close>

theorem main_exits:
  assumes "url_parse (env_deps E) default_redirect \<noteq> None"
  shows "\<exists>rep s'. main_program E arguments (saved, w) = Some (rep, s') \<and>
    (case parse_command arguments of
       Inl message \<Rightarrow> rep = failed_with 2 usage \<and> s' = (saved, w)
     | Inr command \<Rightarrow>
         (exit_code rep = 0 \<and> err_lines rep = [] \<or>
          exit_code rep = 1 \<and> out_lines rep = [] \<and> length (err_lines rep) = 1) \<and>
         (if exit_code rep = 0 \<and> command = TestLogin
          then \<exists>c w1. load_config (env_console E) (env_toml E) (env_login E) (env_deps E) CONFIG_PATH w =
              (Some (Inr c), w1) \<and>
            login_seen (env_backend E) (env_deps E) (env_console E) c w1 (snd s')
          else True) \<and>
         (if exit_code rep = 0 \<and> command = SyncUsers
          then effective_uid (env_os E) = 0 \<and>
            (\<exists>ms. out_lines rep = [members_text E ms] \<and>
               run_sync (env_os E) (env_toml E) (env_backend E) (env_deps E) CONFIG_PATH w =
                 Some (Inr ms, snd s'))
          else True))"
proof (cases "parse_command arguments")
  case (Inl message)
  then have "message = usage" by (auto simp: parse_command_def split: list.splits if_splits)
  with Inl show ?thesis by (simp add: main_program_def)
next
  case (Inr command)
  show ?thesis
  proof (cases command)
    case ConfigCheck
    obtain r w' where "check_config E CONFIG_PATH w = (r, w')" by (cases "check_config E CONFIG_PATH w")
    with Inr ConfigCheck show ?thesis
      by (cases r) (simp_all add: main_program_def main_command_def succeeded_def failed_with_def)
  next
    case TestLogin
    from run_test_login_returns [OF assms, of "env_os E" "env_console E" "env_toml E" "env_login E"
        "env_backend E" CONFIG_PATH saved w] obtain r s' where
      "run_test_login (env_os E) (env_console E) (env_toml E) (env_login E) (env_backend E)
         (env_deps E) CONFIG_PATH (saved, w) = Some (r, s')"
      "is_ok r \<longrightarrow> (\<exists>c w1. load_config (env_console E) (env_toml E) (env_login E) (env_deps E)
           CONFIG_PATH w = (Some (Inr c), w1) \<and>
         login_seen (env_backend E) (env_deps E) (env_console E) c w1 (snd s'))" by blast
    with Inr TestLogin show ?thesis
      by (cases r) (simp_all add: main_program_def main_command_def succeeded_def failed_with_def)
  next
    case SyncUsers
    from run_sync_returns [OF assms, of "env_os E" "env_toml E" "env_backend E" CONFIG_PATH w]
    obtain r w' where run: "run_sync (env_os E) (env_toml E) (env_backend E) (env_deps E) CONFIG_PATH w
        = Some (r, w')" by auto
    show ?thesis
    proof (cases r)
      case (Inl e)
      with Inr SyncUsers run show ?thesis
        by (simp add: main_program_def main_command_def failed_with_def)
    next
      case ms: (Inr ms)
      with run have "effective_uid (env_os E) = 0" by (auto elim: run_sync_Inr)
      with Inr SyncUsers run ms show ?thesis
        by (simp add: main_program_def main_command_def succeeded_def)
    qed
  next
    case ClearState
    with Inr show ?thesis by (simp add: main_program_def main_command_def succeeded_def)
  qed
qed

definition silent_console :: "unit console" where
  "silent_console = \<lparr>ECHO = 0x8, ECHONL = 0x40, tcgetattr = (\<lambda>w. (None, w)),
     tcsetattr = (\<lambda>action t w. (False, w)), write_out = (\<lambda>_ w. (True, w)),
     flush_out = (\<lambda>w. (True, w)), read_line = (\<lambda>w. (None, w)),
     read_file = (\<lambda>_ w. (None, w)), handler_installs = True\<rparr>"

definition example_environment :: "(string, unit) environment" where
  "example_environment = \<lparr>env_os = example_os, env_console = silent_console, env_toml = example_toml,
     env_login = (\<lambda>_. None), env_backend = Some ''wolfSSL/5.7.0'', env_deps = group_deps,
     read_error_text = (\<lambda>_ _. []), toml_error_text = (\<lambda>_. []),
     members_text = (\<lambda>ms. concat (map member_username ms))\<rparr>"

theorem main_exits_witness:
  "\<exists>rep s'. main_program example_environment [''sync-users''] (None, ()) = Some (rep, s') \<and>
     exit_code rep = 0 \<and> out_lines rep = [''alice'']"
proof -
  have "url_parse (env_deps example_environment) default_redirect \<noteq> None"
    by (simp add: example_environment_def group_deps_def)
  from main_exits [OF this, of "[''sync-users'']" None "()"] obtain rep s' where
    m: "main_program example_environment [''sync-users''] (None, ()) = Some (rep, s')" by blast
  have "CONFIG_PATH \<noteq> ''/s''" by (simp add: CONFIG_PATH_def)
  from example_sync [OF this] m have "rep = succeeded [''alice'']"
    by (auto simp: main_program_def main_command_def parse_command_def example_environment_def
        alice_def)
  with m show ?thesis by (cases s') (simp add: succeeded_def)
qed


subsection \<open>Pages the command does not support\<close>

text \<open>
  With the builtin factors a page other than the login page is an error of the step, never a
  challenge, so the command's own message for unsupported challenges is never shown: the user is
  told that the login failed or could not start.
\<close>

definition unsupported_message :: string where
  "unsupported_message = ''this command currently supports password login only''"

lemma advance_asked:
  assumes "advance D a Builtin ans (f, k, w) = (Inr step', (f', k', w'))"
    and "asked (Challenge c) f"
  shows "asked step' f'"
proof -
  from assms(1) have "answer_page D a Builtin ans (f, k, w) = (Inr step', (f', k', w'))"
    by (simp add: advance_def unless_ok_eq)
  then show ?thesis
  proof (cases rule: answer_page_Inr)
    case (asks_next p c' rest)
    with assms(2) show ?thesis by (auto simp: asked_def)
  next
    case (posts p w1 j w2 answer)
    then show ?thesis by (blast intro: resolve_asked)
  qed
qed

definition quiet :: "('s, string, 'a) io \<Rightarrow> bool" where
  "quiet m \<longleftrightarrow> (\<forall>s. fst (m s) \<noteq> Inl unsupported_message)"

lemma quiet_combine:
  "quiet (ret x)"
  "quiet m \<Longrightarrow> (\<And>x. quiet (f x)) \<Longrightarrow> quiet (try_io m f)"
  "quiet m \<Longrightarrow> quiet (in_any_case g m)"
  "quiet m \<Longrightarrow> quiet m' \<Longrightarrow> quiet (if b then m else m')"
  "quiet (\<lambda>(saved, w). case read w of (line, w') \<Rightarrow> (Inr line, (saved, w')))"
  by (auto simp: quiet_def try_io_def in_any_case_def split: prod.splits sum.splits)
    (metis fst_conv)+

lemma quiet_terminal:
  "quiet (restore_terminal C action)" "quiet (hide_echo C)" "quiet (written g)"
  "quiet (lift (checked_line line))"
  by (auto simp: quiet_def restore_terminal_def hide_echo_def written_def lift_def checked_line_def
      unsupported_message_def Let_def try_res_def ok_or_def split: prod.splits option.splits)

lemma read_input_message:
  assumes "read_input C prompt hidden s = (Inl e, s')"
  shows "e \<noteq> unsupported_message"
proof -
  have "quiet (read_guarded C prompt hidden)" for hidden
    unfolding read_guarded_def by (intro quiet_combine quiet_terminal)
  then have "quiet (read_input C prompt hidden)"
    unfolding read_input_def by (intro quiet_combine quiet_terminal)
  then have "fst (read_input C prompt hidden s) \<noteq> Inl unsupported_message"
    unfolding quiet_def by (rule spec)
  with assms show ?thesis by auto
qed

lemma login_answer_message:
  assumes "login_answer D C submitted step (saved, f, k, w) = (Inl e, s')" "asked step f"
  shows "e \<noteq> unsupported_message"
proof (cases step)
  case (Challenge c)
  with assms(2) have "c = Ask_Username \<or> c = Ask_Password" by (auto simp: asked_def split: option.splits)
  with assms(1) Challenge show ?thesis
    by (auto simp: login_answer_def cancelled_def in_terminal_def try_io_eq_Inl unsupported_message_def [symmetric]
        dest: read_input_message split: if_splits prod.splits)
      (simp_all add: unsupported_message_def)
qed (use assms(1) in \<open>auto simp: login_answer_def unsupported_message_def\<close>)

lemma login_loop_message:
  assumes "login_loop D C a submitted step s = Some (r, s')" "asked step (fst (snd s))"
  shows "r \<noteq> Inl unsupported_message"
proof -
  have "asked step (fst (snd s)) \<longrightarrow> fst rs \<noteq> Inl unsupported_message"
    if ret: "login_loop D C a submitted step s = Some rs" for rs
  proof (rule login_loop.raw_induct [where
        P = "\<lambda>D C a submitted step s rs. asked step (fst (snd s)) \<longrightarrow>
          fst rs \<noteq> Inl unsupported_message", OF _ ret], intro impI)
    fix loop and D :: "'b deps" and C a submitted step s rs
    assume IH: "\<And>D C a submitted step s rs. loop D C a submitted step s = Some rs \<Longrightarrow>
        asked step (fst (snd s)) \<longrightarrow> fst rs \<noteq> Inl unsupported_message"
      and eq: "(case login_answer D C submitted step s of
          (Inl e, s1) \<Rightarrow> Some (Inl e, s1)
        | (Inr None, s1) \<Rightarrow> Some (Inr (), s1)
        | (Inr (Some (answer, submitted')), (saved, s1)) \<Rightarrow>
            (case continue_auth_flow D a answer s1 of
               (Inl e, s2) \<Rightarrow> Some (Inl ''login failed'', (saved, s2))
             | (Inr step', s2) \<Rightarrow> loop D C a submitted' step' (saved, s2))) = Some rs"
      and asked: "asked step (fst (snd s))"
    obtain saved f k w where s: "s = (saved, f, k, w)" by (cases s) auto
    obtain r1 saved1 f1 k1 w1 where ans: "login_answer D C submitted step s = (r1, (saved1, f1, k1, w1))"
      by (cases "login_answer D C submitted step s") auto
    show "fst rs \<noteq> Inl unsupported_message"
    proof (cases r1)
      case (Inl e)
      with eq ans login_answer_message [OF ans [unfolded s Inl]] asked s show ?thesis by auto
    next
      case (Inr x)
      show ?thesis
      proof (cases x)
        case None
        with eq ans Inr show ?thesis by auto
      next
        case (Some y)
        obtain answer submitted' where y: "y = (answer, submitted')" by (cases y)
        from ans [unfolded s Inr Some] obtain c where step: "step = Challenge c" and f1: "f1 = f"
          by (cases step) (auto simp: login_answer_def cancelled_def in_terminal_def try_io_eq_Inr
              split: if_splits prod.splits)
        obtain r2 f2 k2 w2 where adv: "advance D a Builtin answer (f1, k1, w1) = (r2, (f2, k2, w2))"
          by (cases "advance D a Builtin answer (f1, k1, w1)") auto
        show ?thesis
        proof (cases r2)
          case (Inl e)
          with eq ans Inr Some y adv show ?thesis
            by (auto simp: continue_auth_flow_def unsupported_message_def)
        next
          case Inr2: (Inr step')
          with eq ans Inr Some y adv have "loop D C a submitted' step' (saved1, f2, k2, w2) = Some rs"
            by (auto simp: continue_auth_flow_def)
          moreover have "asked step' f2"
            using advance_asked [OF adv [unfolded Inr2]] asked s step f1 by simp
          ultimately show ?thesis using IH by fastforce
        qed
      qed
    qed
  qed
  with assms show ?thesis by fastforce
qed

lemma unsupported_never_shown:
  "login backend D C c (saved, w) \<noteq> Some (Inl unsupported_message, s')"
proof
  assume run: "login backend D C c (saved, w) = Some (Inl unsupported_message, s')"
  then obtain a k w1 where conn: "with_config backend D c w = (Inr (a, k), w1)"
    by (auto simp: login_def unsupported_message_def split: prod.splits sum.splits)
  obtain r1 k1 w2 where i: "initiate_auth_flow D a default_start (k, w1) = (r1, (k1, w2))"
    by (cases "initiate_auth_flow D a default_start (k, w1)") auto
  show False
  proof (cases r1)
    case (Inl e)
    with run conn i show False
      by (cases e) (auto simp: login_def unsupported_message_def)
  next
    case (Inr fs)
    obtain f step where fs: "fs = (f, step)" by (cases fs)
    with run conn i Inr obtain l where
      "login_loop D C a False step (saved, f, k1, w2) = Some (Inl unsupported_message, l)"
      by (auto simp: login_def)
    with login_loop_message initiate_asked [OF i [unfolded Inr fs]] show False by fastforce
  qed
qed

end
