(* ===== verification/Spec2Isabelle.thy ===== *)
theory Spec2Isabelle
  imports Prelude Rust_Std Utf8 Errors Json Deps Client_Config Transport Totp Crypto_Mod
    Authenticator Flow_Types Classify Fetch Form Factor Standard Token Flow Callback Client Shared_Keys
    Driver Traffic Network Protocol Completion Evidence Admin Pam Sync Terminal Interrupt Cli
begin

text \<open>
  A verification library for \<open>himmelcloak\<close>, a native Keycloak login client: a Rust core that logs a
  user in through Keycloak's browser pages without a browser, a PAM module crate and a command line
  over it. All paths are under \<open>src/\<close> of the repository.

  \<^bold>\<open>How the program works.\<close> A \<open>PublicClientApplication\<close> (\<open>src/client.rs\<close>) discovers a realm, keeps its
  endpoints and signing keys (\<open>src/token.rs\<close>) and asks for tokens (\<open>src/standard.rs\<close>) over libcurl
  (\<open>src/transport.rs\<close>). A login is an \<open>AuthFlow\<close> (\<open>src/flow/mod.rs\<close>): the driver
  (\<open>src/flow/driver.rs\<close>) fetches a page with the login's own cookies (\<open>src/flow/fetch.rs\<close>), classifies
  it (\<open>src/flow/classify.rs\<close>), extracts its form (\<open>src/flow/form.rs\<close>), asks the caller the
  challenges of the page's factor (\<open>src/flow/factor.rs\<close>), posts the answers, follows redirects on the
  same site, and at the registered callback redeems the code for verified tokens.

  \<^bold>\<open>How it is modelled.\<close> A struct is a \<open>record\<close>, an enum a \<open>datatype\<close>, \<open>Result<T>\<close> is \<open>error + 'a\<close>, and
  a \<open>&mut self\<close> or \<open>async\<close> function is a computation \<open>('s, 'e, 'a) io\<close> on the state it can change;
  \<open>?\<close> is \<open>try_io\<close>, which keeps the state an error left. The outside world \<open>'w\<close> is threaded through
  whatever reads a clock, draws random bytes, sends a request or touches a terminal. Text is a list
  of bytes. Unsigned integers are \<open>nat\<close> with every checked or saturating operation of the source
  written out against \<open>u64_max\<close>, or words where the source works on bits.

  \<^item> \<^bold>\<open>Foundations.\<close> \<open>Prelude\<close> (results, computations, lists), \<open>Rust_Std\<close> and \<open>Utf8\<close> (what the source
    uses of \<open>core::str\<close>), \<open>Errors\<close> (\<open>src/error.rs\<close>), \<open>Deps\<close> (the record of all library operations).
  \<^item> \<^bold>\<open>Data and wire.\<close> \<open>Json\<close> (\<open>src/sensitive_json.rs\<close>), \<open>Client_Config\<close> (\<open>src/config.rs\<close>), \<open>Transport\<close>
    (\<open>src/transport.rs\<close>: requests, the wiped header list, one libcurl transfer with its callbacks, and
    the pool of 32 transfers as a step relation), \<open>Crypto_Mod\<close> (\<open>src/crypto.rs\<close>), \<open>Totp\<close>
    (\<open>src/authn/totp.rs\<close>), \<open>Authenticator\<close> (\<open>src/authenticator/mod.rs\<close>, \<open>software.rs\<close>).
  \<^item> \<^bold>\<open>Pages.\<close> \<open>Flow_Types\<close> (the public types of \<open>src/flow/mod.rs\<close>), \<open>Classify\<close>, \<open>Fetch\<close>, \<open>Form\<close>,
    \<open>Factor\<close>, each the file of its name under \<open>src/flow/\<close>; what a challenge accepts
    (\<open>Expect\<close> of \<open>driver.rs\<close>) is in \<open>Factor\<close>.
  \<^item> \<^bold>\<open>Tokens and logins.\<close> \<open>Standard\<close> and \<open>Token\<close> (the files of their names), \<open>Flow\<close> (the lifecycle of
    \<open>AuthFlow\<close>), \<open>Callback\<close> (\<open>callback\<close> of \<open>driver.rs\<close>), \<open>Client\<close> (\<open>src/client.rs\<close>),
    \<open>Shared_Keys\<close> (\<open>verify_tokens\<close> of several tasks, interleaved on the JWKS lock), \<open>Driver\<close> (the
    steps of \<open>driver.rs\<close> and the client's entry points).
  \<^item> \<^bold>\<open>Over whole logins.\<close> \<open>Traffic\<close> (how many requests a step makes), \<open>Network\<close>
    (\<open>CurlTransport::send\<close> as one call and logins over it), \<open>Protocol\<close> (the abstract machine
    of a login and the driver's refinement of it), \<open>Completion\<close> (an honest login completes),
    \<open>Evidence\<close> (what a step sends, is answered and reads from the clock, as a trace, and what in it
    completed tokens rest on).
  \<^item> \<^bold>\<open>Around the core.\<close> \<open>Admin\<close> (\<open>src/admin.rs\<close>), \<open>Pam\<close> (\<open>crates/pam_himmelcloak\<close>), \<open>Sync\<close>, \<open>Terminal\<close>,
    \<open>Interrupt\<close> (the main thread and the interrupt handler on the saved terminal settings) and \<open>Cli\<close>
    (\<open>crates/himmelcloak-cli\<close>).

  \<^bold>\<open>Interfaces.\<close> Five locales state what one part relies on in another, and each is interpreted on
  the model's own definitions: \<open>cookie_store\<close> (a jar answers each site with what that site last set;
  interpreted by the jar of \<open>Fetch\<close>), \<open>factor_contract\<close> (a page whose challenges were answered can be
  posted; the password factor), \<open>webauthn_adapter\<close> (an assertion binds the request and counts up; the
  software authenticator), \<open>http_transport\<close> (a response is bounded and its cookies are text; the
  libcurl transport of \<open>Network\<close>) and \<open>single_use\<close> (a gate and a closing guard make a resource single-use; the
  lifecycle of a login in \<open>Flow\<close>, and again the driver's guarded steps in \<open>Driver\<close>).

  \<^bold>\<open>What the theorems show.\<close>
  \<^item> A login hands out tokens only after its own callback, with its own verifier and nonce, and only
    verified ones: the exchanges of the completing step itself hold the redirect, the token request
    and its answer, the keys and the time (\<open>Evidence\<close>, over \<open>Driver\<close>, \<open>Callback\<close>, \<open>Token\<close>,
    \<open>Crypto_Mod\<close>); it ends once, in whatever order it is answered, cancelled, dropped or left
    (\<open>Driver\<close>, \<open>Flow\<close>), it implements an abstract machine of six rules (\<open>Protocol\<close>), and when the
    server's responses follow the protocol it does complete (\<open>Completion\<close>).
  \<^item> What leaves the process: cookies only to the origin that set them, forms only to the page's own
    login action over HTTPS, nothing for a refused answer, at most eight requests for a step, every
    transfer with verified TLS and a finite time limit (\<open>Fetch\<close>, \<open>Form\<close>, \<open>Driver\<close>, \<open>Traffic\<close>,
    \<open>Transport\<close>), and a whole login depends on no other kind of transfer (\<open>Network\<close>, where a call of
    \<open>send\<close> also refines the pool: the slot comes back and at most one transfer is performed).
  \<^item> What pages are taken for: exactly which names, devices and labels make a login or a code page
    (\<open>Classify\<close>), and that every page is classified.
  \<^item> Sessions keep their subject through refreshes (\<open>Client\<close>); grants fail on anything malformed
    (\<open>Standard\<close>); discovery stays on the issuer's origin and realm (\<open>Token\<close>).
  \<^item> Tasks that verify tokens on one application at once, dropped ones included, keep its keys whole and
    genuine, accept only what those keys verify and do not starve (\<open>Shared_Keys\<close>); alone, the steps
    are \<open>verify_tokens\<close>. A lemma shows what is not promised: an older answer can be stored last.
  \<^item> The JSON parser is total, returns well-formed values and inverts printing (\<open>Json\<close>); counters of
    one-time codes and assertions only move up (\<open>Totp\<close>, \<open>Authenticator\<close>).
  \<^item> Groups are read whole or not at all, exactly the members of the pages the server answered, and
    reading them ends (\<open>Admin\<close>), a sync prints only what trusted files and root allow (\<open>Sync\<close>), the
    terminal's echo comes back (\<open>Terminal\<close>), also when an interrupt strikes anywhere in a read
    (\<open>Interrupt\<close>), the program always exits, with status 0 for a test login only when that run
    observed a completed one (\<open>Cli\<close>), and the PAM conversation hides what the core calls hidden
    (\<open>Pam\<close>).

  \<^bold>\<open>Loops and bounds.\<close> The parser of \<open>Json\<close> has a fuel of twice its input and one, and is proved never to
  run out of it. \<open>resolve\<close> counts down the \<open>MAX_REDIRECTS\<close> hops the source counts up. \<open>read_members\<close>
  terminates by the members still missing to the limit of 100,000. The loop of \<open>test-login\<close> is a
  \<open>partial_function\<close>, \<open>None\<close> when it does not end, and is proved to end.

  \<^bold>\<open>Hypotheses on libraries.\<close> \<open>Deps\<close> says nothing of what the libraries compute. Properties state what
  they use: that a request is what moves a counter of requests (\<open>counts_requests\<close>), that a world
  remembers what was sent and read (\<open>remembers\<close>), that permits and transfers are what moves their
  counts (\<open>watched\<close>), how a server answers an honest login (\<open>takes_password\<close>, \<open>grants_code\<close>,
  \<open>good_grant\<close>, \<open>good_token\<close>: its responses, not what the client makes of them), that terminal
  settings change only by being set (\<open>terminal_laws\<close>), that appending query pairs to a URL appends
  them, that the \<open>url\<close> crate parses the constant redirect URI, and for a new login's secrets that
  Base64 without padding has its characters and lengths. Each such property has a witness over
  concrete operations.

  \<^bold>\<open>Not modelled.\<close> \<open>src/flow/live.rs\<close>, \<open>live_webauthn.rs\<close>, \<open>tests/\<close> and the \<open>#[cfg(test)]\<close> modules and
  helpers: they drive servers and fixtures. \<open>src/authn/\<close> apart from \<open>totp.rs\<close>, \<open>usb.rs\<close>, \<open>src/keystore/\<close>
  and \<open>nss_himmelcloak\<close>: module documentation or a trait without implementation.
  \<open>examples/terminal_login.rs\<close> prints one line. \<open>Debug\<close> of types without secrets. Operations run as
  within one task, apart from token verification (\<open>Shared_Keys\<close>), the pool of transfers (\<open>Transport\<close>)
  and the interrupt handler (\<open>Interrupt\<close>); \<open>Poisoned\<close> stands for a panic elsewhere;
  dropping a future in the middle of a step is
  modelled, as the guard closing the login in whatever state it had reached. The compiler's own
  copies of secrets are outside the model of wiping, which covers the buffers the source wipes.
\<close>

end
